(* ===== verification/Hive_Prelude.thy ===== *)
theory Hive_Prelude
  imports Main "HOL-Library.AList" "HOL-Library.Multiset"
begin

text \<open>
  Prelude of the hivescope development: what the component theories share.

  \<^item> Python exceptions as values (\<open>py_exn\<close>), and the result type \<open>py_exn + 'a\<close>.
  \<^item> Python's insertion-ordered \<open>dict\<close> as an association list with distinct keys, and its
    laws as the locale \<open>ordered_dict\<close>, interpreted on the list representation.
  \<^item> Runs of a step relation (\<open>reaches\<close>) and the locale \<open>kept_invariant\<close>, which lifts an
    invariant from single steps to runs.
  \<^item> Small list functions the source uses (\<open>xs[-1]\<close>, \<open>xs[-n:]\<close>), with their lemmas.
  \<^item> Polling loops with a deadline (\<open>poll_until\<close>), and decimal numerals, which are injective.
\<close>

section \<open>Exceptions as values\<close>

datatype py_exn =
    AssertionError | ValueError | KeyError | RuntimeError | TypeError
  | AttributeError | TimeoutError | OtherError string

type_synonym 'a result = "py_exn + 'a"

text \<open>Sequencing of two fallible computations: the first exception ends the sequence.\<close>

fun rbind :: "'a result \<Rightarrow> ('a \<Rightarrow> 'b result) \<Rightarrow> 'b result" where
  "rbind (Inl e) f = Inl e"
| "rbind (Inr x) f = f x"

lemma rbind_Inr_iff [simp]:
  "rbind r f = Inr y \<longleftrightarrow> (\<exists>x. r = Inr x \<and> f x = Inr y)"
  by (cases r) auto

lemma rbind_assoc: "rbind (rbind r f) g = rbind r (\<lambda>x. rbind (f x) g)"
  by (cases r) auto

text \<open>The first exception of a loop ends it.\<close>

fun rmap :: "('a \<Rightarrow> 'b result) \<Rightarrow> 'a list \<Rightarrow> 'b list result" where
  "rmap f [] = Inr []"
| "rmap f (x # xs) = rbind (f x) (\<lambda>y. rbind (rmap f xs) (\<lambda>ys. Inr (y # ys)))"

lemma rmap_Inr: "rmap f xs = Inr ys \<longleftrightarrow> list_all2 (\<lambda>x y. f x = Inr y) xs ys"
  by (induction xs arbitrary: ys) (auto simp: list_all2_Cons1)

lemma rmap_all: "map f xs = map Inr ys \<Longrightarrow> rmap f xs = Inr ys"
  by (simp add: rmap_Inr list_all2_conv_all_nth list_eq_iff_nth_eq)

lemma rmap_in: "rmap f xs = Inr ys \<Longrightarrow> x \<in> set xs \<Longrightarrow> \<exists>y \<in> set ys. f x = Inr y"
  by (induction xs arbitrary: ys) auto

text \<open>\<open>assert c\<close> of the source: \<open>AssertionError\<close> unless the condition holds.\<close>

definition require :: "bool \<Rightarrow> unit result" where
  "require c = (if c then Inr () else Inl AssertionError)"

lemma require_Inr [simp]: "require c = Inr u \<longleftrightarrow> c"
  by (simp add: require_def)

lemma require_Inl [simp]: "require c = Inl e \<longleftrightarrow> \<not> c \<and> e = AssertionError"
  by (auto simp: require_def)

section \<open>Python dictionaries\<close>

text \<open>
  A Python \<open>dict\<close> iterates its keys in insertion order; assigning to a present key keeps the
  key's position, and a deleted key that is assigned again goes to the end.
\<close>

named_theorems dict_simps "rewriting of dictionary lookups, keys and values"

type_synonym ('k, 'v) pydict = "('k \<times> 'v) list"

definition dget :: "('k, 'v) pydict \<Rightarrow> 'k \<Rightarrow> 'v option" where
  "dget d k = map_of d k"

definition dset :: "'k \<Rightarrow> 'v \<Rightarrow> ('k, 'v) pydict \<Rightarrow> ('k, 'v) pydict" where
  "dset k v d = AList.update k v d"

definition ddel :: "'k \<Rightarrow> ('k, 'v) pydict \<Rightarrow> ('k, 'v) pydict" where
  "ddel k d = AList.delete k d"

definition dkeys :: "('k, 'v) pydict \<Rightarrow> 'k list" where
  "dkeys d = map fst d"

definition dvals :: "('k, 'v) pydict \<Rightarrow> 'v list" where
  "dvals d = map snd d"

definition dict_ok :: "('k, 'v) pydict \<Rightarrow> bool" where
  "dict_ok d \<longleftrightarrow> distinct (map fst d)"

text \<open>The dictionary interface: what its clients rely on.\<close>

locale ordered_dict =
  fixes empty :: "'d"
    and look :: "'d \<Rightarrow> 'k \<Rightarrow> 'v option"
    and store :: "'k \<Rightarrow> 'v \<Rightarrow> 'd \<Rightarrow> 'd"
    and remove :: "'k \<Rightarrow> 'd \<Rightarrow> 'd"
    and keys :: "'d \<Rightarrow> 'k list"
    and vals :: "'d \<Rightarrow> 'v list"
    and good :: "'d \<Rightarrow> bool"
  assumes look_empty: "look empty k = None"
    and good_empty: "good empty"
    and look_store: "look (store k v d) k' = (if k' = k then Some v else look d k')"
    and look_remove: "look (remove k d) k' = (if k' = k then None else look d k')"
    and good_store: "good d \<Longrightarrow> good (store k v d)"
    and good_remove: "good d \<Longrightarrow> good (remove k d)"
    and keys_store: "keys (store k v d) = (if k \<in> set (keys d) then keys d else keys d @ [k])"
    and keys_remove: "keys (remove k d) = filter (\<lambda>k'. k' \<noteq> k) (keys d)"
    and keys_dom: "set (keys d) = {k. look d k \<noteq> None}"
    and vals_ran: "good d \<Longrightarrow> set (vals d) = {v. \<exists>k. look d k = Some v}"
    and distinct_keys: "good d \<Longrightarrow> distinct (keys d)"
begin

lemma look_store_same [simp]: "look (store k v d) k = Some v"
  by (simp add: look_store)

lemma look_remove_same [simp]: "look (remove k d) k = None"
  by (simp add: look_remove)

lemma store_then_remove: "look (remove k (store k v d)) k' = look (remove k d) k'"
  by (simp add: look_remove look_store)

lemma in_keys_iff: "k \<in> set (keys d) \<longleftrightarrow> (\<exists>v. look d k = Some v)"
  by (simp add: keys_dom)

lemma vals_store:
  assumes "good d"
  shows "set (vals (store k v d)) = insert v {w. \<exists>k'. k' \<noteq> k \<and> look d k' = Some w}"
  using assms by (auto simp: vals_ran good_store look_store)

lemma vals_remove:
  assumes "good d"
  shows "set (vals (remove k d)) = {w. \<exists>k'. k' \<noteq> k \<and> look d k' = Some w}"
  using assms by (auto simp: vals_ran good_remove look_remove split: if_splits)

text \<open>A new key goes to the end, an old one keeps its place.\<close>

lemma store_old_order: "look d k \<noteq> None \<Longrightarrow> keys (store k v d) = keys d"
  by (simp add: keys_store keys_dom)

lemma store_new_order: "look d k = None \<Longrightarrow> keys (store k v d) = keys d @ [k]"
  by (simp add: keys_store keys_dom)

end

interpretation pd: ordered_dict "[]" dget dset ddel dkeys dvals dict_ok
proof unfold_locales
  fix k k' :: 'k and v :: 'v and d :: "('k, 'v) pydict"
  show "dget (dset k v d) k' = (if k' = k then Some v else dget d k')"
    by (simp add: dget_def dset_def update_conv)
  show "dget (ddel k d) k' = (if k' = k then None else dget d k')"
    by (simp add: dget_def ddel_def delete_conv)
  show "dict_ok d \<Longrightarrow> dict_ok (dset k v d)"
    by (simp add: dict_ok_def dset_def distinct_update)
  show "dict_ok d \<Longrightarrow> dict_ok (ddel k d)"
    by (simp add: dict_ok_def ddel_def distinct_delete)
  show "dkeys (dset k v d) = (if k \<in> set (dkeys d) then dkeys d else dkeys d @ [k])"
    by (simp add: dkeys_def dset_def update_keys)
  show "dkeys (ddel k d) = filter (\<lambda>k'. k' \<noteq> k) (dkeys d)"
    by (simp add: dkeys_def ddel_def delete_keys removeAll_filter_not_eq eq_commute)
  show "set (dkeys d) = {k. dget d k \<noteq> None}"
    by (force simp: dkeys_def dget_def map_of_eq_None_iff)
  show "dict_ok d \<Longrightarrow> set (dvals d) = {v. \<exists>k. dget d k = Some v}"
    by (force simp: dict_ok_def dvals_def dget_def map_of_eq_Some_iff)
qed (simp_all add: dget_def dict_ok_def dkeys_def)

lemmas dict_facts [dict_simps] =
  pd.look_empty pd.look_store pd.look_remove pd.keys_store pd.keys_remove

section \<open>Runs of a step relation\<close>

inductive reaches :: "('s \<Rightarrow> 's \<Rightarrow> bool) \<Rightarrow> 's \<Rightarrow> 's \<Rightarrow> bool" for step where
  reaches_refl [intro]: "reaches step s s"
| reaches_step: "reaches step s t \<Longrightarrow> step t u \<Longrightarrow> reaches step s u"

lemma reaches_trans: "reaches step t u \<Longrightarrow> reaches step s t \<Longrightarrow> reaches step s u"
  by (induction rule: reaches.induct) (auto intro: reaches_step)

lemma reaches_one: "step s t \<Longrightarrow> reaches step s t"
  by (rule reaches_step [OF reaches_refl])

text \<open>The contract of an invariant: true at the start, kept by every step.\<close>

locale kept_invariant =
  fixes start :: "'s \<Rightarrow> bool"
    and step :: "'s \<Rightarrow> 's \<Rightarrow> bool"
    and inv :: "'s \<Rightarrow> bool"
  assumes inv_start: "start s \<Longrightarrow> inv s"
    and inv_step: "step s t \<Longrightarrow> inv s \<Longrightarrow> inv t"
begin

lemma inv_run: "reaches step s t \<Longrightarrow> inv s \<Longrightarrow> inv t"
  by (induction rule: reaches.induct) (auto intro: inv_step)

lemma inv_reachable: "start s \<Longrightarrow> reaches step s t \<Longrightarrow> inv t"
  by (blast intro: inv_run inv_start)

end

section \<open>Lists\<close>

text \<open>\<open>xs[-1] if xs else None\<close>.\<close>

definition last_opt :: "'a list \<Rightarrow> 'a option" where
  "last_opt xs = (if xs = [] then None else Some (last xs))"

lemma last_opt_Some: "last_opt xs = Some x \<longleftrightarrow> xs \<noteq> [] \<and> x = last xs"
  by (auto simp: last_opt_def)

lemma last_opt_None [simp]: "last_opt xs = None \<longleftrightarrow> xs = []"
  by (simp add: last_opt_def)

lemma last_opt_in: "last_opt xs = Some x \<Longrightarrow> x \<in> set xs"
  by (auto simp: last_opt_def split: if_splits)

lemma last_opt_snoc [simp]: "last_opt (xs @ [x]) = Some x"
  by (simp add: last_opt_def)

text \<open>
  \<open>xs[-n:]\<close> for a non-negative \<open>n\<close>. For \<open>n = 0\<close> Python reads \<open>xs[0:]\<close>, the whole list.
\<close>

definition slice_last :: "nat \<Rightarrow> 'a list \<Rightarrow> 'a list" where
  "slice_last n xs = (if n = 0 then xs else drop (length xs - n) xs)"

lemma slice_last_length: "0 < n \<Longrightarrow> length (slice_last n xs) = min n (length xs)"
  by (auto simp: slice_last_def)

lemma slice_last_append: "0 < n \<Longrightarrow> n = length ys \<Longrightarrow> slice_last n (xs @ ys) = ys"
  by (simp add: slice_last_def)

section \<open>Polling\<close>

text \<open>A polling loop: the clock and the state it reads each time round. It leaves with the
  first state that satisfies the condition, or at the first reading past the deadline;
  \<open>None\<close> when it is still going round.\<close>

fun poll_until :: "('s \<Rightarrow> bool) \<Rightarrow> int \<Rightarrow> (int \<times> 's) list \<Rightarrow> bool option" where
  "poll_until ok deadline [] = None"
| "poll_until ok deadline ((t, x) # ps) =
     (if ok x then Some True
      else if deadline \<le> t then Some False
      else poll_until ok deadline ps)"

lemma poll_until_None:
  "poll_until ok deadline ps = None \<longleftrightarrow> (\<forall>(t, rs) \<in> set ps. \<not> ok rs \<and> t < deadline)"
  by (induction ok deadline ps rule: poll_until.induct) (auto split: if_splits)

lemma poll_until_decides:
  assumes "\<exists>(t, rs) \<in> set ps. deadline \<le> t"
  shows "\<exists>b. poll_until ok deadline ps = Some b"
proof (cases "poll_until ok deadline ps")
  case None
  with assms show ?thesis by (fastforce simp: poll_until_None)
qed blast

lemma poll_until_True:
  "poll_until ok deadline ps = Some True \<longleftrightarrow> (\<exists>before t rs after. ps = before @ (t, rs) # after \<and> ok rs
     \<and> (\<forall>(u, qs) \<in> set before. u < deadline))"
proof (induction ps)
  case (Cons p ps)
  obtain t rs where p: "p = (t, rs)" by (cases p)
  show ?case
  proof (cases "ok rs")
    case True
    then show ?thesis unfolding p by (auto intro!: exI [of _ "[]"])
  next
    case False
    have "(\<exists>before u qs after. p # ps = before @ (u, qs) # after \<and> ok qs
        \<and> (\<forall>(v, xs) \<in> set before. v < deadline))
      \<longleftrightarrow> t < deadline \<and> (\<exists>before u qs after. ps = before @ (u, qs) # after \<and> ok qs
        \<and> (\<forall>(v, xs) \<in> set before. v < deadline))"
      using False by (auto simp: p Cons_eq_append_conv) (metis case_prodI insert_iff list.set(2))+
    with False Cons.IH show ?thesis by (auto simp: p)
  qed
qed simp

section \<open>Numerals\<close>

text \<open>Decimal numerals, as in an f-string.\<close>

fun nat_str :: "nat \<Rightarrow> string" where
  "nat_str n = (if n < 10 then [char_of (48 + n)] else nat_str (n div 10) @ [char_of (48 + n mod 10)])"

declare nat_str.simps [simp del]

definition read_digits :: "string \<Rightarrow> nat" where
  "read_digits s = foldl (\<lambda>n c. 10 * n + (of_char c - 48)) 0 s"

lemma read_nat_str: "read_digits (nat_str n) = n"
proof (induction n rule: nat_str.induct)
  case (1 n)
  have d: "(of_char (char_of (48 + k)) :: nat) = 48 + k" if "k < 10" for k :: nat
    using that by simp
  show ?case
  proof (cases "n < 10")
    case True
    then show ?thesis using d [of n] by (subst nat_str.simps) (simp add: read_digits_def)
  next
    case False
    with 1 have "read_digits (nat_str (n div 10)) = n div 10" by simp
    with False d [of "n mod 10"] show ?thesis
      by (subst nat_str.simps) (simp add: read_digits_def)
  qed
qed

lemma nat_str_inject [simp]: "nat_str m = nat_str n \<longleftrightarrow> m = n"
  by (metis read_nat_str)

definition int_str :: "int \<Rightarrow> string" where
  "int_str i = (if 0 \<le> i then nat_str (nat i) else ''-'' @ nat_str (nat (- i)))"

end
