(* ===== verification/Client_Database.thy ===== *)
theory Client_Database
  imports Hive_Prelude
begin

text \<open>
  The in-memory credential store, \<open>InMemoryClientDatabase\<close> of \<open>hivescope/database.py\<close>.

  The state is the dictionary \<open>_clients\<close> (by access key, in insertion order) and the
  monotonic id source \<open>_next_id\<close>. Each method takes the store's lock for its whole body, so
  a method is one atomic function of the state. \<open>Client\<close> comes from
  hivemind-plugin-manager: the record keeps the attributes that the store passes to the
  constructor or assigns. Client objects are values here: a caller that mutates a client it
  was handed is outside the model, as the comment in \<open>__init__\<close> warns.
\<close>

section \<open>State\<close>

record client =
  api_key :: string
  cl_name :: string
  client_id :: int
  is_admin :: bool
  allowed_types :: "string list"
  cl_password :: "string option"
  can_escalate :: bool
  can_propagate :: bool
  can_broadcast :: bool
  metadata :: "(string, string list) pydict"

record client_db =
  clients_of :: "(string, client) pydict"
  next_id :: int

definition new_db :: client_db where
  "new_db = \<lparr>clients_of = [], next_id = 0\<rparr>"

text \<open>The keyword arguments of \<open>add_client\<close>, \<open>None\<close> where a list or the password is absent.\<close>

record add_args =
  a_name :: string
  a_key :: string
  a_admin :: bool
  a_intent_blacklist :: "string list option"
  a_skill_blacklist :: "string list option"
  a_message_blacklist :: "string list option"
  a_allowed_types :: "string list option"
  a_password :: "string option"
  a_can_escalate :: bool
  a_can_propagate :: bool
  a_can_broadcast :: bool

section \<open>Operations\<close>

definition get_client_by_api_key :: "client_db \<Rightarrow> string \<Rightarrow> client option" where
  "get_client_by_api_key db key = dget (clients_of db) key"

text \<open>\<open>if blacklist is not None: set it when non-empty, else pop it\<close>.\<close>

definition update_blacklist ::
    "string \<Rightarrow> string list option \<Rightarrow> (string, string list) pydict \<Rightarrow> (string, string list) pydict" where
  "update_blacklist field bl meta =
     (case bl of
        None \<Rightarrow> meta
      | Some xs \<Rightarrow> (if xs \<noteq> [] then dset field xs meta else ddel field meta))"

text \<open>\<open>if password: ...\<close>: an empty or absent password is falsy.\<close>

definition given_password :: "string option \<Rightarrow> bool" where
  "given_password p \<longleftrightarrow> (\<exists>s. p = Some s \<and> s \<noteq> [])"

lemma given_password_code [code, simp]:
  "given_password None = False" "given_password (Some s) = (s \<noteq> [])"
  by (simp_all add: given_password_def)

definition updated_client :: "add_args \<Rightarrow> client \<Rightarrow> client" where
  "updated_client a c = c\<lparr>
     cl_name := (if a_name a \<noteq> [] then a_name a else cl_name c),
     metadata := update_blacklist ''skill_blacklist'' (a_skill_blacklist a)
                   (update_blacklist ''intent_blacklist'' (a_intent_blacklist a) (metadata c)),
     allowed_types := (case a_allowed_types a of None \<Rightarrow> allowed_types c | Some ts \<Rightarrow> ts),
     is_admin := a_admin a,
     cl_password := (if given_password (a_password a) then a_password a else cl_password c),
     can_escalate := a_can_escalate a,
     can_propagate := a_can_propagate a,
     can_broadcast := a_can_broadcast a\<rparr>"

text \<open>\<open>if blacklist: metadata[field] = list(blacklist)\<close> on the fresh dictionary.\<close>

definition fresh_blacklist ::
    "string \<Rightarrow> string list option \<Rightarrow> (string, string list) pydict \<Rightarrow> (string, string list) pydict" where
  "fresh_blacklist field bl meta =
     (case bl of None \<Rightarrow> meta | Some xs \<Rightarrow> (if xs \<noteq> [] then dset field xs meta else meta))"

definition fresh_client :: "add_args \<Rightarrow> int \<Rightarrow> client" where
  "fresh_client a i = \<lparr>
     api_key = a_key a,
     cl_name = a_name a,
     client_id = i,
     is_admin = a_admin a,
     allowed_types = (case a_allowed_types a of None \<Rightarrow> [] | Some ts \<Rightarrow> ts),
     cl_password = a_password a,
     can_escalate = a_can_escalate a,
     can_propagate = a_can_propagate a,
     can_broadcast = a_can_broadcast a,
     metadata = fresh_blacklist ''intent_blacklist'' (a_intent_blacklist a)
                  (fresh_blacklist ''skill_blacklist'' (a_skill_blacklist a) [])\<rparr>"

definition add_client :: "add_args \<Rightarrow> client_db \<Rightarrow> bool \<times> client_db" where
  "add_client a db =
     (case get_client_by_api_key db (a_key a) of
        Some existing \<Rightarrow>
          (True, db\<lparr>clients_of := dset (a_key a) (updated_client a existing) (clients_of db)\<rparr>)
      | None \<Rightarrow>
          (let i = next_id db + 1 in
           (True, db\<lparr>next_id := i,
                     clients_of := dset (a_key a) (fresh_client a i) (clients_of db)\<rparr>)))"

definition update_item :: "client \<Rightarrow> client_db \<Rightarrow> bool \<times> client_db" where
  "update_item c db = (True, db\<lparr>clients_of := dset (api_key c) c (clients_of db)\<rparr>)"

definition delete_client :: "string \<Rightarrow> client_db \<Rightarrow> bool \<times> client_db" where
  "delete_client key db =
     (if get_client_by_api_key db key \<noteq> None
      then (True, db\<lparr>clients_of := ddel key (clients_of db)\<rparr>)
      else (False, db))"

definition get_client_by_id :: "client_db \<Rightarrow> int \<Rightarrow> client option" where
  "get_client_by_id db i = List.find (\<lambda>c. client_id c = i) (dvals (clients_of db))"

definition refresh :: "client_db \<Rightarrow> int \<Rightarrow> client option" where
  "refresh db i = get_client_by_id db i"

definition get_clients_by_name :: "client_db \<Rightarrow> string \<Rightarrow> client list" where
  "get_clients_by_name db n = filter (\<lambda>c. cl_name c = n) (dvals (clients_of db))"

definition total_clients :: "client_db \<Rightarrow> nat" where
  "total_clients db = length (clients_of db)"

text \<open>\<open>__len__\<close>, \<open>__iter__\<close> on a copy of the rows, and the calls of a store that has a disk, which do nothing
  here: \<open>sync\<close>, \<open>__enter__\<close>, \<open>__exit__\<close>. The last returns \<open>None\<close>, so an exception of the \<open>with\<close> block goes on.\<close>

definition db_len :: "client_db \<Rightarrow> nat" where
  "db_len db = length (clients_of db)"

definition db_iter :: "client_db \<Rightarrow> client list" where
  "db_iter db = dvals (clients_of db)"

definition db_sync :: "client_db \<Rightarrow> client_db" where
  "db_sync db = db"

definition db_enter :: "client_db \<Rightarrow> client_db" where
  "db_enter db = db"

definition db_exit :: "py_exn option \<Rightarrow> client_db \<Rightarrow> bool \<times> client_db" where
  "db_exit e db = (False, db)"

section \<open>The contract of a client store\<close>

text \<open>
  What the network protocols rely on when they admit a client: a key that was added is
  found, and whatever is done under another key does not change what a key resolves to.
\<close>

locale client_store =
  fixes lookup :: "'db \<Rightarrow> string \<Rightarrow> client option"
    and add :: "add_args \<Rightarrow> 'db \<Rightarrow> bool \<times> 'db"
    and revoke :: "string \<Rightarrow> 'db \<Rightarrow> bool \<times> 'db"
  assumes add_new: "lookup db (a_key a) = None \<Longrightarrow>
      \<exists>i. lookup (snd (add a db)) (a_key a) = Some (fresh_client a i)"
    and add_old: "lookup db (a_key a) = Some c \<Longrightarrow>
      lookup (snd (add a db)) (a_key a) = Some (updated_client a c)"
    and add_other: "k \<noteq> a_key a \<Longrightarrow> lookup (snd (add a db)) k = lookup db k"
    and add_True: "fst (add a db)"
    and revoke_same: "lookup (snd (revoke k db)) k = None"
    and revoke_other: "k' \<noteq> k \<Longrightarrow> lookup (snd (revoke k db)) k' = lookup db k'"
    and revoke_reports: "fst (revoke k db) \<longleftrightarrow> lookup db k \<noteq> None"
begin

lemma add_found: "\<exists>c. lookup (snd (add a db)) (a_key a) = Some c"
proof (cases "lookup db (a_key a)")
  case None
  then show ?thesis using add_new by blast
next
  case (Some c)
  then show ?thesis using add_old by blast
qed

text \<open>The permission flags in force after a registration are the ones just passed.\<close>

lemma add_flags:
  assumes "lookup (snd (add a db)) (a_key a) = Some c"
  shows "is_admin c = a_admin a \<and> can_escalate c = a_can_escalate a
    \<and> can_propagate c = a_can_propagate a \<and> can_broadcast c = a_can_broadcast a"
proof (cases "lookup db (a_key a)")
  case None
  then obtain i where "lookup (snd (add a db)) (a_key a) = Some (fresh_client a i)"
    using add_new by blast
  with assms show ?thesis by (auto simp: fresh_client_def)
next
  case (Some d)
  with assms add_old show ?thesis by (auto simp: updated_client_def)
qed

text \<open>An explicit whitelist replaces the old one, the empty list included.\<close>

lemma add_whitelist:
  assumes "lookup (snd (add a db)) (a_key a) = Some c" and "a_allowed_types a = Some ts"
  shows "allowed_types c = ts"
proof (cases "lookup db (a_key a)")
  case None
  then obtain i where "lookup (snd (add a db)) (a_key a) = Some (fresh_client a i)"
    using add_new by blast
  with assms show ?thesis by (auto simp: fresh_client_def)
next
  case (Some d)
  with assms add_old show ?thesis by (auto simp: updated_client_def)
qed

text \<open>Without a whitelist argument a known client keeps the whitelist it had.\<close>

lemma add_whitelist_kept:
  assumes "lookup db (a_key a) = Some d" and "a_allowed_types a = None"
    and "lookup (snd (add a db)) (a_key a) = Some c"
  shows "allowed_types c = allowed_types d"
  using assms add_old [OF assms(1)] by (auto simp: updated_client_def)

end

interpretation db: client_store get_client_by_api_key add_client delete_client
proof unfold_locales
  fix db :: client_db and a :: add_args and c :: client and k k' :: string
  show "get_client_by_api_key db (a_key a) = None \<Longrightarrow>
      \<exists>i. get_client_by_api_key (snd (add_client a db)) (a_key a) = Some (fresh_client a i)"
    by (auto simp: add_client_def get_client_by_api_key_def Let_def)
  show "get_client_by_api_key db (a_key a) = Some c \<Longrightarrow>
      get_client_by_api_key (snd (add_client a db)) (a_key a) = Some (updated_client a c)"
    by (simp add: add_client_def get_client_by_api_key_def)
qed (auto simp: add_client_def delete_client_def get_client_by_api_key_def Let_def dict_simps
       split: option.splits)

section \<open>Histories of the store\<close>

text \<open>
  One step is one call of a writing method. \<open>update_item\<close> replaces a row by a changed version
  of it: the caller keeps the access key and the id, which is how a row is edited.
\<close>

inductive db_step :: "client_db \<Rightarrow> client_db \<Rightarrow> bool" where
  db_add: "db_step db (snd (add_client a db))"
| db_delete: "db_step db (snd (delete_client k db))"
| db_update: "get_client_by_api_key db (api_key c) = Some old \<Longrightarrow> client_id c = client_id old \<Longrightarrow>
     db_step db (snd (update_item c db))"

definition db_inv :: "client_db \<Rightarrow> bool" where
  "db_inv db \<longleftrightarrow> dict_ok (clients_of db) \<and>
     (\<forall>k c. dget (clients_of db) k = Some c \<longrightarrow>
        api_key c = k \<and> 1 \<le> client_id c \<and> client_id c \<le> next_id db) \<and>
     (\<forall>k k' c c'. dget (clients_of db) k = Some c \<longrightarrow> dget (clients_of db) k' = Some c' \<longrightarrow>
        client_id c = client_id c' \<longrightarrow> k = k') \<and> 0 \<le> next_id db"

definition retired :: "int \<Rightarrow> client_db \<Rightarrow> bool" where
  "retired i db \<longleftrightarrow> i \<le> next_id db \<and>
     (\<forall>k c. dget (clients_of db) k = Some c \<longrightarrow> client_id c \<noteq> i)"

lemma updated_client_sel [simp]:
  "client_id (updated_client a c) = client_id c" "api_key (updated_client a c) = api_key c"
  by (simp_all add: updated_client_def)

lemma fresh_client_sel [simp]:
  "client_id (fresh_client a i) = i" "api_key (fresh_client a i) = a_key a"
  by (simp_all add: fresh_client_def)

lemma db_inv_new: "db_inv new_db"
  by (simp add: db_inv_def new_db_def dict_simps dict_ok_def)

lemma db_inv_add: "db_inv db \<Longrightarrow> db_inv (snd (add_client a db))"
  by (cases "dget (clients_of db) (a_key a)")
    (fastforce simp: db_inv_def add_client_def get_client_by_api_key_def Let_def dict_simps
      pd.good_store split: if_splits)+

lemma db_inv_delete: "db_inv db \<Longrightarrow> db_inv (snd (delete_client k db))"
  by (auto simp: db_inv_def delete_client_def dict_simps pd.good_remove split: if_splits)

lemma db_inv_update:
  assumes "db_inv db" and "get_client_by_api_key db (api_key c) = Some old"
    and "client_id c = client_id old"
  shows "db_inv (snd (update_item c db))"
  using assms
  by (fastforce simp: db_inv_def update_item_def get_client_by_api_key_def dict_simps
      pd.good_store split: if_splits)

interpretation dbi: kept_invariant "\<lambda>db. db = new_db" db_step db_inv
proof unfold_locales
  show "db = new_db \<Longrightarrow> db_inv db" for db
    by (simp add: db_inv_new)
  show "db_step db db' \<Longrightarrow> db_inv db \<Longrightarrow> db_inv db'" for db db'
    by (induction rule: db_step.induct) (auto intro: db_inv_add db_inv_delete db_inv_update)
qed

interpretation dbr: kept_invariant "retired i" db_step "retired i" for i
proof unfold_locales
  show "db_step db db' \<Longrightarrow> retired i db \<Longrightarrow> retired i db'" for db db'
    by (induction rule: db_step.induct)
      (auto simp: retired_def add_client_def delete_client_def update_item_def Let_def
        get_client_by_api_key_def dict_simps split: option.splits if_splits)
qed

lemma db_inv_unique:
  "db_inv db \<Longrightarrow> dget (clients_of db) k = Some c \<Longrightarrow> dget (clients_of db) k' = Some c' \<Longrightarrow>
   client_id c = client_id c' \<Longrightarrow> k = k'"
  unfolding db_inv_def by blast

lemma find_by_id:
  assumes "db_inv db" and "dget (clients_of db) k = Some c"
  shows "get_client_by_id db (client_id c) = Some c"
proof -
  have vals: "set (dvals (clients_of db)) = {v. \<exists>k. dget (clients_of db) k = Some v}"
    using assms(1) by (simp add: pd.vals_ran db_inv_def)
  with assms(2) have "c \<in> set (dvals (clients_of db))" by blast
  then obtain d where d: "get_client_by_id db (client_id c) = Some d"
    by (fastforce simp: get_client_by_id_def find_None_iff)
  then have "d \<in> set (dvals (clients_of db))" and "client_id d = client_id c"
    by (auto simp: get_client_by_id_def find_Some_iff)
  with vals obtain k' where "dget (clients_of db) k' = Some d" by blast
  with assms \<open>client_id d = client_id c\<close> have "k' = k" by (blast intro: db_inv_unique)
  with assms(2) \<open>dget (clients_of db) k' = Some d\<close> show ?thesis using d by simp
qed

lemma find_by_id_None:
  assumes "db_inv db" and "retired i db"
  shows "get_client_by_id db i = None"
proof -
  have "set (dvals (clients_of db)) = {v. \<exists>k. dget (clients_of db) k = Some v}"
    using assms(1) by (simp add: pd.vals_ran db_inv_def)
  with assms(2) show ?thesis
    by (auto simp: get_client_by_id_def find_None_iff retired_def)
qed

lemma retired_delete:
  assumes "db_inv db" and "dget (clients_of db) k = Some c"
  shows "retired (client_id c) (snd (delete_client k db))"
  using assms
  by (auto simp: retired_def delete_client_def get_client_by_api_key_def db_inv_def dict_simps
      split: if_splits)

section \<open>Properties\<close>

text \<open>Iterating over a store gives each row once.\<close>

lemma db_iter_rows:
  assumes "db_inv db"
  shows "set (db_iter db) = {c. \<exists>k. get_client_by_api_key db k = Some c}" and "length (db_iter db) = db_len db"
  using assms
  by (auto simp: db_iter_def db_len_def dvals_def db_inv_def dict_ok_def dkeys_def get_client_by_api_key_def dget_def
      intro: map_of_is_SomeI dest: map_of_SomeD) force+

definition example_args :: "string \<Rightarrow> add_args" where
  "example_args k = \<lparr>a_name = ''test-satellite'', a_key = k, a_admin = False,
     a_intent_blacklist = None, a_skill_blacklist = None, a_message_blacklist = None,
     a_allowed_types = None, a_password = Some ''pw'', a_can_escalate = True,
     a_can_propagate = True, a_can_broadcast = True\<rparr>"

lemmas db_eval = add_client_def delete_client_def get_client_by_api_key_def
  get_client_by_id_def new_db_def Let_def example_args_def fresh_client_def updated_client_def
  dget_def dset_def ddel_def dvals_def





text \<open>Registering a key again updates the row in place: the id and the other rows stay,
  the four permission flags become the new ones, an explicit whitelist replaces the old one
  (the empty list revokes it), no whitelist argument keeps it, and an empty or absent
  password is ignored.\<close>

theorem register_again:
  assumes "get_client_by_api_key db (a_key a) = Some old"
    and "get_client_by_api_key (snd (add_client a db)) (a_key a) = Some c"
  shows "client_id c = client_id old
    \<and> (is_admin c, can_escalate c, can_propagate c, can_broadcast c)
        = (a_admin a, a_can_escalate a, a_can_propagate a, a_can_broadcast a)
    \<and> allowed_types c = (case a_allowed_types a of None \<Rightarrow> allowed_types old | Some ts \<Rightarrow> ts)
    \<and> cl_password c = (if given_password (a_password a) then a_password a else cl_password old)
    \<and> total_clients (snd (add_client a db)) = total_clients db
    \<and> (\<forall>k. k \<noteq> a_key a \<longrightarrow>
          get_client_by_api_key (snd (add_client a db)) k = get_client_by_api_key db k)"
proof -
  have "c = updated_client a old"
    using assms db.add_old [OF assms(1)] by simp
  moreover have "dkeys (clients_of (snd (add_client a db))) = dkeys (clients_of db)"
    using assms(1) by (simp add: add_client_def get_client_by_api_key_def pd.store_old_order)
  then have "total_clients (snd (add_client a db)) = total_clients db"
    by (metis total_clients_def dkeys_def length_map)
  ultimately show ?thesis
    using db.add_flags [OF assms(2)] db.add_other [of _ a db]
    by (simp add: updated_client_def)
qed

theorem register_again_witness:
  "cl_password (updated_client (example_args ''k''\<lparr>a_password := None\<rparr>)
     (fresh_client (example_args ''k'') 1)) = Some ''pw''"
proof -
  let ?d = "snd (add_client (example_args ''k'') new_db)"
  let ?a = "example_args ''k''\<lparr>a_password := None\<rparr>"
  have "get_client_by_api_key ?d (a_key ?a) = Some (fresh_client (example_args ''k'') 1)"
    by (simp add: db_eval)
  moreover have "get_client_by_api_key (snd (add_client ?a ?d)) (a_key ?a)
      = Some (updated_client ?a (fresh_client (example_args ''k'') 1))"
    by (simp add: db_eval)
  ultimately show ?thesis
    using register_again [of ?d ?a] by (simp add: example_args_def fresh_client_def)
qed

end
