(* ===== verification/Py_Value.thy ===== *)
theory Py_Value
  imports Hive_Prelude
begin

text \<open>
  The Python values that travel through the harness as message payloads: JSON values, byte
  strings and OVOS \<open>Message\<close> objects. A \<open>Message\<close> keeps the three attributes the source
  reads (\<open>msg_type\<close>, \<open>data\<close>, \<open>context\<close>). Python numbers here are the unbounded integers;
  floats do not occur in anything that is modelled.

  The functions are Python's own operations on such values as the source uses them:
  truthiness (\<open>x or {}\<close>), \<open>isinstance(x, dict)\<close>, \<open>x.get(k)\<close> with its \<open>AttributeError\<close> on
  a value that is no dictionary, \<open>==\<close>, which ignores the order of dictionary keys and
  identifies \<open>True\<close> with \<open>1\<close>, and the enumeration of HiveMind message types with their
  wire values as \<open>LIBRARY.md\<close> lists them.
\<close>

datatype pyval =
    PNone
  | PBool bool
  | PInt int
  | PStr string
  | PBytes string
  | PList "pyval list"
  | PDict "(string \<times> pyval) list"
  | PMsg string pyval pyval

fun truthy :: "pyval \<Rightarrow> bool" where
  "truthy PNone = False"
| "truthy (PBool b) = b"
| "truthy (PInt i) = (i \<noteq> 0)"
| "truthy (PStr s) = (s \<noteq> [])"
| "truthy (PBytes s) = (s \<noteq> [])"
| "truthy (PList xs) = (xs \<noteq> [])"
| "truthy (PDict d) = (d \<noteq> [])"
| "truthy (PMsg t d c) = True"

text \<open>\<open>x or y\<close>.\<close>

definition py_or :: "pyval \<Rightarrow> pyval \<Rightarrow> pyval" where
  "py_or x y = (if truthy x then x else y)"

fun is_dict :: "pyval \<Rightarrow> bool" where
  "is_dict (PDict d) = True"
| "is_dict _ = False"

text \<open>\<open>x.get(k)\<close>: the value or \<open>None\<close>, an \<open>AttributeError\<close> on anything but a dictionary.\<close>

fun py_get :: "pyval \<Rightarrow> string \<Rightarrow> pyval result" where
  "py_get (PDict d) k = Inr (case dget d k of None \<Rightarrow> PNone | Some v \<Rightarrow> v)"
| "py_get _ k = Inl AttributeError"

text \<open>\<open>x if isinstance(x, dict) else {}\<close>.\<close>

definition as_dict :: "pyval \<Rightarrow> pyval" where
  "as_dict x = (if is_dict x then x else PDict [])"

text \<open>\<open>getattr(x, name, default)\<close> on a payload that may be a \<open>Message\<close>.\<close>

fun msg_context :: "pyval \<Rightarrow> pyval" where
  "msg_context (PMsg t d c) = c"
| "msg_context _ = PDict []"

fun msg_data :: "pyval \<Rightarrow> pyval" where
  "msg_data (PMsg t d c) = d"
| "msg_data _ = PDict []"

function (sequential) py_eq :: "pyval \<Rightarrow> pyval \<Rightarrow> bool" where
  "py_eq (PBool a) (PInt i) = (i = (if a then 1 else 0))"
| "py_eq (PInt i) (PBool a) = (i = (if a then 1 else 0))"
| "py_eq (PList xs) (PList ys) =
     (length xs = length ys \<and> list_all (\<lambda>(x, y). py_eq x y) (zip xs ys))"
| "py_eq (PDict d) (PDict e) =
     (length d = length e \<and>
      list_all (\<lambda>(k, v). case dget e k of None \<Rightarrow> False | Some w \<Rightarrow> py_eq v w) d)"
| "py_eq x y = (x = y)"
  by pat_completeness auto
termination
proof (relation "measure (\<lambda>(x, y). size x)", goal_cases)
  case 1
  show ?case by simp
next
  case (2 xs ys z x y)
  then have "x \<in> set xs" by (auto dest: set_zip_leftD)
  then have "size x \<le> size_list size xs" by (induction xs) auto
  then show ?case by simp
next
  case (3 d e z k v w)
  then have "(k, v) \<in> set d" by auto
  then have "size v \<le> size_list (size_prod (\<lambda>_. 0) size) d" by (induction d) auto
  then show ?case by simp
qed

text \<open>\<open>x in xs\<close> for a list of strings held as a Python value.\<close>

fun str_list :: "pyval \<Rightarrow> string list" where
  "str_list (PList xs) = List.map_filter (\<lambda>x. case x of PStr s \<Rightarrow> Some s | _ \<Rightarrow> None) xs"
| "str_list _ = []"

section \<open>HiveMind message types\<close>

datatype hive_type =
    HANDSHAKE | HELLO | BUS | SHARED_BUS | BROADCAST | PROPAGATE | ESCALATE
  | INTERCOM | BINARY | QUERY | CASCADE | PING | RENDEZVOUS

fun hive_value :: "hive_type \<Rightarrow> string" where
  "hive_value HANDSHAKE = ''shake''"
| "hive_value HELLO = ''hello''"
| "hive_value BUS = ''bus''"
| "hive_value SHARED_BUS = ''shared_bus''"
| "hive_value BROADCAST = ''broadcast''"
| "hive_value PROPAGATE = ''propagate''"
| "hive_value ESCALATE = ''escalate''"
| "hive_value INTERCOM = ''intercom''"
| "hive_value BINARY = ''bin''"
| "hive_value QUERY = ''query''"
| "hive_value CASCADE = ''cascade''"
| "hive_value PING = ''ping''"
| "hive_value RENDEZVOUS = ''rendezvous''"

definition hive_types :: "hive_type list" where
  "hive_types = [HANDSHAKE, HELLO, BUS, SHARED_BUS, BROADCAST, PROPAGATE, ESCALATE,
     INTERCOM, BINARY, QUERY, CASCADE, PING, RENDEZVOUS]"

lemma hive_types_complete: "t \<in> set hive_types"
  by (cases t) (simp_all add: hive_types_def)

text \<open>The message types are an enumeration, so quantifiers over them compute.\<close>

instantiation hive_type :: enum
begin

definition enum_hive_type :: "hive_type list" where
  "enum_hive_type = hive_types"

definition enum_all_hive_type :: "(hive_type \<Rightarrow> bool) \<Rightarrow> bool" where
  "enum_all_hive_type P = list_all P hive_types"

definition enum_ex_hive_type :: "(hive_type \<Rightarrow> bool) \<Rightarrow> bool" where
  "enum_ex_hive_type P = list_ex P hive_types"

instance
proof
  show "(UNIV :: hive_type set) = set enum_class.enum"
    using hive_types_complete by (auto simp: enum_hive_type_def)
  show "distinct (enum_class.enum :: hive_type list)"
    by (simp add: enum_hive_type_def hive_types_def)
  show "enum_class.enum_all P \<longleftrightarrow> Ball UNIV P" for P :: "hive_type \<Rightarrow> bool"
    using hive_types_complete by (auto simp: enum_all_hive_type_def list_all_iff)
  show "enum_class.enum_ex P \<longleftrightarrow> Bex UNIV P" for P :: "hive_type \<Rightarrow> bool"
    using hive_types_complete by (auto simp: enum_ex_hive_type_def list_ex_iff)
qed

end

text \<open>No two message types share a wire name.\<close>

lemma hive_value_inj: "hive_value s = hive_value t \<longleftrightarrow> s = t"
  by (cases s; cases t) simp_all

lemma py_get_dict: "is_dict x \<Longrightarrow> \<exists>v. py_get x k = Inr v"
  by (cases x) auto

lemma is_dict_as_dict [simp]: "is_dict (as_dict x)"
  by (simp add: as_dict_def)

lemma py_eq_str [simp]: "py_eq (PStr a) y \<longleftrightarrow> y = PStr a"
  by (cases y) auto

lemma py_eq_none [simp]: "py_eq PNone y \<longleftrightarrow> y = PNone"
  by (cases y) auto

end
