(* ===== verification/Message_Recorder.thy ===== *)
theory Message_Recorder
  imports Py_Value
begin

text \<open>
  The message recorder, \<open>MessageRecorder\<close> of \<open>hivescope/recorder.py\<close>: the records in the
  order they were appended, and for each message type the events of the threads that wait
  for it. Every method that touches \<open>records\<close> or \<open>_waiters\<close> does so under one lock, so each
  locked region is one atomic function here. Time is an integer count of clock ticks.

  The second half is \<open>wait_for\<close> with its interleavings: any number of waiting calls and
  recording threads, one rule per atomic region of the source.
\<close>

section \<open>Records and lookups\<close>

record recorded_message =
  direction :: string
  msg_type :: string
  payload :: pyval
  peer :: string
  timestamp :: int

type_synonym records = "recorded_message list"

definition mk_record :: "string \<Rightarrow> string \<Rightarrow> pyval \<Rightarrow> string \<Rightarrow> int \<Rightarrow> recorded_message" where
  "mk_record d mt p pr ts =
     \<lparr>direction = d, msg_type = mt, payload = p, peer = pr, timestamp = ts\<rparr>"

text \<open>The filter of \<open>_find_all\<close>; \<open>None\<close> for the direction accepts every direction.\<close>

definition rec_matches :: "string \<Rightarrow> string option \<Rightarrow> recorded_message \<Rightarrow> bool" where
  "rec_matches mt dir r \<longleftrightarrow> msg_type r = mt \<and> (dir = None \<or> dir = Some (direction r))"

definition find_all :: "string \<Rightarrow> string option \<Rightarrow> records \<Rightarrow> records" where
  "find_all mt dir rs = filter (rec_matches mt dir) rs"

definition find_last :: "string \<Rightarrow> string option \<Rightarrow> records \<Rightarrow> recorded_message option" where
  "find_last mt dir rs = last_opt (find_all mt dir rs)"

definition assert_received :: "string \<Rightarrow> nat \<Rightarrow> string option \<Rightarrow> records \<Rightarrow> unit result" where
  "assert_received mt n dir rs = require (length (find_all mt dir rs) = n)"

definition assert_not_received :: "string \<Rightarrow> string option \<Rightarrow> records \<Rightarrow> unit result" where
  "assert_not_received mt dir rs = require (find_all mt dir rs = [])"

definition received :: "string \<Rightarrow> string option \<Rightarrow> records \<Rightarrow> records" where
  "received mt dir rs = find_all mt dir rs"

lemma find_all_set [simp]: "r \<in> set (find_all mt dir rs) \<longleftrightarrow> r \<in> set rs \<and> rec_matches mt dir r"
  by (auto simp: find_all_def)

lemma find_all_append [simp]: "find_all mt dir (rs @ qs) = find_all mt dir rs @ find_all mt dir qs"
  by (simp add: find_all_def)

lemma find_last_Some:
  "find_last mt dir rs = Some r \<Longrightarrow> r \<in> set rs \<and> rec_matches mt dir r"
  unfolding find_last_def by (drule last_opt_in) simp

lemma find_last_None [simp]:
  "find_last mt dir rs = None \<longleftrightarrow> (\<forall>r \<in> set rs. \<not> rec_matches mt dir r)"
  by (auto simp: find_last_def find_all_def filter_empty_conv)

text \<open>The record that is found is the newest match: no match follows it.\<close>

lemma find_last_newest:
  assumes "find_last mt dir rs = Some r"
  shows "\<exists>as bs. rs = as @ r # bs \<and> (\<forall>q \<in> set bs. \<not> rec_matches mt dir q)"
  using assms
proof (induction rs)
  case Nil
  then show ?case by (simp add: find_last_def find_all_def last_opt_def)
next
  case (Cons q rs)
  show ?case
  proof (cases "find_last mt dir rs")
    case None
    with Cons.prems have "r = q"
      by (auto simp: find_last_def find_all_def last_opt_def split: if_splits)
    with None show ?thesis by (intro exI [of _ "[]"] exI [of _ rs]) simp
  next
    case (Some x)
    with Cons.prems have "find_last mt dir rs = Some r"
      by (auto simp: find_last_def find_all_def last_opt_def split: if_splits)
    then obtain as bs where "rs = as @ r # bs" "\<forall>q \<in> set bs. \<not> rec_matches mt dir q"
      using Cons.IH by blast
    then show ?thesis by (intro exI [of _ "q # as"] exI [of _ bs]) simp
  qed
qed

section \<open>The recorder with its waiting calls\<close>

text \<open>
  A call of \<open>wait_for\<close> creates its own \<open>threading.Event\<close>; the call's number names both.
  Its program counter says which atomic region comes next:

  \<^item> \<open>Registered\<close>: the event is in \<open>_waiters\<close>; the first lookup is next;
  \<^item> \<open>SetDeadline\<close>: that lookup found nothing, \<open>deadline\<close> is computed next;
  \<^item> \<open>AtTop dl\<close>: top of the loop, about to compute \<open>remaining\<close>;
  \<^item> \<open>Blocked dl\<close>: inside \<open>ev.wait(timeout=remaining)\<close>;
  \<^item> \<open>Woken dl\<close>: the wait returned, the second lookup is next;
  \<^item> \<open>NotFound dl\<close>: the lookup found nothing, \<open>ev.is_set()\<close> is next;
  \<^item> \<open>ClearNext dl\<close>: the event was set, \<open>ev.clear()\<close> is next;
  \<^item> \<open>Leaving res\<close>: the \<open>finally\<close> block is next; \<open>Returned res\<close>: the call is over.
\<close>

datatype wait_pc =
    NotCalled
  | Registered
  | SetDeadline
  | AtTop int
  | Blocked int
  | Woken int
  | NotFound int
  | ClearNext int
  | Leaving "recorded_message option"
  | Returned "recorded_message option"

record wait_call =
  w_type :: string
  w_dir :: "string option"
  w_timeout :: int
  w_pc :: wait_pc

record recorder =
  records :: records
  waiters :: "(string, nat list) pydict"
  ev_set :: "nat \<Rightarrow> bool"
  calls :: "nat \<Rightarrow> wait_call"
  clock :: int

definition waiting_on :: "recorder \<Rightarrow> string \<Rightarrow> nat list" where
  "waiting_on s mt = (case dget (waiters s) mt of None \<Rightarrow> [] | Some evs \<Rightarrow> evs)"

definition set_pc :: "nat \<Rightarrow> wait_pc \<Rightarrow> recorder \<Rightarrow> recorder" where
  "set_pc i pc s = s\<lparr>calls := (calls s)(i := (calls s i)\<lparr>w_pc := pc\<rparr>)\<rparr>"

text \<open>\<open>record\<close>: append, then set the event of every call that waits for this type.\<close>

definition rec_record :: "recorded_message \<Rightarrow> recorder \<Rightarrow> recorder" where
  "rec_record r s = s\<lparr>records := records s @ [r],
     ev_set := (\<lambda>e. e \<in> set (waiting_on s (msg_type r)) \<or> ev_set s e)\<rparr>"

definition rec_clear :: "recorder \<Rightarrow> recorder" where
  "rec_clear s = s\<lparr>records := []\<rparr>"

text \<open>\<open>_waiters[msg_type].append(ev)\<close> on the \<open>defaultdict\<close>, with a fresh, unset event.\<close>

definition wf_register :: "nat \<Rightarrow> string \<Rightarrow> string option \<Rightarrow> int \<Rightarrow> recorder \<Rightarrow> recorder" where
  "wf_register i mt dir tmo s = s\<lparr>
     waiters := dset mt (waiting_on s mt @ [i]) (waiters s),
     ev_set := (ev_set s)(i := False),
     calls := (calls s)(i := \<lparr>w_type = mt, w_dir = dir, w_timeout = tmo, w_pc = Registered\<rparr>)\<rparr>"

definition wf_lookup :: "nat \<Rightarrow> recorder \<Rightarrow> recorded_message option" where
  "wf_lookup i s = find_last (w_type (calls s i)) (w_dir (calls s i)) (records s)"

text \<open>The \<open>finally\<close> block: drop the event if it is listed.\<close>

definition wf_unregister :: "nat \<Rightarrow> recorder \<Rightarrow> recorder" where
  "wf_unregister i s =
     (let mt = w_type (calls s i) in
      case dget (waiters s) mt of
        None \<Rightarrow> s
      | Some evs \<Rightarrow> (if i \<in> set evs then s\<lparr>waiters := dset mt (remove1 i evs) (waiters s)\<rparr> else s))"

text \<open>One atomic region of call \<open>i\<close>; \<open>None\<close> when the call cannot move (it is blocked with
  its event unset and time left, or it is not running).\<close>

definition wf_step :: "nat \<Rightarrow> recorder \<Rightarrow> recorder option" where
  "wf_step i s =
     (case w_pc (calls s i) of
        NotCalled \<Rightarrow> None
      | Registered \<Rightarrow>
          (case wf_lookup i s of
             Some r \<Rightarrow> Some (set_pc i (Leaving (Some r)) s)
           | None \<Rightarrow> Some (set_pc i SetDeadline s))
      | SetDeadline \<Rightarrow> Some (set_pc i (AtTop (clock s + w_timeout (calls s i))) s)
      | AtTop dl \<Rightarrow>
          (if dl - clock s \<le> 0 then Some (set_pc i (Leaving None) s)
           else Some (set_pc i (Blocked dl) s))
      | Blocked dl \<Rightarrow>
          (if ev_set s i \<or> dl \<le> clock s then Some (set_pc i (Woken dl) s) else None)
      | Woken dl \<Rightarrow>
          (case wf_lookup i s of
             Some r \<Rightarrow> Some (set_pc i (Leaving (Some r)) s)
           | None \<Rightarrow> Some (set_pc i (NotFound dl) s))
      | NotFound dl \<Rightarrow>
          (if \<not> ev_set s i then Some (set_pc i (Leaving None) s)
           else Some (set_pc i (ClearNext dl) s))
      | ClearNext dl \<Rightarrow> Some (set_pc i (AtTop dl) (s\<lparr>ev_set := (ev_set s)(i := False)\<rparr>))
      | Leaving res \<Rightarrow> Some (set_pc i (Returned res) (wf_unregister i s))
      | Returned res \<Rightarrow> None)"

text \<open>
  The system: recording threads append at any moment (the entry was stamped before the lock
  was taken, so its timestamp is not later than the clock), calls start and move, time passes.
  \<open>clear\<close> is a separate relation, since a test that clears the records while another thread
  waits asks for them to be lost.
\<close>

inductive rec_step :: "recorder \<Rightarrow> recorder \<Rightarrow> bool" where
  rs_record: "timestamp r \<le> clock s \<Longrightarrow> rec_step s (rec_record r s)"
| rs_call: "w_pc (calls s i) = NotCalled \<Longrightarrow> rec_step s (wf_register i mt dir tmo s)"
| rs_wait: "wf_step i s = Some t \<Longrightarrow> rec_step s t"
| rs_tick: "0 \<le> d \<Longrightarrow> rec_step s (s\<lparr>clock := clock s + d\<rparr>)"

definition new_recorder :: recorder where
  "new_recorder = \<lparr>records = [], waiters = [], ev_set = (\<lambda>_. False),
     calls = (\<lambda>_. \<lparr>w_type = [], w_dir = None, w_timeout = 0, w_pc = NotCalled\<rparr>), clock = 0\<rparr>"

section \<open>The invariant of the waiting calls\<close>

fun active :: "wait_pc \<Rightarrow> bool" where
  "active NotCalled = False"
| "active (Returned res) = False"
| "active _ = True"

definition found_by :: "recorder \<Rightarrow> nat \<Rightarrow> bool" where
  "found_by s i \<longleftrightarrow>
     (\<exists>r \<in> set (records s). rec_matches (w_type (calls s i)) (w_dir (calls s i)) r)"

text \<open>
  What holds at each program counter of an undirected call: \<open>m\<close> says that a match is
  recorded, \<open>e\<close> that the event is set, \<open>now\<close> is the clock.
\<close>

fun pc_ok :: "bool \<Rightarrow> bool \<Rightarrow> int \<Rightarrow> wait_pc \<Rightarrow> bool" where
  "pc_ok m e now SetDeadline = (m \<longrightarrow> e)"
| "pc_ok m e now (AtTop dl) = (m \<longrightarrow> e \<or> dl \<le> now)"
| "pc_ok m e now (Blocked dl) = (m \<longrightarrow> e \<or> dl \<le> now)"
| "pc_ok m e now (Woken dl) = (e \<or> dl \<le> now)"
| "pc_ok m e now (NotFound dl) = (dl \<le> now)"
| "pc_ok m e now (ClearNext dl) = (dl \<le> now)"
| "pc_ok m e now _ = True"

fun result_ok :: "string \<Rightarrow> string option \<Rightarrow> records \<Rightarrow> wait_pc \<Rightarrow> bool" where
  "result_ok mt dir rs (Leaving (Some r)) = (r \<in> set rs \<and> rec_matches mt dir r)"
| "result_ok mt dir rs (Returned (Some r)) = (r \<in> set rs \<and> rec_matches mt dir r)"
| "result_ok mt dir rs _ = True"

definition call_inv :: "recorder \<Rightarrow> nat \<Rightarrow> bool" where
  "call_inv s i \<longleftrightarrow>
     (\<forall>mt. i \<in> set (waiting_on s mt) \<longleftrightarrow> active (w_pc (calls s i)) \<and> w_type (calls s i) = mt)
   \<and> result_ok (w_type (calls s i)) (w_dir (calls s i)) (records s) (w_pc (calls s i))
   \<and> (active (w_pc (calls s i)) \<longrightarrow> ev_set s i \<longrightarrow>
        (\<exists>r \<in> set (records s). msg_type r = w_type (calls s i)))
   \<and> (w_dir (calls s i) = None \<longrightarrow> pc_ok (found_by s i) (ev_set s i) (clock s) (w_pc (calls s i)))"

definition rec_inv :: "recorder \<Rightarrow> bool" where
  "rec_inv s \<longleftrightarrow> (\<forall>mt. distinct (waiting_on s mt)) \<and> (\<forall>i. call_inv s i)"

named_theorems wait_simps "unfolding of the recorder's atomic regions"

lemma set_pc_sel [wait_simps]:
  "records (set_pc i pc s) = records s" "waiters (set_pc i pc s) = waiters s"
  "ev_set (set_pc i pc s) = ev_set s" "clock (set_pc i pc s) = clock s"
  "waiting_on (set_pc i pc s) mt = waiting_on s mt"
  "calls (set_pc i pc s) j = (if j = i then (calls s i)\<lparr>w_pc := pc\<rparr> else calls s j)"
  by (simp_all add: set_pc_def waiting_on_def)

lemma found_by_set_pc [wait_simps]: "found_by (set_pc i pc s) j = found_by s j"
  by (simp add: found_by_def set_pc_def)

lemma waiting_on_waiters [wait_simps]:
  "waiting_on (s\<lparr>waiters := dset mt evs (waiters s)\<rparr>) mt' = (if mt' = mt then evs else waiting_on s mt')"
  by (simp add: waiting_on_def dict_simps)

lemma wf_lookup_None: "wf_lookup i s = None \<longleftrightarrow> \<not> found_by s i"
  by (auto simp: wf_lookup_def found_by_def)

lemma wf_lookup_Some:
  "wf_lookup i s = Some r \<Longrightarrow>
   r \<in> set (records s) \<and> rec_matches (w_type (calls s i)) (w_dir (calls s i)) r"
  unfolding wf_lookup_def by (rule find_last_Some)

lemma undirected_match [simp]: "rec_matches mt None r \<longleftrightarrow> msg_type r = mt"
  by (simp add: rec_matches_def)

lemma result_ok_mono:
  "result_ok mt dir rs pc \<Longrightarrow> set rs \<subseteq> set rs' \<Longrightarrow> result_ok mt dir rs' pc"
  by (cases "(mt, dir, rs, pc)" rule: result_ok.cases) auto

lemma pc_ok_tick: "pc_ok m e now pc \<Longrightarrow> now \<le> now' \<Longrightarrow> pc_ok m e now' pc"
  by (cases pc) auto

lemma pc_ok_event: "pc_ok m e now pc \<Longrightarrow> pc_ok m' True now pc"
  by (cases pc) auto

lemma pc_ok_nomatch: "pc_ok m e now pc \<Longrightarrow> (m' \<Longrightarrow> m) \<Longrightarrow> pc_ok m' e now pc"
  by (cases pc) auto

text \<open>Recording, one call at a time.\<close>

lemma call_inv_record:
  assumes "call_inv s i"
  shows "call_inv (rec_record r s) i"
proof -
  let ?t = "rec_record r s"
  have ev: "ev_set ?t i = (i \<in> set (waiting_on s (msg_type r)) \<or> ev_set s i)"
    and wt: "\<And>mt. waiting_on ?t mt = waiting_on s mt"
    by (simp_all add: rec_record_def waiting_on_def)
  have on: "i \<in> set (waiting_on s (msg_type r)) \<longleftrightarrow>
      active (w_pc (calls s i)) \<and> w_type (calls s i) = msg_type r"
    using assms by (simp add: call_inv_def)
  have "pc_ok (found_by ?t i) (ev_set ?t i) (clock s) (w_pc (calls s i))"
    if dir: "w_dir (calls s i) = None"
  proof (cases "active (w_pc (calls s i)) \<and> w_type (calls s i) = msg_type r")
    case True
    with ev on have "ev_set ?t i" by simp
    with assms dir show ?thesis by (auto simp: call_inv_def intro: pc_ok_event)
  next
    case False
    show ?thesis
    proof (cases "active (w_pc (calls s i))")
      case True
      with False dir have "found_by ?t i = found_by s i"
        by (auto simp: found_by_def rec_record_def)
      with False True ev on assms dir show ?thesis by (simp add: call_inv_def)
    next
      case inactive: False
      then show ?thesis by (cases "w_pc (calls s i)") auto
    qed
  qed
  moreover have "result_ok (w_type (calls s i)) (w_dir (calls s i)) (records ?t) (w_pc (calls s i))"
    using assms by (auto simp: call_inv_def rec_record_def intro: result_ok_mono)
  ultimately show ?thesis
    using assms ev wt on by (auto simp: call_inv_def rec_record_def)
qed

text \<open>A call's own region does not disturb the other calls.\<close>

lemma call_inv_frame:
  assumes "call_inv s j" and "calls t j = calls s j" and "records t = records s"
    and "ev_set t j = ev_set s j" and "clock t = clock s"
    and "\<And>mt. j \<in> set (waiting_on t mt) \<longleftrightarrow> j \<in> set (waiting_on s mt)"
  shows "call_inv t j"
  using assms by (simp add: call_inv_def found_by_def)

lemma waiting_on_unregister:
  assumes "\<And>mt. distinct (waiting_on s mt)"
  shows "j \<in> set (waiting_on (wf_unregister i s) mt) \<longleftrightarrow>
    j \<in> set (waiting_on s mt) \<and> \<not> (j = i \<and> mt = w_type (calls s i))"
  and "distinct (waiting_on (wf_unregister i s) mt)"
  using assms [of mt] assms [of "w_type (calls s i)"]
  by (auto simp: wf_unregister_def Let_def waiting_on_def dict_simps split: option.splits)

lemma wf_unregister_sel [wait_simps]:
  "records (wf_unregister i s) = records s" "ev_set (wf_unregister i s) = ev_set s"
  "clock (wf_unregister i s) = clock s" "calls (wf_unregister i s) = calls s"
  "found_by (wf_unregister i s) j = found_by s j"
  by (simp_all add: wf_unregister_def Let_def found_by_def split: option.splits)

lemma ev_update_sel [wait_simps]:
  "waiting_on (s\<lparr>ev_set := e\<rparr>) mt = waiting_on s mt" "found_by (s\<lparr>ev_set := e\<rparr>) j = found_by s j"
  by (simp_all add: waiting_on_def found_by_def)

lemma call_inv_set_pc:
  assumes "call_inv s i" and "active (w_pc (calls s i))" and "active pc"
    and "result_ok (w_type (calls s i)) (w_dir (calls s i)) (records s) pc"
    and "w_dir (calls s i) = None \<Longrightarrow> pc_ok (found_by s i) (ev_set s i) (clock s) pc"
  shows "call_inv (set_pc i pc s) i"
  using assms unfolding call_inv_def wait_simps by simp

text \<open>An undirected call has a match whenever its event is set.\<close>

lemma event_has_match:
  assumes "call_inv s i" and "active (w_pc (calls s i))" and "w_dir (calls s i) = None"
    and "\<not> found_by s i"
  shows "\<not> ev_set s i"
  using assms by (auto simp: call_inv_def found_by_def)

lemma call_inv_pc:
  "call_inv s i \<Longrightarrow> w_dir (calls s i) = None \<Longrightarrow>
   pc_ok (found_by s i) (ev_set s i) (clock s) (w_pc (calls s i))"
  by (simp add: call_inv_def)

lemma call_inv_own:
  assumes step: "wf_step i s = Some t" and inv: "call_inv s i"
    and dist: "\<And>mt. distinct (waiting_on s mt)"
  shows "call_inv t i"
proof (cases "w_pc (calls s i)")
  case Registered
  show ?thesis
  proof (cases "wf_lookup i s")
    case None
    with Registered step have "t = set_pc i SetDeadline s" by (simp add: wf_step_def)
    with None inv Registered show ?thesis
      by (simp add: wf_lookup_None call_inv_set_pc)
  next
    case (Some r)
    with Registered step have "t = set_pc i (Leaving (Some r)) s" by (simp add: wf_step_def)
    with inv Registered wf_lookup_Some [OF Some] show ?thesis by (simp add: call_inv_set_pc)
  qed
next
  case SetDeadline
  with step have "t = set_pc i (AtTop (clock s + w_timeout (calls s i))) s"
    by (simp add: wf_step_def)
  with inv SetDeadline call_inv_pc [OF inv] show ?thesis by (simp add: call_inv_set_pc)
next
  case (AtTop dl)
  with step have "t = set_pc i (Leaving None) s \<or> t = set_pc i (Blocked dl) s"
    by (auto simp: wf_step_def split: if_splits)
  with inv AtTop call_inv_pc [OF inv] show ?thesis by (auto simp: call_inv_set_pc)
next
  case (Blocked dl)
  with step have "t = set_pc i (Woken dl) s" and "ev_set s i \<or> dl \<le> clock s"
    by (auto simp: wf_step_def split: if_splits)
  with inv Blocked show ?thesis by (simp add: call_inv_set_pc)
next
  case (Woken dl)
  show ?thesis
  proof (cases "wf_lookup i s")
    case None
    with Woken step have "t = set_pc i (NotFound dl) s" by (simp add: wf_step_def)
    moreover have "w_dir (calls s i) = None \<Longrightarrow> dl \<le> clock s"
      using event_has_match [OF inv] call_inv_pc [OF inv] None Woken
      by (simp add: wf_lookup_None)
    ultimately show ?thesis using inv Woken by (simp add: call_inv_set_pc)
  next
    case (Some r)
    with Woken step have "t = set_pc i (Leaving (Some r)) s" by (simp add: wf_step_def)
    with inv Woken wf_lookup_Some [OF Some] show ?thesis by (simp add: call_inv_set_pc)
  qed
next
  case (NotFound dl)
  with step have "t = set_pc i (Leaving None) s \<or> t = set_pc i (ClearNext dl) s"
    by (auto simp: wf_step_def split: if_splits)
  with inv NotFound call_inv_pc [OF inv] show ?thesis by (auto simp: call_inv_set_pc)
next
  case (ClearNext dl)
  with step have "t = set_pc i (AtTop dl) (s\<lparr>ev_set := (ev_set s)(i := False)\<rparr>)"
    by (simp add: wf_step_def)
  with inv ClearNext call_inv_pc [OF inv] show ?thesis
    by (simp add: call_inv_def wait_simps)
next
  case (Leaving res)
  with step have "t = set_pc i (Returned res) (wf_unregister i s)" by (simp add: wf_step_def)
  with inv Leaving show ?thesis
    by (cases res) (simp_all add: call_inv_def wait_simps waiting_on_unregister [OF dist])
qed (use step in \<open>simp_all add: wf_step_def\<close>)

lemma wf_step_other:
  assumes "wf_step i s = Some t" and "j \<noteq> i" and "\<And>mt. distinct (waiting_on s mt)"
  shows "calls t j = calls s j \<and> ev_set t j = ev_set s j \<and> records t = records s
    \<and> clock t = clock s \<and> (\<forall>mt. j \<in> set (waiting_on t mt) \<longleftrightarrow> j \<in> set (waiting_on s mt))"
  using assms
  by (cases "w_pc (calls s i)")
    (auto simp: wf_step_def wait_simps waiting_on_unregister split: option.splits if_splits)

lemma wf_step_distinct:
  assumes "wf_step i s = Some t" and "\<And>mt. distinct (waiting_on s mt)"
  shows "distinct (waiting_on t mt)"
  using assms
  by (cases "w_pc (calls s i)")
    (auto simp: wf_step_def wait_simps waiting_on_unregister split: option.splits if_splits)

lemma rec_inv_wait:
  assumes "wf_step i s = Some t" and "rec_inv s"
  shows "rec_inv t"
proof -
  have dist: "\<And>mt. distinct (waiting_on s mt)" and inv: "\<And>j. call_inv s j"
    using assms(2) by (auto simp: rec_inv_def)
  have "call_inv t j" for j
  proof (cases "j = i")
    case True
    then show ?thesis using call_inv_own [OF assms(1) inv dist] by simp
  next
    case False
    then show ?thesis
      using wf_step_other [OF assms(1) False dist] inv [of j] by (blast intro: call_inv_frame)
  qed
  then show ?thesis using wf_step_distinct [OF assms(1) dist] by (simp add: rec_inv_def)
qed

lemma rec_inv_record: "rec_inv s \<Longrightarrow> rec_inv (rec_record r s)"
  by (simp add: rec_inv_def call_inv_record) (simp add: rec_record_def waiting_on_def)

lemma rec_inv_tick:
  assumes "rec_inv s" and "0 \<le> d"
  shows "rec_inv (s\<lparr>clock := clock s + d\<rparr>)"
proof -
  have "waiting_on (s\<lparr>clock := c\<rparr>) mt = waiting_on s mt"
    and "found_by (s\<lparr>clock := c\<rparr>) i = found_by s i" for c mt i
    by (simp_all add: waiting_on_def found_by_def)
  with assms show ?thesis
    by (simp add: rec_inv_def call_inv_def) (meson pc_ok_tick le_add_same_cancel1)
qed

lemma rec_inv_call:
  assumes "w_pc (calls s i) = NotCalled" and "rec_inv s"
  shows "rec_inv (wf_register i mt dir tmo s)"
proof -
  let ?t = "wf_register i mt dir tmo s"
  have new: "i \<notin> set (waiting_on s mt')" for mt'
    using assms by (simp add: rec_inv_def call_inv_def)
  have wt: "waiting_on ?t mt' = (if mt' = mt then waiting_on s mt @ [i] else waiting_on s mt')" for mt'
    by (simp add: wf_register_def waiting_on_def dict_simps)
  have "call_inv ?t j" for j
  proof (cases "j = i")
    case True
    then show ?thesis using new by (auto simp: call_inv_def wt) (simp_all add: wf_register_def)
  next
    case False
    then show ?thesis
      using assms(2) wt by (rule_tac call_inv_frame [of s]) (auto simp: rec_inv_def wf_register_def)
  qed
  with assms(2) new show ?thesis by (auto simp: rec_inv_def wt)
qed

interpretation wf: kept_invariant "\<lambda>s. s = new_recorder" rec_step rec_inv
proof unfold_locales
  show "s = new_recorder \<Longrightarrow> rec_inv s" for s
    by (simp add: rec_inv_def call_inv_def new_recorder_def waiting_on_def dict_simps)
  show "rec_step s t \<Longrightarrow> rec_inv s \<Longrightarrow> rec_inv t" for s t
  proof (induction rule: rec_step.induct)
    case (rs_wait i s t)
    from rs_wait.hyps rs_wait.prems show ?case by (rule rec_inv_wait)
  qed (blast intro: rec_inv_record, blast intro: rec_inv_call, blast intro: rec_inv_tick)
qed

section \<open>Calls whose deadline has passed\<close>

fun overdue :: "int \<Rightarrow> wait_pc \<Rightarrow> bool" where
  "overdue now (AtTop dl) = (dl \<le> now)"
| "overdue now (Blocked dl) = (dl \<le> now)"
| "overdue now (Woken dl) = (dl \<le> now)"
| "overdue now (NotFound dl) = (dl \<le> now)"
| "overdue now (ClearNext dl) = (dl \<le> now)"
| "overdue now (Leaving res) = True"
| "overdue now (Returned res) = True"
| "overdue now _ = False"

fun own_left :: "wait_pc \<Rightarrow> nat" where
  "own_left (Blocked dl) = 6"
| "own_left (Woken dl) = 5"
| "own_left (NotFound dl) = 4"
| "own_left (ClearNext dl) = 3"
| "own_left (AtTop dl) = 2"
| "own_left (Leaving res) = 1"
| "own_left _ = 0"

text \<open>Runs that count the regions call \<open>i\<close> executes, with anything else in between.\<close>

inductive call_run :: "nat \<Rightarrow> nat \<Rightarrow> recorder \<Rightarrow> recorder \<Rightarrow> bool" for i where
  cr_start: "call_run i 0 s s"
| cr_own: "call_run i n s t \<Longrightarrow> wf_step i t = Some u \<Longrightarrow> call_run i (Suc n) s u"
| cr_other: "call_run i n s t \<Longrightarrow> rec_step t u \<Longrightarrow> calls u i = calls t i \<Longrightarrow> call_run i n s u"

lemma wf_step_clock: "wf_step i s = Some t \<Longrightarrow> clock t = clock s"
  by (cases "w_pc (calls s i)") (auto simp: wf_step_def wait_simps split: option.splits if_splits)

lemma rec_step_clock: "rec_step s t \<Longrightarrow> clock s \<le> clock t"
  by (induction rule: rec_step.induct)
    (simp_all add: rec_record_def wf_register_def wf_step_clock)

lemma overdue_later: "overdue now pc \<Longrightarrow> now \<le> now' \<Longrightarrow> overdue now' pc"
  by (cases pc) auto

lemma overdue_own:
  assumes "overdue (clock s) (w_pc (calls s i))" and "wf_step i s = Some t"
  shows "overdue (clock t) (w_pc (calls t i))
    \<and> own_left (w_pc (calls t i)) < own_left (w_pc (calls s i))"
  using assms
  by (cases "w_pc (calls s i)") (auto simp: wf_step_def wait_simps split: option.splits if_splits)

lemma overdue_moves:
  "overdue (clock s) (w_pc (calls s i)) \<Longrightarrow> wf_step i s = None \<Longrightarrow>
   \<exists>res. w_pc (calls s i) = Returned res"
  by (cases "w_pc (calls s i)") (auto simp: wf_step_def split: option.splits if_splits)

lemma call_run_overdue:
  "call_run i n s t \<Longrightarrow> overdue (clock s) (w_pc (calls s i)) \<Longrightarrow>
   overdue (clock t) (w_pc (calls t i)) \<and> n + own_left (w_pc (calls t i)) \<le> own_left (w_pc (calls s i))"
proof (induction rule: call_run.induct)
  case (cr_own n s t u)
  then show ?case using overdue_own [of t i u] by fastforce
next
  case (cr_other n s t u)
  then show ?case using rec_step_clock [of t u] by (auto intro: overdue_later)
qed simp

lemma own_left_bound: "own_left pc \<le> 6"
  by (cases pc) auto

section \<open>Properties\<close>

definition example_record :: "string \<Rightarrow> int \<Rightarrow> recorded_message" where
  "example_record d ts = mk_record d ''bus'' PNone ''p'' ts"

lemmas recorder_eval = new_recorder_def wf_register_def rec_record_def waiting_on_def set_pc_def
  wf_step_def wf_lookup_def find_last_def find_all_def rec_matches_def last_opt_def
  example_record_def mk_record_def dget_def dset_def wf_unregister_def Let_def





text \<open>The interleaving that loses a wake-up when a direction is asked for: a record of the
  type in the other direction wakes the call, its lookup finds nothing, and the wanted record
  arrives after that lookup and before \<open>ev.clear()\<close>.\<close>

definition race_before_clear :: recorder where
  "race_before_clear = rec_record (example_record ''in'' 0)
     (set_pc 0 (ClearNext 10) (set_pc 0 (NotFound 10) (set_pc 0 (Woken 10)
       (rec_record (example_record ''out'' 0) (set_pc 0 (Blocked 10) (set_pc 0 (AtTop 10)
         (set_pc 0 SetDeadline (wf_register 0 ''bus'' (Some ''in'') 10 new_recorder))))))))"

definition race_cleared :: "int \<Rightarrow> recorder" where
  "race_cleared d = (let s = race_before_clear\<lparr>clock := clock race_before_clear + d\<rparr>
     in set_pc 0 (AtTop 10) (s\<lparr>ev_set := (ev_set s)(0 := False)\<rparr>))"

lemma race_before_clear_reachable: "reaches rec_step new_recorder race_before_clear"
proof -
  let ?s1 = "wf_register 0 ''bus'' (Some ''in'') 10 new_recorder"
  let ?s4 = "set_pc 0 (Blocked 10) (set_pc 0 (AtTop 10) (set_pc 0 SetDeadline ?s1))"
  let ?s5 = "rec_record (example_record ''out'' 0) ?s4"
  let ?s8 = "set_pc 0 (ClearNext 10) (set_pc 0 (NotFound 10) (set_pc 0 (Woken 10) ?s5))"
  have "rec_step new_recorder ?s1" by (rule rs_call) (simp add: recorder_eval)
  then have "reaches rec_step new_recorder ?s1" by (rule reaches_one)
  then have "reaches rec_step new_recorder (set_pc 0 SetDeadline ?s1)"
    by (rule reaches_step) (rule rs_wait [of 0], simp add: recorder_eval)
  then have "reaches rec_step new_recorder (set_pc 0 (AtTop 10) (set_pc 0 SetDeadline ?s1))"
    by (rule reaches_step) (rule rs_wait [of 0], simp add: recorder_eval)
  then have "reaches rec_step new_recorder ?s4"
    by (rule reaches_step) (rule rs_wait [of 0], simp add: recorder_eval)
  then have "reaches rec_step new_recorder ?s5"
    by (rule reaches_step) (rule rs_record, simp add: recorder_eval)
  then have "reaches rec_step new_recorder (set_pc 0 (Woken 10) ?s5)"
    by (rule reaches_step) (rule rs_wait [of 0], simp add: recorder_eval)
  then have "reaches rec_step new_recorder (set_pc 0 (NotFound 10) (set_pc 0 (Woken 10) ?s5))"
    by (rule reaches_step) (rule rs_wait [of 0], simp add: recorder_eval)
  then have "reaches rec_step new_recorder ?s8"
    by (rule reaches_step) (rule rs_wait [of 0], simp add: recorder_eval)
  then show ?thesis unfolding race_before_clear_def
    by (rule reaches_step) (rule rs_record, simp add: recorder_eval)
qed

lemma race_cleared_reachable:
  assumes "0 \<le> d"
  shows "reaches rec_step new_recorder (race_cleared d)"
proof -
  let ?t = "race_before_clear\<lparr>clock := clock race_before_clear + d\<rparr>"
  from race_before_clear_reachable have "reaches rec_step new_recorder ?t"
    by (rule reaches_step) (rule rs_tick [OF assms])
  moreover have "wf_step 0 ?t = Some (race_cleared d)"
    by (simp add: wf_step_def race_cleared_def race_before_clear_def recorder_eval)
  ultimately show ?thesis by (blast intro: reaches_step rs_wait)
qed

text \<open>With a direction filter a wake-up can be lost: there is a reachable state where the
  call is blocked before its deadline, its event unset, although a record it waits for is
  already there; and there is a run in which the call returns \<open>None\<close> although such a record was
  stamped at time 0, long before the deadline at time 10. The loop clears the event after
  the lookup, so a record that arrives in between is forgotten.\<close>

theorem directed_wait_loses_wakeup:
  "(\<exists>s r. reaches rec_step new_recorder s \<and> w_pc (calls s 0) = Blocked 10 \<and> clock s < 10
      \<and> r \<in> set (records s) \<and> rec_matches (w_type (calls s 0)) (w_dir (calls s 0)) r
      \<and> wf_step 0 s = None)
   \<and> (\<exists>s r. reaches rec_step new_recorder s \<and> w_pc (calls s 0) = Returned None
      \<and> r \<in> set (records s) \<and> rec_matches (w_type (calls s 0)) (w_dir (calls s 0)) r
      \<and> timestamp r = 0)"
proof -
  let ?s = "set_pc 0 (Blocked 10) (race_cleared 0)"
  let ?u = "set_pc 0 (Leaving None) (race_cleared 10)"
  let ?v = "set_pc 0 (Returned None) (wf_unregister 0 ?u)"
  let ?r = "example_record ''in'' 0"
  have "rec_step (race_cleared 0) ?s"
    by (rule rs_wait [of 0]) (simp add: race_cleared_def race_before_clear_def recorder_eval)
  then have s: "reaches rec_step new_recorder ?s"
    using race_cleared_reachable [of 0] by (auto intro: reaches_step)
  have "rec_step (race_cleared 10) ?u"
    by (rule rs_wait [of 0]) (simp add: race_cleared_def race_before_clear_def recorder_eval)
  moreover have "rec_step ?u ?v"
    by (rule rs_wait [of 0]) (simp add: wf_step_def wait_simps)
  ultimately have v: "reaches rec_step new_recorder ?v"
    using race_cleared_reachable [of 10] by (auto intro: reaches_step)
  have "?r \<in> set (records ?s) \<and> rec_matches (w_type (calls ?s 0)) (w_dir (calls ?s 0)) ?r
      \<and> w_pc (calls ?s 0) = Blocked 10 \<and> clock ?s < 10 \<and> wf_step 0 ?s = None"
    by (simp add: race_cleared_def race_before_clear_def recorder_eval)
  moreover have "?r \<in> set (records ?v) \<and> rec_matches (w_type (calls ?v 0)) (w_dir (calls ?v 0)) ?r
      \<and> w_pc (calls ?v 0) = Returned None \<and> timestamp ?r = 0"
    by (simp add: race_cleared_def race_before_clear_def recorder_eval)
  ultimately show ?thesis using s v by blast
qed

text \<open>C7: \<open>wait_for\<close> ends: once its deadline has passed, a call executes at most six more of
  its own regions, whatever other threads do in between, and it can always execute the next
  one until it has returned.\<close>

theorem overdue_wait_returns:
  assumes "overdue (clock s) (w_pc (calls s i))" and "call_run i n s t"
  shows "n \<le> 6 \<and> (wf_step i t = None \<longrightarrow> (\<exists>res. w_pc (calls t i) = Returned res))"
proof -
  have "overdue (clock t) (w_pc (calls t i))" and
    "n + own_left (w_pc (calls t i)) \<le> own_left (w_pc (calls s i))"
    using call_run_overdue [OF assms(2,1)] by auto
  then show ?thesis
    using own_left_bound [of "w_pc (calls s i)"] overdue_moves by fastforce
qed

theorem overdue_wait_returns_witness:
  "\<exists>t. call_run 0 2 (race_cleared 10) t \<and> w_pc (calls t 0) = Returned None"
proof -
  let ?u = "set_pc 0 (Leaving None) (race_cleared 10)"
  let ?v = "set_pc 0 (Returned None) (wf_unregister 0 ?u)"
  have "wf_step 0 (race_cleared 10) = Some ?u"
    by (simp add: race_cleared_def race_before_clear_def recorder_eval)
  then have "call_run 0 (Suc 0) (race_cleared 10) ?u" by (rule cr_own [OF cr_start])
  moreover have "wf_step 0 ?u = Some ?v" by (simp add: wf_step_def wait_simps)
  ultimately have run: "call_run 0 (Suc (Suc 0)) (race_cleared 10) ?v" by (rule cr_own)
  have "overdue (clock (race_cleared 10)) (w_pc (calls (race_cleared 10) 0))"
    by (simp add: race_cleared_def race_before_clear_def recorder_eval)
  from overdue_wait_returns [OF this run]
  have "wf_step 0 ?v = None \<longrightarrow> (\<exists>res. w_pc (calls ?v 0) = Returned res)" by simp
  with run show ?thesis by (auto simp: wait_simps numeral_2_eq_2)
qed

end
