(* ===== verification/Delivery_Pump.thy ===== *)
theory Delivery_Pump
  imports Hive_Prelude
begin

text \<open>
  The non-reentrant delivery pump of \<open>hivescope/node.py\<close>: the thread-local \<open>_pump\<close> (a queue
  and a \<open>draining\<close> flag), \<open>_deliver\<close>, and \<open>_pumped_send\<close>, the wrapper that
  \<open>_instrument_master\<close> puts around a connection's \<open>send\<close>.

  Python callables are programs over a world \<open>'w\<close> (the nodes; any type): they change the
  world, branch on it, raise, call \<open>_deliver\<close> on another callable, call a pumped \<open>send\<close>, or
  run a part while holding a transport's \<open>_send_lock\<close>. \<open>Dyn\<close> lets the rest of a program depend
  on the state it finds, so a program is well-founded but not of bounded length.

  One thread executes them on a stack of frames: a program to run, the drain loop of
  \<open>_deliver\<close> or \<open>_pumped_send\<close> with its \<open>finally\<close> clause, or the release of a lock. An
  exception unwinds the frames. \<open>None\<close> as the next configuration means that the thread is
  done (empty stack) or blocks for ever on a lock it already holds.
\<close>

section \<open>Programs and configurations\<close>

datatype 'w prog =
    Ret
  | Throw py_exn
  | Upd "'w \<Rightarrow> 'w" "'w prog"
  | Dyn "'w \<Rightarrow> 'w prog"
  | Deliver "'w prog" "'w prog"
  | Pumped "'w prog" "'w prog"
  | Locked nat "'w prog" "'w prog"

datatype 'w frame = FProg "'w prog" | FDrain | FUnlock nat

text \<open>\<open>enqueued\<close> and \<open>started\<close> are history variables: every action ever appended to the queue,
  and every action the drain loop has taken from it, in order. No code reads them.\<close>

record 'w pump =
  stack :: "'w frame list"
  queue :: "'w prog list"
  draining :: bool
  held :: "nat set"
  world :: 'w
  raising :: "py_exn option"
  enqueued :: "'w prog list"
  started :: "'w prog list"

definition new_pump :: "'w \<Rightarrow> 'w pump" where
  "new_pump w = \<lparr>stack = [], queue = [], draining = False, held = {}, world = w,
     raising = None, enqueued = [], started = []\<rparr>"

section \<open>Execution\<close>

text \<open>\<open>_deliver(p)\<close>, then continue with \<open>k\<close>: append; return if a drain is running, else set
  the flag and enter the drain loop.\<close>

definition deliver :: "'w prog \<Rightarrow> 'w prog \<Rightarrow> 'w frame list \<Rightarrow> 'w pump \<Rightarrow> 'w pump" where
  "deliver p k fs c =
     (let c1 = c\<lparr>queue := queue c @ [p], enqueued := enqueued c @ [p]\<rparr> in
      if draining c1 then c1\<lparr>stack := FProg k # fs\<rparr>
      else c1\<lparr>draining := True, stack := FDrain # FProg k # fs\<rparr>)"

text \<open>\<open>_pumped_send\<close> around the original send \<open>p\<close>: inline when a drain is running, else with
  a drain rooted around it that empties the queue after the send.\<close>

definition pumped_send :: "'w prog \<Rightarrow> 'w prog \<Rightarrow> 'w frame list \<Rightarrow> 'w pump \<Rightarrow> 'w pump" where
  "pumped_send p k fs c =
     (if draining c then c\<lparr>stack := FProg p # FProg k # fs\<rparr>
      else c\<lparr>draining := True, stack := FProg p # FDrain # FProg k # fs\<rparr>)"

text \<open>One round of \<open>while queue: queue.popleft()()\<close>, or its end and the \<open>finally\<close> clause.\<close>

definition drain_round :: "'w frame list \<Rightarrow> 'w pump \<Rightarrow> 'w pump" where
  "drain_round fs c =
     (case queue c of
        [] \<Rightarrow> c\<lparr>draining := False, stack := fs\<rparr>
      | p # q \<Rightarrow> c\<lparr>queue := q, started := started c @ [p], stack := FProg p # FDrain # fs\<rparr>)"

text \<open>The \<open>finally\<close> clauses and lock releases an exception runs through.\<close>

fun unwind :: "'w frame \<Rightarrow> 'w frame list \<Rightarrow> 'w pump \<Rightarrow> 'w pump" where
  "unwind (FProg p) fs c = c\<lparr>stack := fs\<rparr>"
| "unwind FDrain fs c = c\<lparr>draining := False, stack := fs\<rparr>"
| "unwind (FUnlock l) fs c = c\<lparr>held := held c - {l}, stack := fs\<rparr>"

fun exec :: "'w frame \<Rightarrow> 'w frame list \<Rightarrow> 'w pump \<Rightarrow> 'w pump option" where
  "exec (FProg Ret) fs c = Some (c\<lparr>stack := fs\<rparr>)"
| "exec (FProg (Throw e)) fs c = Some (c\<lparr>raising := Some e, stack := fs\<rparr>)"
| "exec (FProg (Upd f k)) fs c = Some (c\<lparr>world := f (world c), stack := FProg k # fs\<rparr>)"
| "exec (FProg (Dyn f)) fs c = Some (c\<lparr>stack := FProg (f (world c)) # fs\<rparr>)"
| "exec (FProg (Deliver p k)) fs c = Some (deliver p k fs c)"
| "exec (FProg (Pumped p k)) fs c = Some (pumped_send p k fs c)"
| "exec (FProg (Locked l p k)) fs c =
     (if l \<in> held c then None
      else Some (c\<lparr>held := insert l (held c), stack := FProg p # FUnlock l # FProg k # fs\<rparr>))"
| "exec FDrain fs c = Some (drain_round fs c)"
| "exec (FUnlock l) fs c = Some (c\<lparr>held := held c - {l}, stack := fs\<rparr>)"

definition pump_step :: "'w pump \<Rightarrow> 'w pump option" where
  "pump_step c =
     (case stack c of
        [] \<Rightarrow> None
      | f # fs \<Rightarrow> (case raising c of Some e \<Rightarrow> Some (unwind f fs c) | None \<Rightarrow> exec f fs c))"

definition pump_rel :: "'w pump \<Rightarrow> 'w pump \<Rightarrow> bool" where
  "pump_rel c d \<longleftrightarrow> pump_step c = Some d"

fun pump_steps :: "nat \<Rightarrow> 'w pump \<Rightarrow> 'w pump" where
  "pump_steps 0 c = c"
| "pump_steps (Suc n) c = (case pump_step c of None \<Rightarrow> c | Some d \<Rightarrow> pump_steps n d)"

text \<open>A top-level call on an idle thread.\<close>

definition call :: "'w prog \<Rightarrow> 'w pump \<Rightarrow> 'w pump" where
  "call p c = c\<lparr>stack := [FProg p], raising := None\<rparr>"

definition idle :: "'w pump \<Rightarrow> bool" where
  "idle c \<longleftrightarrow> stack c = [] \<and> \<not> draining c \<and> held c = {} \<and> enqueued c = started c @ queue c"

lemmas pump_defs = pump_rel_def pump_step_def deliver_def pumped_send_def drain_round_def Let_def

lemma reaches_steps: "reaches pump_rel c (pump_steps n c)"
proof (induction n arbitrary: c)
  case (Suc n)
  show ?case
  proof (cases "pump_step c")
    case (Some d)
    then have "reaches pump_rel c d" by (intro reaches_one) (simp add: pump_rel_def)
    with Some Suc.IH [of d] show ?thesis by (auto intro: reaches_trans)
  qed auto
qed auto

section \<open>One drain loop at a time, first in first out\<close>

definition drains :: "'w frame list \<Rightarrow> nat" where
  "drains fs = length (filter (\<lambda>f. f = FDrain) fs)"

lemma drains_simps [simp]:
  "drains [] = 0" "drains (FDrain # fs) = Suc (drains fs)"
  "drains (FProg p # fs) = drains fs" "drains (FUnlock l # fs) = drains fs"
  by (simp_all add: drains_def)

lemma drains_0: "drains fs = 0 \<longleftrightarrow> FDrain \<notin> set fs"
  by (induction fs) (auto simp: drains_def)

definition fifo_inv :: "'w pump \<Rightarrow> bool" where
  "fifo_inv c \<longleftrightarrow> drains (stack c) = (if draining c then 1 else 0)
     \<and> enqueued c = started c @ queue c"

lemma fifo_inv_unwind: "fifo_inv c \<Longrightarrow> stack c = f # fs \<Longrightarrow> fifo_inv (unwind f fs c)"
  by (cases f) (auto simp: fifo_inv_def split: if_splits)

lemma fifo_inv_exec:
  assumes "fifo_inv c" and "stack c = f # fs" and "exec f fs c = Some d"
  shows "fifo_inv d"
  using assms
  by (cases "(f, fs, c)" rule: exec.cases)
    (auto simp: fifo_inv_def deliver_def pumped_send_def drain_round_def Let_def
      split: if_splits list.splits)

lemma pump_rel_cases:
  assumes "pump_rel c d"
  obtains f fs e where "stack c = f # fs" "raising c = Some e" "d = unwind f fs c"
  | f fs where "stack c = f # fs" "raising c = None" "exec f fs c = Some d"
  using assms by (auto simp: pump_rel_def pump_step_def split: list.splits option.splits)

interpretation ff: kept_invariant "\<lambda>c. \<exists>p c0. idle c0 \<and> c = call p c0" pump_rel fifo_inv
proof unfold_locales
  show "\<exists>p c0. idle c0 \<and> c = call p c0 \<Longrightarrow> fifo_inv c" for c :: "'a pump"
    by (auto simp: fifo_inv_def call_def idle_def)
  show "pump_rel c d \<Longrightarrow> fifo_inv c \<Longrightarrow> fifo_inv d" for c d :: "'a pump"
    by (elim pump_rel_cases) (auto intro: fifo_inv_unwind fifo_inv_exec)
qed

section \<open>Lock discipline\<close>

text \<open>
  \<open>wire p\<close>: what may run while a transport's \<open>_send_lock\<close> is held. The wire write hands frames
  to the peer's \<open>_receive_raw\<close>, which only calls \<open>_deliver\<close>. \<open>safe p\<close>: every locked part of
  \<open>p\<close>, and of what it delivers, is such a wire write. \<open>rooted p\<close>: \<open>p\<close> takes no lock itself;
  sends happen inside \<open>_deliver\<close> or a pumped \<open>send\<close>, which is where the entry points put them.
\<close>

primrec wire :: "'w prog \<Rightarrow> bool" where
  "wire Ret = True"
| "wire (Throw e) = True"
| "wire (Upd f k) = wire k"
| "wire (Dyn f) = (\<forall>w. wire (f w))"
| "wire (Deliver p k) = wire k"
| "wire (Pumped p k) = False"
| "wire (Locked l p k) = False"

primrec safe :: "'w prog \<Rightarrow> bool" where
  "safe Ret = True"
| "safe (Throw e) = True"
| "safe (Upd f k) = safe k"
| "safe (Dyn f) = (\<forall>w. safe (f w))"
| "safe (Deliver p k) = (safe p \<and> safe k)"
| "safe (Pumped p k) = (safe p \<and> safe k)"
| "safe (Locked l p k) = (wire p \<and> safe p \<and> safe k)"

primrec rooted :: "'w prog \<Rightarrow> bool" where
  "rooted Ret = True"
| "rooted (Throw e) = True"
| "rooted (Upd f k) = rooted k"
| "rooted (Dyn f) = (\<forall>w. rooted (f w))"
| "rooted (Deliver p k) = rooted k"
| "rooted (Pumped p k) = rooted k"
| "rooted (Locked l p k) = False"

text \<open>The shape of the stack: below the drain loop only rooted callers, above it only safe
  programs, and at most one lock, whose holder is a wire write at the top.\<close>

fun below_ok :: "'w frame list \<Rightarrow> bool" where
  "below_ok [] = True"
| "below_ok (FProg p # fs) = (rooted p \<and> safe p \<and> below_ok fs)"
| "below_ok (f # fs) = False"

fun free_ok :: "'w frame list \<Rightarrow> bool" where
  "free_ok [] = False"
| "free_ok (FProg p # fs) = (safe p \<and> free_ok fs)"
| "free_ok (FDrain # fs) = below_ok fs"
| "free_ok (FUnlock l # fs) = False"

fun busy_ok :: "nat \<Rightarrow> 'w frame list \<Rightarrow> bool" where
  "busy_ok l [] = False"
| "busy_ok l (FProg p # fs) = (wire p \<and> safe p \<and> busy_ok l fs)"
| "busy_ok l (FDrain # fs) = False"
| "busy_ok l (FUnlock l' # fs) = (l' = l \<and> free_ok fs)"

definition lock_inv :: "'w pump \<Rightarrow> bool" where
  "lock_inv c \<longleftrightarrow> (\<forall>p \<in> set (queue c). safe p) \<and>
     (if draining c
      then held c = {} \<and> free_ok (stack c) \<or> (\<exists>l. held c = {l} \<and> busy_ok l (stack c))
      else held c = {} \<and> below_ok (stack c))"

lemma lock_inv_unwind:
  assumes "lock_inv c" and "stack c = f # fs"
  shows "lock_inv (unwind f fs c)"
  using assms by (cases f) (auto simp: lock_inv_def split: if_splits)

lemma lock_inv_exec:
  assumes inv: "lock_inv c" and st: "stack c = f # fs" and ex: "exec f fs c = Some d"
  shows "lock_inv d"
proof (cases "draining c")
  case False
  with inv st have "held c = {}" "below_ok (f # fs)" "\<forall>p \<in> set (queue c). safe p"
    by (auto simp: lock_inv_def)
  with False ex show ?thesis
    by (cases "(f, fs, c)" rule: exec.cases)
      (auto simp: lock_inv_def deliver_def pumped_send_def Let_def)
next
  case True
  with inv st have q: "\<forall>p \<in> set (queue c). safe p"
    and alt: "held c = {} \<and> free_ok (f # fs) \<or> (\<exists>l. held c = {l} \<and> busy_ok l (f # fs))"
    by (auto simp: lock_inv_def)
  from alt show ?thesis
  proof
    assume "held c = {} \<and> free_ok (f # fs)"
    with True q ex show ?thesis
      by (cases "(f, fs, c)" rule: exec.cases)
        (auto simp: lock_inv_def deliver_def pumped_send_def drain_round_def Let_def
          split: list.splits)
  next
    assume "\<exists>l. held c = {l} \<and> busy_ok l (f # fs)"
    with True q ex show ?thesis
      by (cases "(f, fs, c)" rule: exec.cases)
        (auto simp: lock_inv_def deliver_def pumped_send_def drain_round_def Let_def
          split: list.splits)
  qed
qed

definition rooted_call :: "'w pump \<Rightarrow> bool" where
  "rooted_call c \<longleftrightarrow> (\<exists>p c0. idle c0 \<and> (\<forall>q \<in> set (queue c0). safe q) \<and> safe p \<and> rooted p
     \<and> c = call p c0)"

interpretation lk: kept_invariant rooted_call pump_rel lock_inv
proof unfold_locales
  show "rooted_call c \<Longrightarrow> lock_inv c" for c :: "'a pump"
    by (auto simp: rooted_call_def lock_inv_def call_def idle_def)
  show "pump_rel c d \<Longrightarrow> lock_inv c \<Longrightarrow> lock_inv d" for c d :: "'a pump"
    by (elim pump_rel_cases) (auto intro: lock_inv_unwind lock_inv_exec)
qed

text \<open>Progress: under the lock discipline the thread never blocks on its own lock.\<close>

lemma lock_inv_progress:
  assumes "lock_inv c" and "stack c \<noteq> []"
  shows "\<exists>d. pump_step c = Some d"
proof -
  obtain f fs where st: "stack c = f # fs" using assms(2) by (cases "stack c") auto
  show ?thesis
  proof (cases "raising c")
    case None
    have "exec f fs c \<noteq> None"
      using assms(1) st
      by (cases "(f, fs, c)" rule: exec.cases) (auto simp: lock_inv_def split: if_splits)
    with None st show ?thesis by (auto simp: pump_step_def)
  qed (simp add: st pump_step_def)
qed

section \<open>Termination\<close>

inductive_set psub :: "('w prog \<times> 'w prog) set" where
  "(k, Upd f k) \<in> psub"
| "(f w, Dyn f) \<in> psub"
| "(p, Deliver p k) \<in> psub" | "(k, Deliver p k) \<in> psub"
| "(p, Pumped p k) \<in> psub" | "(k, Pumped p k) \<in> psub"
| "(p, Locked l p k) \<in> psub" | "(k, Locked l p k) \<in> psub"

inductive_cases psubE: "(q, p) \<in> psub"

lemma wf_psub: "wf (psub :: ('w prog \<times> 'w prog) set)"
proof (rule wfUNIVI)
  fix P :: "'w prog \<Rightarrow> bool" and p
  assume step: "\<forall>x. (\<forall>y. (y, x) \<in> psub \<longrightarrow> P y) \<longrightarrow> P x"
  show "P p"
    by (induction p; rule step [rule_format]; erule psubE; auto)
qed

fun frame_prog :: "'w frame \<Rightarrow> 'w prog list" where
  "frame_prog (FProg p) = [p]"
| "frame_prog _ = []"

definition pending :: "'w pump \<Rightarrow> 'w prog multiset" where
  "pending c = mset (concat (map frame_prog (stack c))) + mset (queue c)"

definition pump_order :: "('w pump \<times> 'w pump) set" where
  "pump_order = inv_image (mult psub <*lex*> less_than)
     (\<lambda>c. (pending c, 2 * length (queue c) + length (stack c)))"

lemma wf_pump_order: "wf pump_order"
  unfolding pump_order_def by (intro wf_inv_image wf_lex_prod wf_mult wf_psub wf_less_than)

lemma mult_replace:
  assumes "\<forall>k \<in># K. (k, p) \<in> psub"
  shows "(M + K, add_mset p M) \<in> mult psub"
proof -
  have "(M + K, M + {#p#}) \<in> mult1 psub"
    unfolding mult1_def using assms by auto
  then show ?thesis by (auto simp: mult_def)
qed

lemma pump_order_by_pending: "(pending d, pending c) \<in> mult psub \<Longrightarrow> (d, c) \<in> pump_order"
  by (simp add: pump_order_def)

lemma pump_order_by_size:
  "pending d = pending c \<Longrightarrow>
   2 * length (queue d) + length (stack d) < 2 * length (queue c) + length (stack c) \<Longrightarrow>
   (d, c) \<in> pump_order"
  by (simp add: pump_order_def)

lemma pump_step_smaller:
  assumes "pump_rel c d"
  shows "(d, c) \<in> pump_order"
  using assms
proof (cases rule: pump_rel_cases)
  case (1 f fs e)
  show ?thesis
  proof (cases f)
    case (FProg p)
    with 1 have "pending c = add_mset p (pending d)" by (simp add: pending_def)
    then show ?thesis using mult_replace [of "{#}" p "pending d"] by (simp add: pump_order_by_pending)
  qed (use 1 in \<open>auto intro: pump_order_by_size simp: pending_def\<close>)
next
  case (2 f fs)
  show ?thesis
  proof (cases f)
    case (FProg p)
    define M where "M = mset (concat (map frame_prog fs)) + mset (queue c)"
    have "\<exists>K. pending d = M + K \<and> (\<forall>k \<in># K. (k, p) \<in> psub)"
      using 2 FProg unfolding M_def
      by (cases p) (auto simp: pending_def deliver_def pumped_send_def Let_def
          intro: psub.intros split: if_splits)
    moreover have "pending c = add_mset p M" using 2 FProg by (simp add: pending_def M_def)
    ultimately have "(pending d, pending c) \<in> mult psub" using mult_replace by fastforce
    then show ?thesis by (rule pump_order_by_pending)
  next
    case FDrain
    with 2 show ?thesis
      by (intro pump_order_by_size)
        (auto simp: pending_def drain_round_def split: list.splits)
  next
    case (FUnlock l)
    with 2 show ?thesis by (intro pump_order_by_size) (auto simp: pending_def)
  qed
qed

lemma pump_stops: "\<exists>n. pump_step (pump_steps n c) = None"
proof (induction c rule: wf_induct [OF wf_pump_order])
  case (1 c)
  show ?case
  proof (cases "pump_step c")
    case None
    then show ?thesis by (intro exI [of _ 0]) simp
  next
    case (Some d)
    then have "(d, c) \<in> pump_order" by (simp add: pump_rel_def pump_step_smaller)
    with 1 obtain n where "pump_step (pump_steps n d) = None" by blast
    with Some show ?thesis by (intro exI [of _ "Suc n"]) simp
  qed
qed

section \<open>What a completed delivery leaves behind\<close>

text \<open>While no exception is on its way, an idle pump has an empty queue.\<close>

definition drained_inv :: "'w pump \<Rightarrow> bool" where
  "drained_inv c \<longleftrightarrow> (raising c = None \<longrightarrow> \<not> draining c \<longrightarrow> queue c = [])"

lemma drained_inv_step: "pump_rel c d \<Longrightarrow> drained_inv c \<Longrightarrow> drained_inv d"
proof (elim pump_rel_cases)
  fix f fs e
  assume "stack c = f # fs" "raising c = Some e" "d = unwind f fs c"
  then show ?thesis by (cases f) (auto simp: drained_inv_def)
next
  fix f fs
  assume "drained_inv c" "stack c = f # fs" "raising c = None" "exec f fs c = Some d"
  then show ?thesis
    by (cases "(f, fs, c)" rule: exec.cases)
      (auto simp: drained_inv_def deliver_def pumped_send_def drain_round_def Let_def
        split: if_splits list.splits)
qed

interpretation dr: kept_invariant drained_inv pump_rel drained_inv
  by unfold_locales (auto intro: drained_inv_step)

text \<open>The histories only grow.\<close>

definition grown :: "'w prog list \<Rightarrow> 'w prog list \<Rightarrow> 'w pump \<Rightarrow> bool" where
  "grown es ss c \<longleftrightarrow> (\<exists>xs. enqueued c = es @ xs) \<and> (\<exists>ys. started c = ss @ ys)"

lemma grown_step: "pump_rel c d \<Longrightarrow> grown es ss c \<Longrightarrow> grown es ss d"
proof (elim pump_rel_cases)
  fix f fs e
  assume "grown es ss c" "stack c = f # fs" "raising c = Some e" "d = unwind f fs c"
  then show ?thesis by (cases f) (auto simp: grown_def)
next
  fix f fs
  assume "grown es ss c" "stack c = f # fs" "raising c = None" "exec f fs c = Some d"
  then show ?thesis
    by (cases "(f, fs, c)" rule: exec.cases)
      (auto simp: grown_def deliver_def pumped_send_def drain_round_def Let_def
        split: if_splits list.splits)
qed

interpretation gr: kept_invariant "grown es ss" pump_rel "grown es ss" for es ss
  by unfold_locales (auto intro: grown_step)

lemma reaches_first:
  assumes "reaches r s t"
  shows "s = t \<or> (\<exists>u. r s u \<and> reaches r u t)"
  using assms by (induction rule: reaches.induct) (auto intro: reaches_step reaches_refl)

lemma started_changes:
  assumes "pump_rel c d" and "started d \<noteq> started c"
  shows "\<exists>fs. stack c = FDrain # fs \<and> raising c = None"
  using assms(1)
proof (cases rule: pump_rel_cases)
  case (1 f fs e)
  with assms(2) show ?thesis by (cases f) auto
next
  case (2 f fs)
  with assms(2) show ?thesis
    by (cases "(f, fs, c)" rule: exec.cases)
      (auto simp: deliver_def pumped_send_def Let_def split: if_splits)
qed

section \<open>Properties\<close>

text \<open>C3: Deliveries on a thread are first in, first out, and none is lost or run twice: at
  every moment of any top-level call on an idle thread, the actions ever enqueued are the
  actions started so far followed by those still in the queue, in the same order.\<close>

theorem deliveries_fifo:
  assumes "idle c0" and "reaches pump_rel (call p c0) c"
  shows "enqueued c = started c @ queue c
    \<and> (\<exists>xs. enqueued c = enqueued c0 @ xs) \<and> (\<exists>ys. started c = started c0 @ ys)"
proof -
  have "fifo_inv c" using assms by (blast intro: ff.inv_reachable)
  moreover have "grown (enqueued c0) (started c0) (call p c0)"
    by (simp add: grown_def call_def)
  then have "grown (enqueued c0) (started c0) c" by (rule gr.inv_run [OF assms(2)])
  ultimately show ?thesis by (simp add: fifo_inv_def grown_def)
qed

theorem deliveries_fifo_witness:
  "started (pump_steps 6 (call (Deliver (Upd Suc Ret) (Deliver (Upd Suc Ret) Ret)) (new_pump 0)))
     @ queue (pump_steps 6 (call (Deliver (Upd Suc Ret) (Deliver (Upd Suc Ret) Ret)) (new_pump 0)))
   = enqueued (pump_steps 6 (call (Deliver (Upd Suc Ret) (Deliver (Upd Suc Ret) Ret)) (new_pump (0::nat))))"
proof -
  have "idle (new_pump (0::nat))" by (simp add: idle_def new_pump_def)
  from deliveries_fifo [OF this reaches_steps] show ?thesis by simp
qed

text \<open>C2: A delivery never runs inside another delivery or inside a send: when the drain loop
  starts a queued action, the drain loop is the top frame, it is the only drain loop of the
  thread, and no transport's send lock is held, provided the top-level call is rooted (takes
  its locks only inside \<open>_deliver\<close> or a pumped send) and wire writes only deliver.\<close>

theorem delivery_starts_outermost:
  assumes "rooted_call c0" and "reaches pump_rel c0 c" and "pump_rel c d"
    and "started d \<noteq> started c"
  shows "(\<exists>fs. stack c = FDrain # fs \<and> FDrain \<notin> set fs) \<and> held c = {}"
proof -
  obtain fs where fs: "stack c = FDrain # fs"
    using started_changes [OF assms(3,4)] by blast
  obtain p c1 where "idle c1" "c0 = call p c1"
    using assms(1) by (auto simp: rooted_call_def)
  with assms(2) have "fifo_inv c" by (blast intro: ff.inv_reachable)
  with fs have "drains fs = 0" by (auto simp: fifo_inv_def split: if_splits)
  moreover have "lock_inv c" using assms(1,2) by (rule lk.inv_reachable)
  then have "held c = {}" using fs by (auto simp: lock_inv_def split: if_splits)
  ultimately show ?thesis using fs by (simp add: drains_0)
qed

theorem delivery_starts_outermost_witness:
  "held (pump_steps 1 (call (Deliver (Pumped (Locked 0 Ret Ret) Ret) Ret) (new_pump ()))) = {}"
proof -
  let ?p = "Deliver (Pumped (Locked 0 Ret Ret) Ret) Ret :: unit prog"
  have r: "rooted_call (call ?p (new_pump ()))"
    unfolding rooted_call_def
    by (rule exI [of _ ?p], rule exI [of _ "new_pump ()"]) (simp add: idle_def new_pump_def)
  have "pump_rel (pump_steps 1 (call ?p (new_pump ()))) (pump_steps 2 (call ?p (new_pump ())))"
    and "started (pump_steps 2 (call ?p (new_pump ()))) \<noteq> started (pump_steps 1 (call ?p (new_pump ())))"
    by (simp_all add: pump_defs call_def new_pump_def numeral_2_eq_2)
  from delivery_starts_outermost [OF r reaches_steps this] show ?thesis by simp
qed

text \<open>C1: Every rooted top-level call ends and frees the thread: after finitely many steps the
  stack is empty (no self-deadlock on a send lock), the \<open>draining\<close> flag is off and no lock is
  held, whether the call returned or raised.\<close>

theorem rooted_call_completes:
  assumes "rooted_call c0"
  shows "\<exists>n. stack (pump_steps n c0) = [] \<and> \<not> draining (pump_steps n c0)
    \<and> held (pump_steps n c0) = {}"
proof -
  obtain n where n: "pump_step (pump_steps n c0) = None" using pump_stops by blast
  have inv: "lock_inv (pump_steps n c0)"
    using assms reaches_steps by (rule lk.inv_reachable)
  with n have st: "stack (pump_steps n c0) = []" using lock_inv_progress by fastforce
  with inv show ?thesis
    by (intro exI [of _ n]) (auto simp: lock_inv_def split: if_splits)
qed

theorem rooted_call_completes_witness:
  "\<exists>n. stack (pump_steps n (call (Pumped (Locked 0 (Deliver (Pumped (Locked 0 Ret Ret) Ret) Ret) Ret) Ret)
     (new_pump ()))) = []"
proof -
  let ?p = "Pumped (Locked 0 (Deliver (Pumped (Locked 0 Ret Ret) Ret) Ret) Ret) Ret :: unit prog"
  have "rooted_call (call ?p (new_pump ()))"
    unfolding rooted_call_def
    by (rule exI [of _ ?p], rule exI [of _ "new_pump ()"]) (simp add: idle_def new_pump_def)
  from rooted_call_completes [OF this] show ?thesis by blast
qed

text \<open>A top-level \<open>_deliver(p)\<close> that returns normally has emptied the queue: everything
  enqueued has been started, first what an earlier call left behind, then \<open>p\<close>, then what was
  enqueued meanwhile.\<close>

theorem deliver_drains_queue:
  assumes "idle c0" and "reaches pump_rel (call (Deliver p Ret) c0) d"
    and "stack d = []" and "raising d = None"
  shows "queue d = [] \<and> \<not> draining d
    \<and> (\<exists>later. started d = started c0 @ queue c0 @ [p] @ later)"
proof -
  let ?c = "call (Deliver p Ret) c0"
  obtain c1 where c1: "pump_rel ?c c1" and run: "reaches pump_rel c1 d"
    using reaches_first [OF assms(2)] assms(3) by (auto simp: call_def)
  have "drained_inv c1" and "grown (started c0 @ queue c0 @ [p]) [] c1"
    using c1 assms(1) by (auto simp: pump_defs call_def idle_def drained_inv_def grown_def)
  with run have "drained_inv d" and "grown (started c0 @ queue c0 @ [p]) [] d"
    by (auto intro: dr.inv_run gr.inv_run)
  moreover have "fifo_inv d" using assms(1,2) by (blast intro: ff.inv_reachable)
  ultimately show ?thesis
    using assms(3,4) by (auto simp: drained_inv_def fifo_inv_def grown_def split: if_splits)
qed

theorem deliver_drains_queue_witness:
  "queue (pump_steps 6 (call (Deliver (Upd Suc Ret) Ret) (new_pump (0::nat)))) = []
   \<and> world (pump_steps 6 (call (Deliver (Upd Suc Ret) Ret) (new_pump (0::nat)))) = 1"
proof -
  let ?d = "pump_steps 6 (call (Deliver (Upd Suc Ret) Ret) (new_pump (0::nat)))"
  have e: "stack ?d = []" "raising ?d = None" "world ?d = 1"
    by (simp_all add: pump_defs call_def new_pump_def eval_nat_numeral)
  have "idle (new_pump (0::nat))" by (simp add: idle_def new_pump_def)
  from deliver_drains_queue [OF this reaches_steps e(1,2)] show ?thesis using e(3) by simp
qed

text \<open>A delivery that raises leaves the rest of the queue behind: the exception reaches the
  caller, the flag is reset, but what the failing action had enqueued stays in the
  thread-local queue, and the next, unrelated \<open>_deliver\<close> runs it before its own action.\<close>

theorem failed_delivery_leaves_queue:
  "let failing = Deliver late (Throw e);
       d = pump_steps 6 (call (Deliver failing Ret) (new_pump w));
       d2 = pump_steps 2 (call (Deliver q Ret) d)
   in idle d \<and> raising d = Some e \<and> queue d = [late]
      \<and> started d2 = [failing, late] \<and> queue d2 = [q]"
  by (simp add: pump_defs call_def new_pump_def idle_def eval_nat_numeral)

text \<open>Why sends must be rooted: a handler that answers on the connection whose send woke it
  blocks for ever on the send lock when the send starts no drain of its own, and the same
  exchange completes, with both sends done, when the send is the pumped one.\<close>

theorem unrooted_send_deadlocks:
  "let reply = Locked l (Upd Suc Ret) Ret;
       send = Locked l (Deliver reply (Upd Suc Ret)) Ret;
       bad = pump_steps 4 (call send (new_pump 0));
       good = pump_steps 20 (call (Pumped send Ret) (new_pump 0))
   in pump_step bad = None \<and> stack bad \<noteq> [] \<and> world bad = 0
      \<and> stack good = [] \<and> held good = {} \<and> world good = (2::nat)"
  by (simp add: pump_defs call_def new_pump_def eval_nat_numeral)

end
