(* ===== verification/Pump_Programs.thy ===== *)
theory Pump_Programs
  imports Delivery_Pump
begin

text \<open>
  Programs of the delivery pump put together: statements in sequence, loops over a list, and
  lemmas that run a program up to the next point where the pump takes part. The actor
  theories state what a method has done when it returns, raises or delivers with them.
\<close>

section \<open>Sequences and loops\<close>

primrec pseq :: "'w prog \<Rightarrow> 'w prog \<Rightarrow> 'w prog" where
  "pseq Ret q = q"
| "pseq (Throw e) q = Throw e"
| "pseq (Upd f k) q = Upd f (pseq k q)"
| "pseq (Dyn f) q = Dyn (\<lambda>w. pseq (f w) q)"
| "pseq (Deliver p k) q = Deliver p (pseq k q)"
| "pseq (Pumped p k) q = Pumped p (pseq k q)"
| "pseq (Locked l p k) q = Locked l p (pseq k q)"

fun pfor :: "'a list \<Rightarrow> ('a \<Rightarrow> 'w prog) \<Rightarrow> 'w prog" where
  "pfor [] f = Ret"
| "pfor (x # xs) f = pseq (f x) (pfor xs f)"

lemma pseq_Ret [simp]: "pseq p Ret = p"
  by (induction p) auto

lemma pseq_assoc: "pseq (pseq p q) r = pseq p (pseq q r)"
  by (induction p) auto

named_theorems prog_ok "programs that keep the lock discipline of the pump"

lemma safe_pseq [prog_ok]: "safe p \<Longrightarrow> safe q \<Longrightarrow> safe (pseq p q)"
  by (induction p) auto

lemma rooted_pseq [prog_ok]: "rooted p \<Longrightarrow> rooted q \<Longrightarrow> rooted (pseq p q)"
  by (induction p) auto

lemma wire_pseq [prog_ok]: "wire p \<Longrightarrow> wire q \<Longrightarrow> wire (pseq p q)"
  by (induction p) auto

lemma safe_pfor [prog_ok]: "(\<And>x. x \<in> set xs \<Longrightarrow> safe (f x)) \<Longrightarrow> safe (pfor xs f)"
  by (induction xs) (auto intro: prog_ok)

lemma rooted_pfor [prog_ok]: "(\<And>x. x \<in> set xs \<Longrightarrow> rooted (f x)) \<Longrightarrow> rooted (pfor xs f)"
  by (induction xs) (auto intro: prog_ok)

lemma wire_pfor [prog_ok]: "(\<And>x. x \<in> set xs \<Longrightarrow> wire (f x)) \<Longrightarrow> wire (pfor xs f)"
  by (induction xs) (auto intro: prog_ok)

section \<open>Running a program to its next pump operation\<close>

text \<open>\<open>settle p w\<close> executes the leading updates and branches of \<open>p\<close>: what is left starts with
  a return, a raise, a delivery, a pumped send or a locked part.\<close>

primrec settle :: "'w prog \<Rightarrow> 'w \<Rightarrow> 'w prog \<times> 'w" where
  "settle Ret w = (Ret, w)"
| "settle (Throw e) w = (Throw e, w)"
| "settle (Upd f k) w = settle k (f w)"
| "settle (Dyn f) w = settle (f w) w"
| "settle (Deliver p k) w = (Deliver p k, w)"
| "settle (Pumped p k) w = (Pumped p k, w)"
| "settle (Locked l p k) w = (Locked l p k, w)"

lemma settle_pseq:
  "settle (pseq p q) w =
     (let r = settle p w in
      if fst r = Ret then settle q (snd r) else (pseq (fst r) q, snd r))"
  by (induction p arbitrary: w) (auto simp: Let_def)

lemma settle_pseq_Ret: "settle p w = (Ret, w') \<Longrightarrow> settle (pseq p q) w = settle q w'"
  by (simp add: settle_pseq Let_def)

lemma settle_idem: "settle (fst (settle p w)) w' = (fst (settle p w), w')"
  by (induction p arbitrary: w) auto

definition leads_to :: "'w pump \<Rightarrow> 'w pump \<Rightarrow> bool" where
  "leads_to c d \<longleftrightarrow> (\<exists>n. pump_steps n c = d)"

lemma leads_refl [simp, intro]: "leads_to c c"
  unfolding leads_to_def by (rule exI [of _ 0]) simp

lemma leads_step: "pump_step c = Some d \<Longrightarrow> leads_to d e \<Longrightarrow> leads_to c e"
  unfolding leads_to_def by (elim exE, rule_tac x = "Suc n" in exI) simp

lemma pump_steps_add: "pump_steps (m + n) c = pump_steps n (pump_steps m c)"
proof (induction m arbitrary: c)
  case (Suc m)
  show ?case
  proof (cases "pump_step c")
    case None
    then have "pump_steps n c = c" by (cases n) auto
    with None show ?thesis by simp
  qed (simp add: Suc.IH)
qed simp

lemma leads_trans: "leads_to c d \<Longrightarrow> leads_to d e \<Longrightarrow> leads_to c e"
  unfolding leads_to_def by (metis pump_steps_add)

lemma leads_reaches: "leads_to c d \<Longrightarrow> reaches pump_rel c d"
  unfolding leads_to_def using reaches_steps by blast

lemma same_stack: "stack c = fs \<Longrightarrow> c\<lparr>stack := fs\<rparr> = c"
  by auto

lemma settle_leads:
  "raising c = None \<Longrightarrow> stack c = FProg p # fs \<Longrightarrow>
   leads_to c (c\<lparr>world := snd (settle p (world c)), stack := FProg (fst (settle p (world c))) # fs\<rparr>)"
proof (induction p arbitrary: c)
  case (Upd f k)
  let ?c = "c\<lparr>world := f (world c), stack := FProg k # fs\<rparr>"
  have "pump_step c = Some ?c" using Upd.prems by (simp add: pump_step_def)
  moreover have "leads_to ?c (c\<lparr>world := snd (settle k (f (world c))),
      stack := FProg (fst (settle k (f (world c)))) # fs\<rparr>)"
    using Upd.IH [of ?c] Upd.prems by simp
  ultimately show ?case by (simp add: leads_step)
next
  case (Dyn f)
  let ?c = "c\<lparr>stack := FProg (f (world c)) # fs\<rparr>"
  have "pump_step c = Some ?c" using Dyn.prems by (simp add: pump_step_def)
  moreover have "leads_to ?c (c\<lparr>world := snd (settle (f (world c)) (world c)),
      stack := FProg (fst (settle (f (world c)) (world c))) # fs\<rparr>)"
    using Dyn.IH [of "f (world c)" ?c] Dyn.prems by simp
  ultimately show ?case by (simp add: leads_step)
qed (simp_all add: same_stack)

text \<open>A program that settles at \<open>Ret\<close> or at \<open>Throw\<close> returns or raises.\<close>

lemma settle_returns:
  assumes "settle p (world c) = (Ret, w)" and "raising c = None" and "stack c = FProg p # fs"
  shows "leads_to c (c\<lparr>world := w, stack := fs\<rparr>)"
proof -
  let ?c = "c\<lparr>world := w, stack := FProg Ret # fs\<rparr>"
  have a: "leads_to c ?c" using settle_leads [OF assms(2,3)] assms(1) by simp
  have b: "pump_step ?c = Some (c\<lparr>world := w, stack := fs\<rparr>)"
    using assms(2) by (simp add: pump_step_def)
  show ?thesis by (rule leads_trans [OF a leads_step [OF b leads_refl]])
qed

lemma settle_raises:
  assumes "settle p (world c) = (Throw e, w)" and "raising c = None" and "stack c = FProg p # fs"
  shows "leads_to c (c\<lparr>world := w, stack := fs, raising := Some e\<rparr>)"
proof -
  let ?c = "c\<lparr>world := w, stack := FProg (Throw e) # fs\<rparr>"
  have a: "leads_to c ?c" using settle_leads [OF assms(2,3)] assms(1) by simp
  have b: "pump_step ?c = Some (c\<lparr>world := w, stack := fs, raising := Some e\<rparr>)"
    using assms(2) by (simp add: pump_step_def)
  show ?thesis by (rule leads_trans [OF a leads_step [OF b leads_refl]])
qed

text \<open>A program that settles at a delivery, inside a drain, appends and goes on.\<close>

lemma settle_enqueues:
  assumes "settle p (world c) = (Deliver q k, w)" and "raising c = None"
    and "stack c = FProg p # fs" and "draining c"
  shows "leads_to c (c\<lparr>world := w, queue := queue c @ [q], enqueued := enqueued c @ [q],
    stack := FProg k # fs\<rparr>)"
proof -
  let ?c = "c\<lparr>world := w, stack := FProg (Deliver q k) # fs\<rparr>"
  have a: "leads_to c ?c" using settle_leads [OF assms(2,3)] assms(1) by simp
  have b: "pump_step ?c = Some (c\<lparr>world := w, queue := queue c @ [q],
      enqueued := enqueued c @ [q], stack := FProg k # fs\<rparr>)"
    using assms(2,4) by (simp add: pump_defs)
  show ?thesis by (rule leads_trans [OF a leads_step [OF b leads_refl]])
qed

text \<open>On an idle thread with an empty queue a delivery starts its action at once.\<close>

lemma settle_starts:
  assumes "settle p (world c) = (Deliver q k, w)" and "raising c = None"
    and "stack c = FProg p # fs" and "\<not> draining c" and "queue c = []"
  shows "leads_to c (c\<lparr>world := w, draining := True, queue := [], enqueued := enqueued c @ [q],
    started := started c @ [q], stack := FProg q # FDrain # FProg k # fs\<rparr>)"
proof -
  let ?c = "c\<lparr>world := w, stack := FProg (Deliver q k) # fs\<rparr>"
  let ?d = "c\<lparr>world := w, draining := True, queue := [q], enqueued := enqueued c @ [q],
    stack := FDrain # FProg k # fs\<rparr>"
  have a: "leads_to c ?c" using settle_leads [OF assms(2,3)] assms(1) by simp
  have b: "pump_step ?c = Some ?d"
    using assms(2,4,5) by (simp add: pump_defs)
  have d: "pump_step ?d = Some (c\<lparr>world := w, draining := True, queue := [],
      enqueued := enqueued c @ [q], started := started c @ [q],
      stack := FProg q # FDrain # FProg k # fs\<rparr>)"
    using assms(2) by (simp add: pump_defs)
  show ?thesis by (rule leads_trans [OF a leads_step [OF b leads_step [OF d leads_refl]]])
qed

text \<open>The drain loop takes the next action, or ends.\<close>

lemma drain_next:
  "stack c = FDrain # fs \<Longrightarrow> raising c = None \<Longrightarrow> queue c = q # qs \<Longrightarrow>
   leads_to c (c\<lparr>queue := qs, started := started c @ [q], stack := FProg q # FDrain # fs\<rparr>)"
  by (rule leads_step) (auto simp: pump_defs)

lemma drain_done:
  "stack c = FDrain # fs \<Longrightarrow> raising c = None \<Longrightarrow> queue c = [] \<Longrightarrow>
   leads_to c (c\<lparr>draining := False, stack := fs\<rparr>)"
  by (rule leads_step) (auto simp: pump_defs)

lemma drain_after_Ret:
  assumes "stack c = FProg Ret # FDrain # fs" and "raising c = None" and "queue c = []"
  shows "leads_to c (c\<lparr>draining := False, stack := fs\<rparr>)"
proof -
  have "pump_step c = Some (c\<lparr>stack := FDrain # fs\<rparr>)"
    using assms by (simp add: pump_step_def)
  moreover have "leads_to (c\<lparr>stack := FDrain # fs\<rparr>) (c\<lparr>draining := False, stack := fs\<rparr>)"
    using drain_done [of "c\<lparr>stack := FDrain # fs\<rparr>" fs] assms by simp
  ultimately show ?thesis by (rule leads_step)
qed

text \<open>An exception in a drained action leaves through the drain loop and its caller.\<close>

lemma drain_raises:
  "stack c = [FDrain, FProg k] \<Longrightarrow> raising c = Some e \<Longrightarrow>
   leads_to c (c\<lparr>draining := False, stack := []\<rparr>)"
  by (rule leads_step [where d = "c\<lparr>draining := False, stack := [FProg k]\<rparr>"],
      simp add: pump_defs, rule leads_step) (auto simp: pump_defs)

section \<open>A run inside another, and one call after another\<close>

text \<open>While no exception is on its way, the frames below the running ones do not matter.\<close>

lemma step_frame:
  assumes "pump_step c = Some d" and "raising c = None" and "stack c \<noteq> []"
  shows "pump_step (c\<lparr>stack := stack c @ fs\<rparr>) = Some (d\<lparr>stack := stack d @ fs\<rparr>)"
proof -
  obtain f gs where st: "stack c = f # gs" using assms(3) by (cases "stack c") auto
  with assms show ?thesis
    by (cases "(f, gs, c)" rule: exec.cases)
      (auto simp: pump_defs split: list.splits if_splits)
qed

text \<open>The running program at the bottom of the stack can be the first part of a sequence.\<close>

lemma step_seq:
  assumes "pump_step c = Some d" and "raising c = None" and "stack c = gs @ [FProg p]"
    and "raising d = None"
  shows "stack d = [] \<and> gs = [] \<and> p = Ret \<and> d = c\<lparr>stack := []\<rparr>
    \<or> (\<exists>gs' p'. stack d = gs' @ [FProg p']
        \<and> pump_step (c\<lparr>stack := gs @ FProg (pseq p q) # fs\<rparr>)
            = Some (d\<lparr>stack := gs' @ FProg (pseq p' q) # fs\<rparr>))"
proof (cases gs)
  case Nil
  with assms show ?thesis
    by (cases p) (auto simp: pump_defs split: if_splits intro: exI [of _ "[]"])
next
  case (Cons g hs)
  with assms show ?thesis
    by (cases "(g, hs @ [FProg p], c)" rule: exec.cases)
      (fastforce simp: pump_defs split: list.splits if_splits)+
qed

lemma raising_stays:
  assumes "raising c = Some e"
  shows "raising (pump_steps n c) = Some e"
  using assms
proof (induction n arbitrary: c)
  case (Suc n)
  show ?case
  proof (cases "pump_step c")
    case (Some d)
    then obtain f fs where "d = unwind f fs c"
      using Suc.prems by (auto simp: pump_step_def split: list.splits)
    then have "raising d = Some e" using Suc.prems by (cases f) auto
    with Some Suc.IH show ?thesis by simp
  qed (use Suc.prems in simp)
qed simp

lemma steps_seq:
  "pump_steps n c = d \<Longrightarrow> raising c = None \<Longrightarrow> stack c = gs @ [FProg p] \<Longrightarrow>
   stack d = [] \<Longrightarrow> raising d = None \<Longrightarrow>
   leads_to (c\<lparr>stack := gs @ FProg (pseq p q) # fs\<rparr>) (d\<lparr>stack := FProg q # fs\<rparr>)"
proof (induction n arbitrary: c gs p)
  case (Suc n)
  show ?case
  proof (cases "pump_step c")
    case None
    with Suc.prems have "stack c = []" by auto
    with Suc.prems(3) show ?thesis by simp
  next
    case (Some e)
    with Suc.prems have run: "pump_steps n e = d" by simp
    have re: "raising e = None"
      using raising_stays [of e _ n] run Suc.prems(5) by (cases "raising e") auto
    from step_seq [OF Some Suc.prems(2,3) re, of q fs] show ?thesis
    proof (elim disjE exE conjE)
      assume "stack e = []" "gs = []" "p = Ret" "e = c\<lparr>stack := []\<rparr>"
      moreover from this run have "d = e" by (cases n) (auto simp: pump_step_def)
      ultimately show ?thesis by simp
    next
      fix gs' p'
      assume "stack e = gs' @ [FProg p']"
        and st: "pump_step (c\<lparr>stack := gs @ FProg (pseq p q) # fs\<rparr>)
          = Some (e\<lparr>stack := gs' @ FProg (pseq p' q) # fs\<rparr>)"
      with Suc.IH [OF run re _ Suc.prems(4,5)] show ?thesis by (blast intro: leads_step [OF st])
    qed
  qed
qed simp

text \<open>A call that returns, made as a statement of a longer program, returns to the next one.\<close>

lemma leads_seq:
  assumes "leads_to (call p c) d" and "stack d = []" and "raising d = None" and "raising c = None"
  shows "leads_to (c\<lparr>stack := FProg (pseq p q) # fs\<rparr>) (d\<lparr>stack := FProg q # fs\<rparr>)"
proof -
  obtain n where n: "pump_steps n (call p c) = d" using assms(1) by (auto simp: leads_to_def)
  have "call p c\<lparr>stack := [] @ FProg (pseq p q) # fs\<rparr> = c\<lparr>stack := FProg (pseq p q) # fs\<rparr>"
    using assms(4) by (simp add: call_def)
  with steps_seq [OF n _ _ assms(2,3), of "[]" p q fs] show ?thesis by (simp add: call_def)
qed

section \<open>Programs that check before they return\<close>

text \<open>Every return of the program follows a test of \<open>P\<close> on the world, with nothing in between.\<close>

primrec checks :: "('w \<Rightarrow> bool) \<Rightarrow> 'w prog \<Rightarrow> bool" where
  "checks P Ret = False"
| "checks P (Throw e) = True"
| "checks P (Upd f k) = checks P k"
| "checks P (Dyn f) = (\<forall>w. checks P (f w) \<or> f w = Ret \<and> P w)"
| "checks P (Deliver p k) = checks P k"
| "checks P (Pumped p k) = checks P k"
| "checks P (Locked l p k) = checks P k"

lemma checks_pseq: "checks P q \<Longrightarrow> checks P (pseq p q)"
  by (induction p) auto

definition checked :: "('w \<Rightarrow> bool) \<Rightarrow> 'w pump \<Rightarrow> bool" where
  "checked P c \<longleftrightarrow> (stack c = [] \<and> P (world c))
     \<or> (\<exists>gs p. stack c = gs @ [FProg p] \<and> (checks P p \<or> gs = [] \<and> p = Ret \<and> P (world c)))"

lemma checked_step:
  assumes "pump_step c = Some d" and "raising c = None" and "raising d = None" and "checked P c"
  shows "checked P d"
proof -
  from assms(1,4) obtain gs p where c: "stack c = gs @ [FProg p]"
    "checks P p \<or> gs = [] \<and> p = Ret \<and> P (world c)"
    by (auto simp: checked_def pump_step_def)
  show ?thesis
  proof (cases gs)
    case Nil
    with assms(1-3) c show ?thesis
      by (cases p) (auto simp: checked_def pump_defs split: if_splits)
  next
    case (Cons g hs)
    with assms(1-3) c show ?thesis
      by (cases "(g, hs @ [FProg p], c)" rule: exec.cases)
        (fastforce simp: checked_def pump_defs split: list.splits if_splits)+
  qed
qed

lemma checked_steps:
  "pump_steps n c = d \<Longrightarrow> checked P c \<Longrightarrow> raising c = None \<Longrightarrow> raising d = None \<Longrightarrow> checked P d"
proof (induction n arbitrary: c)
  case (Suc n)
  show ?case
  proof (cases "pump_step c")
    case (Some e)
    with Suc.prems have run: "pump_steps n e = d" by simp
    then have "raising e = None" using raising_stays [of e _ n] Suc.prems(4) by (cases "raising e") auto
    with Suc.IH [OF run] checked_step [OF Some Suc.prems(3)] Suc.prems(2,4) show ?thesis by blast
  qed (use Suc.prems in simp)
qed simp

lemma returns_checked:
  assumes "leads_to (call p c) d" and "checks P p" and "stack d = []" and "raising d = None"
  shows "P (world d)"
proof -
  have "checked P (call p c)" "raising (call p c) = None"
    using assms(2) by (auto simp: checked_def call_def)
  with assms(1,4) have "checked P d" unfolding leads_to_def by (blast intro: checked_steps)
  with assms(3) show ?thesis by (auto simp: checked_def)
qed

section \<open>Programs that keep a property of the world\<close>

text \<open>Every update the program makes, also inside what it delivers, takes a world with \<open>J\<close> to one with
  \<open>J\<close>. A branch is only looked at in worlds with \<open>J\<close>, since it never runs in another.\<close>

primrec keeps :: "('w \<Rightarrow> bool) \<Rightarrow> 'w prog \<Rightarrow> bool" where
  "keeps J Ret = True"
| "keeps J (Throw e) = True"
| "keeps J (Upd f k) = ((\<forall>w. J w \<longrightarrow> J (f w)) \<and> keeps J k)"
| "keeps J (Dyn f) = (\<forall>w. J w \<longrightarrow> keeps J (f w))"
| "keeps J (Deliver p k) = (keeps J p \<and> keeps J k)"
| "keeps J (Pumped p k) = (keeps J p \<and> keeps J k)"
| "keeps J (Locked l p k) = (keeps J p \<and> keeps J k)"

named_theorems keeps_ok "programs that keep a property of the world"

lemma keeps_pseq [keeps_ok]: "keeps J p \<Longrightarrow> keeps J q \<Longrightarrow> keeps J (pseq p q)"
  by (induction p) auto

lemma keeps_pfor [keeps_ok]: "(\<And>x. x \<in> set xs \<Longrightarrow> keeps J (f x)) \<Longrightarrow> keeps J (pfor xs f)"
  by (induction xs) (auto intro: keeps_ok)

lemma keeps_settle: "keeps J p \<Longrightarrow> J w \<Longrightarrow> J (snd (settle p w)) \<and> keeps J (fst (settle p w))"
  by (induction p arbitrary: w) auto

definition frame_keeps :: "('w \<Rightarrow> bool) \<Rightarrow> 'w frame \<Rightarrow> bool" where
  "frame_keeps J f = (case f of FProg p \<Rightarrow> keeps J p | _ \<Rightarrow> True)"

lemma frame_keeps_simps [simp]:
  "frame_keeps J (FProg p) = keeps J p" "frame_keeps J FDrain" "frame_keeps J (FUnlock l)"
  by (simp_all add: frame_keeps_def)

definition pump_keeps :: "('w \<Rightarrow> bool) \<Rightarrow> 'w pump \<Rightarrow> bool" where
  "pump_keeps J c \<longleftrightarrow> J (world c) \<and> (\<forall>p \<in> set (queue c). keeps J p) \<and> (\<forall>f \<in> set (stack c). frame_keeps J f)"

lemma pump_keeps_step: "pump_rel c d \<Longrightarrow> pump_keeps J c \<Longrightarrow> pump_keeps J d"
proof (elim pump_rel_cases)
  fix f fs e
  assume "pump_keeps J c" "stack c = f # fs" "d = unwind f fs c"
  then show ?thesis by (cases f) (auto simp: pump_keeps_def)
next
  fix f fs
  assume "pump_keeps J c" "stack c = f # fs" "exec f fs c = Some d"
  then show ?thesis
    by (cases "(f, fs, c)" rule: exec.cases)
      (auto simp: pump_keeps_def deliver_def pumped_send_def drain_round_def Let_def
        split: if_splits list.splits)
qed

interpretation pk: kept_invariant "pump_keeps J" pump_rel "pump_keeps J" for J
  by unfold_locales (auto intro: pump_keeps_step)

lemma pump_keeps_call: "pump_keeps J c \<Longrightarrow> keeps J p \<Longrightarrow> pump_keeps J (call p c)"
  by (simp add: pump_keeps_def call_def)

lemma pump_keeps_new: "J w \<Longrightarrow> pump_keeps J (new_pump w)"
  by (simp add: pump_keeps_def new_pump_def)

end
