(* ===== verification/Loopback_Server.thy ===== *)
theory Loopback_Server
  imports Hive_Prelude
begin

text \<open>
  The life cycle of \<open>LoopbackNetworkProtocol\<close> in \<open>hivescope/plugins/loopback.py\<close>: \<open>run\<close> and \<open>stop\<close> of any
  number of instances, the registry \<open>_LIVE_FLOORS\<close>, and the protocol floor in the server
  configuration that all instances of the process share.

  An instance is its number, which is also its \<open>id\<close>. How a start ends (the server binds a port, it fails,
  or it has not answered after ten seconds), whether the configuration can be written, and whether the
  server thread can be joined are arguments. \<open>nw_alive\<close> is a history variable: the instances whose
  server thread is alive; no code reads it.
\<close>

section \<open>State\<close>

record server =
  sv_floor :: int
  sv_url :: "string option"
  sv_thread :: bool
  sv_ready :: bool
  sv_error :: "py_exn option"
  sv_broken :: bool

record net_world =
  nw_servers :: "nat \<Rightarrow> server"
  nw_floors :: "(nat, int) pydict"
  nw_config :: "int option"
  nw_alive :: "nat set"

definition new_server :: "int \<Rightarrow> server" where
  "new_server floor = \<lparr>sv_floor = floor, sv_url = None, sv_thread = False, sv_ready = False,
     sv_error = None, sv_broken = False\<rparr>"

definition upd_server :: "nat \<Rightarrow> (server \<Rightarrow> server) \<Rightarrow> net_world \<Rightarrow> net_world" where
  "upd_server i f w = w\<lparr>nw_servers := (nw_servers w)(i := f (nw_servers w i))\<rparr>"

text \<open>The \<open>url\<close> property, and the address of a bound port.\<close>

definition server_url :: "server \<Rightarrow> string result" where
  "server_url x = (case sv_url x of None \<Rightarrow> Inl RuntimeError | Some u \<Rightarrow> Inr u)"

definition url_of_port :: "nat \<Rightarrow> string" where
  "url_of_port port = ''ws://127.0.0.1:'' @ nat_str port @ ''/''"

section \<open>run\<close>

text \<open>How a start ends: the ports of the bound sockets, the exception that ended the thread, or no answer in
  time.\<close>

datatype boot = Bound "nat list" | Startup_Failed py_exn | No_Answer

definition conflicts :: "nat \<Rightarrow> net_world \<Rightarrow> int list" where
  "conflicts i w = map snd (filter (\<lambda>(k, floor). k \<noteq> i \<and> floor \<noteq> sv_floor (nw_servers w i)) (nw_floors w))"

text \<open>Registration, and the state a new server thread starts from.\<close>

definition register_run :: "nat \<Rightarrow> net_world \<Rightarrow> net_world" where
  "register_run i w =
     (let floor = sv_floor (nw_servers w i) in
      upd_server i (\<lambda>x. x\<lparr>sv_ready := False, sv_error := None, sv_thread := True\<rparr>)
        (w\<lparr>nw_config := Some floor, nw_floors := dset i floor (nw_floors w)\<rparr>))"

text \<open>What the server thread does at its start.\<close>

definition bind :: "nat list \<Rightarrow> nat \<Rightarrow> net_world \<Rightarrow> net_world" where
  "bind ports i w = upd_server i (\<lambda>x. x\<lparr>sv_url := (case ports of [] \<Rightarrow> sv_url x | port # _ \<Rightarrow> Some (url_of_port port)),
     sv_ready := True\<rparr>) w"

fun server_thread :: "boot \<Rightarrow> nat \<Rightarrow> net_world \<Rightarrow> net_world" where
  "server_thread (Bound ports) i w = (bind ports i w)\<lparr>nw_alive := insert i (nw_alive w)\<rparr>"
| "server_thread (Startup_Failed e) i w = upd_server i (\<lambda>x. x\<lparr>sv_error := Some e, sv_ready := True\<rparr>) w"
| "server_thread No_Answer i w = w\<lparr>nw_alive := insert i (nw_alive w)\<rparr>"

definition give_up :: "nat \<Rightarrow> net_world \<Rightarrow> net_world" where
  "give_up i w = upd_server i (\<lambda>x. x\<lparr>sv_broken := True\<rparr>) (w\<lparr>nw_floors := ddel i (nw_floors w)\<rparr>)"

definition lb_run :: "py_exn option \<Rightarrow> boot \<Rightarrow> nat \<Rightarrow> net_world \<Rightarrow> unit result \<times> net_world" where
  "lb_run config_error boot i w =
     (if sv_broken (nw_servers w i) then (Inl RuntimeError, w)
      else if sv_thread (nw_servers w i) then (Inr (), w)
      else if conflicts i w \<noteq> [] then (Inl RuntimeError, w)
      else if config_error \<noteq> None then (Inl RuntimeError, w)
      else
        (let w1 = server_thread boot i (register_run i w) in
         if \<not> sv_ready (nw_servers w1 i) then (Inl RuntimeError, give_up i w1)
         else if sv_error (nw_servers w1 i) \<noteq> None then (Inl RuntimeError, give_up i w1)
         else (Inr (), w1)))"

section \<open>stop\<close>

text \<open>\<open>joined\<close>: the thread has ended within the five seconds of \<open>join\<close>.\<close>

definition lb_stop :: "bool \<Rightarrow> nat \<Rightarrow> net_world \<Rightarrow> net_world" where
  "lb_stop joined i w =
     (let w1 = (if sv_thread (nw_servers w i)
                then (if joined
                      then (upd_server i (\<lambda>x. x\<lparr>sv_thread := False\<rparr>) w)\<lparr>nw_alive := nw_alive w - {i}\<rparr>
                      else upd_server i (\<lambda>x. x\<lparr>sv_broken := True\<rparr>) w)
                else w) in
      upd_server i (\<lambda>x. x\<lparr>sv_url := None, sv_ready := False\<rparr>) (w1\<lparr>nw_floors := ddel i (nw_floors w1)\<rparr>))"

section \<open>Histories\<close>

text \<open>A running server thread may end with an exception at any time; a server that was given up may still
  bind its port later.\<close>

definition thread_dies :: "py_exn \<Rightarrow> nat \<Rightarrow> net_world \<Rightarrow> net_world" where
  "thread_dies e i w =
     (upd_server i (\<lambda>x. x\<lparr>sv_error := Some e, sv_ready := True\<rparr>) w)\<lparr>nw_alive := nw_alive w - {i}\<rparr>"

inductive net_step :: "net_world \<Rightarrow> net_world \<Rightarrow> bool" where
  ns_run: "net_step w (snd (lb_run config_error boot i w))"
| ns_stop: "joined \<or> i \<in> nw_alive w \<Longrightarrow> net_step w (lb_stop joined i w)"
| ns_dies: "i \<in> nw_alive w \<Longrightarrow> net_step w (thread_dies e i w)"
| ns_late: "i \<in> nw_alive w \<Longrightarrow> sv_broken (nw_servers w i) \<Longrightarrow> net_step w (bind ports i w)"

inductive_cases net_stepE: "net_step w w'"

definition new_net :: "(nat \<Rightarrow> int) \<Rightarrow> int option \<Rightarrow> net_world" where
  "new_net floor config = \<lparr>nw_servers = (\<lambda>i. new_server (floor i)), nw_floors = [], nw_config = config,
     nw_alive = {}\<rparr>"

section \<open>Invariant\<close>

text \<open>The registry holds exactly the instances that are started and not broken, under their floors, which
  all equal the configured one; only a started instance has a live server, and only a started one an
  address.\<close>

definition net_inv :: "net_world \<Rightarrow> bool" where
  "net_inv w \<longleftrightarrow> dict_ok (nw_floors w)
     \<and> (\<forall>i f. dget (nw_floors w) i = Some f \<longrightarrow> f = sv_floor (nw_servers w i) \<and> nw_config w = Some f
          \<and> sv_thread (nw_servers w i) \<and> \<not> sv_broken (nw_servers w i))
     \<and> (\<forall>i. sv_thread (nw_servers w i) \<and> \<not> sv_broken (nw_servers w i) \<longrightarrow> dget (nw_floors w) i \<noteq> None)
     \<and> (\<forall>i \<in> nw_alive w. sv_thread (nw_servers w i))
     \<and> (\<forall>i. sv_url (nw_servers w i) \<noteq> None \<longrightarrow> sv_thread (nw_servers w i))"

lemma upd_server_sel [simp]:
  "nw_servers (upd_server i f w) = (nw_servers w)(i := f (nw_servers w i))"
  "nw_floors (upd_server i f w) = nw_floors w" "nw_config (upd_server i f w) = nw_config w"
  "nw_alive (upd_server i f w) = nw_alive w"
  by (simp_all add: upd_server_def)

lemma no_conflicts:
  assumes "dict_ok (nw_floors w)" and "conflicts i w = []" and "dget (nw_floors w) k = Some f" and "k \<noteq> i"
  shows "f = sv_floor (nw_servers w i)"
  using assms by (auto simp: conflicts_def filter_empty_conv dget_def dict_ok_def dest!: map_of_SomeD)

text \<open>The registration is the same in every branch that starts the thread, and the thread touches its own
  instance only.\<close>

lemmas start_defs = register_run_def give_up_def bind_def Let_def

lemma run_started:
  assumes "\<not> sv_broken (nw_servers w i)" and "\<not> sv_thread (nw_servers w i)" and "conflicts i w = []"
    and "ce = None"
  shows "lb_run ce (Bound ports) i w = (Inr (), server_thread (Bound ports) i (register_run i w))"
    and "lb_run ce (Startup_Failed e) i w =
      (Inl RuntimeError, give_up i (server_thread (Startup_Failed e) i (register_run i w)))"
    and "lb_run ce No_Answer i w = (Inl RuntimeError, give_up i (server_thread No_Answer i (register_run i w)))"
  using assms by (simp_all add: lb_run_def start_defs)

lemma run_not_started:
  assumes "sv_broken (nw_servers w i) \<or> sv_thread (nw_servers w i) \<or> conflicts i w \<noteq> [] \<or> ce \<noteq> None"
  shows "snd (lb_run ce boot i w) = w"
  using assms by (auto simp: lb_run_def)

lemma net_inv_registered:
  assumes "net_inv w" and "conflicts i w = []" and "\<not> sv_broken (nw_servers w i)"
    and "dict_ok (nw_floors w)"
  shows "net_inv (register_run i w)"
  using assms no_conflicts [OF assms(4,2)]
  unfolding net_inv_def by (auto simp: start_defs dict_simps pd.good_store split: if_splits)

text \<open>A run that returns leaves a started, unbroken instance, a run of such an instance changes nothing, and
  no other instance is touched.\<close>

lemma run_up: "lb_run ce boot i w = (Inr (), w') \<Longrightarrow> sv_thread (nw_servers w' i) \<and> \<not> sv_broken (nw_servers w' i)"
  by (cases boot) (auto simp: lb_run_def start_defs split: if_splits)

lemma run_again:
  "sv_thread (nw_servers w i) \<Longrightarrow> \<not> sv_broken (nw_servers w i) \<Longrightarrow> lb_run ce boot i w = (Inr (), w)"
  by (simp add: lb_run_def)

lemma run_others: "k \<noteq> i \<Longrightarrow> nw_servers (snd (lb_run ce boot i w)) k = nw_servers w k"
  by (cases boot) (auto simp: lb_run_def start_defs)

text \<open>Each thing a server thread does to a started instance, and giving it up, keep the invariant.\<close>

lemma net_inv_alive: "net_inv w \<Longrightarrow> sv_thread (nw_servers w i) \<Longrightarrow> net_inv (w\<lparr>nw_alive := insert i (nw_alive w)\<rparr>)"
  by (simp add: net_inv_def)

lemma net_inv_dead: "net_inv w \<Longrightarrow> net_inv (w\<lparr>nw_alive := nw_alive w - {i}\<rparr>)"
  by (auto simp: net_inv_def)

lemma net_inv_bind: "net_inv w \<Longrightarrow> sv_thread (nw_servers w i) \<Longrightarrow> net_inv (bind ports i w)"
  unfolding net_inv_def by (auto simp: bind_def)

lemma net_inv_error: "net_inv w \<Longrightarrow> net_inv (upd_server i (\<lambda>x. x\<lparr>sv_error := Some e, sv_ready := True\<rparr>) w)"
  unfolding net_inv_def by auto

lemma net_inv_give_up: "net_inv w \<Longrightarrow> net_inv (give_up i w)"
  unfolding net_inv_def by (auto simp: give_up_def dict_simps pd.good_remove split: if_splits)

lemma net_inv_thread:
  assumes "net_inv w" and "sv_thread (nw_servers w i)"
  shows "net_inv (server_thread boot i w)"
  using assms net_inv_alive [of "bind _ i w" i] net_inv_bind [of w i]
  by (cases boot) (simp_all add: net_inv_alive net_inv_error bind_def)

lemma net_inv_run:
  assumes "net_inv w"
  shows "net_inv (snd (lb_run ce boot i w))"
proof (cases "sv_broken (nw_servers w i) \<or> sv_thread (nw_servers w i) \<or> conflicts i w \<noteq> [] \<or> ce \<noteq> None")
  case True
  with assms show ?thesis by (simp add: run_not_started)
next
  case False
  with assms have "net_inv (register_run i w)"
    by (auto intro!: net_inv_registered) (simp add: net_inv_def)
  then have "net_inv (server_thread boot i (register_run i w))" for boot
    by (rule net_inv_thread) (simp add: register_run_def Let_def)
  with False net_inv_give_up show ?thesis
    by (cases boot) (simp_all add: run_started del: server_thread.simps)
qed

lemma net_inv_stop:
  assumes "net_inv w" and "joined \<or> i \<in> nw_alive w"
  shows "net_inv (lb_stop joined i w)"
  using assms unfolding net_inv_def
  by (auto simp: lb_stop_def Let_def dict_simps pd.good_remove split: if_splits)

lemma net_inv_step:
  assumes "net_step w w'" and "net_inv w"
  shows "net_inv w'"
  using assms net_inv_dead [OF net_inv_error]
proof (cases rule: net_step.cases)
  case (ns_late i ports)
  with assms(2) have "sv_thread (nw_servers w i)" by (simp add: net_inv_def)
  with ns_late assms(2) show ?thesis by (simp add: net_inv_bind)
qed (simp_all add: net_inv_run net_inv_stop thread_dies_def)

lemma net_inv_new: "net_inv (new_net floor config)"
  by (simp add: net_inv_def new_net_def new_server_def dict_simps pd.good_empty)

interpretation ni: kept_invariant "\<lambda>w. \<exists>floor config. w = new_net floor config" net_step net_inv
proof unfold_locales
  fix w w' :: net_world
  show "\<exists>floor config. w = new_net floor config \<Longrightarrow> net_inv w" using net_inv_new by blast
  show "net_step w w' \<Longrightarrow> net_inv w \<Longrightarrow> net_inv w'" by (rule net_inv_step)
qed

section \<open>A broken instance\<close>

lemma step_broken: "net_step w w' \<Longrightarrow> sv_broken (nw_servers w i) \<Longrightarrow> sv_broken (nw_servers w' i)"
proof (induction rule: net_step.induct)
  case (ns_run w ce boot k)
  then show ?case
    by (cases boot) (auto simp: lb_run_def start_defs)
qed (auto simp: lb_stop_def Let_def thread_dies_def bind_def)

interpretation nb: kept_invariant "\<lambda>w. sv_broken (nw_servers w i)" net_step "\<lambda>w. sv_broken (nw_servers w i)" for i
  by unfold_locales (auto intro: step_broken)

lemma step_floor: "net_step w w' \<Longrightarrow> sv_floor (nw_servers w' i) = sv_floor (nw_servers w i)"
proof (induction rule: net_step.induct)
  case (ns_run w ce boot k)
  then show ?case by (cases boot) (auto simp: lb_run_def start_defs)
qed (auto simp: lb_stop_def Let_def thread_dies_def bind_def)

lemma reaches_floor: "reaches net_step w w' \<Longrightarrow> sv_floor (nw_servers w' i) = sv_floor (nw_servers w i)"
  by (induction rule: reaches.induct) (simp_all add: step_floor)

lemma dset_new: "dget d k = None \<Longrightarrow> dset k v d = d @ [(k, v)]"
  by (induction d) (auto simp: dset_def dget_def split: if_splits)

lemma ddel_new: "dget d k = None \<Longrightarrow> ddel k (d @ [(k, v)]) = d"
  by (induction d) (auto simp: ddel_def dget_def split: if_splits)

section \<open>Properties\<close>

text \<open>C30: In every history of the network instances (runs, refused and failed runs, stops with and without
  a joined thread, server threads dying, late binds), all started and unbroken instances have the same protocol
  floor, and it is the one in the shared server configuration.\<close>

theorem live_floors_agree:
  assumes "reaches net_step (new_net floor config) w"
    and "sv_thread (nw_servers w i)" and "\<not> sv_broken (nw_servers w i)"
  shows "nw_config w = Some (floor i) \<and> dget (nw_floors w) i = Some (floor i)
    \<and> (\<forall>k. sv_thread (nw_servers w k) \<and> \<not> sv_broken (nw_servers w k) \<longrightarrow> floor k = floor i)"
proof -
  have floors: "sv_floor (nw_servers w k) = floor k" for k
    using reaches_floor [OF assms(1)] by (simp add: new_net_def new_server_def)
  have inv: "net_inv w" using assms(1) ni.inv_reachable by blast
  have reg: "dget (nw_floors w) k = Some (floor k) \<and> nw_config w = Some (floor k)"
    if "sv_thread (nw_servers w k)" "\<not> sv_broken (nw_servers w k)" for k
    using inv that unfolding net_inv_def by (metis floors not_None_eq)
  show ?thesis using reg [OF assms(2,3)] reg by auto
qed

text \<open>A run of an instance that is neither broken nor started, with a writable configuration and a
  server that binds, succeeds exactly when no other registered instance has another floor. It then serves at
  the address of the first bound port with its floor configured and registered; otherwise it raises
  RuntimeError and changes nothing. A stop that joins the thread takes every trace of it back except the
  configured floor.\<close>

theorem run_and_stop:
  assumes "\<not> sv_broken (nw_servers w i)" and "\<not> sv_thread (nw_servers w i)" and "dict_ok (nw_floors w)"
    and "dget (nw_floors w) i = None"
  shows "case lb_run None (Bound (port # ports)) i w of
      (Inl e, w') \<Rightarrow> e = RuntimeError \<and> w' = w
        \<and> (\<exists>k f. k \<noteq> i \<and> dget (nw_floors w) k = Some f \<and> f \<noteq> sv_floor (nw_servers w i))
    | (Inr _, w') \<Rightarrow> server_url (nw_servers w' i) = Inr (url_of_port port)
        \<and> nw_config w' = Some (sv_floor (nw_servers w i))
        \<and> nw_floors w' = nw_floors w @ [(i, sv_floor (nw_servers w i))]
        \<and> (\<forall>k. k \<noteq> i \<longrightarrow> nw_servers w' k = nw_servers w k)
        \<and> lb_stop True i w' = w'\<lparr>nw_floors := nw_floors w, nw_alive := nw_alive w - {i},
            nw_servers := (nw_servers w)(i := (nw_servers w i)\<lparr>sv_url := None, sv_ready := False, sv_error := None\<rparr>)\<rparr>"
proof (cases "conflicts i w = []")
  case True
  have stopped: "(nw_servers w i)\<lparr>sv_error := None, sv_thread := False, sv_url := None, sv_ready := False\<rparr>
      = (nw_servers w i)\<lparr>sv_url := None, sv_ready := False, sv_error := None\<rparr>"
    using assms(2) by (intro server.equality) simp_all
  note new = dset_new [OF assms(4)] and old = ddel_new [OF assms(4)]
  show ?thesis
    using True assms(1,2) unfolding run_started(1) [OF assms(1,2) True refl]
    by (simp add: start_defs new old server_url_def lb_stop_def upd_server_def stopped)
next
  case False
  then obtain k f where "(k, f) \<in> set (nw_floors w)" "k \<noteq> i" "f \<noteq> sv_floor (nw_servers w i)"
    by (auto simp: conflicts_def filter_empty_conv)
  with assms show ?thesis
    by (auto simp: lb_run_def False dget_def dict_ok_def)
qed

text \<open>A broken instance stays broken: whatever happens to the network afterwards, its run is refused
  and changes nothing.\<close>

theorem broken_never_runs:
  assumes "sv_broken (nw_servers w i)" and "reaches net_step w w'"
  shows "lb_run config_error boot i w' = (Inl RuntimeError, w')"
  using nb.inv_run [OF assms(2,1)] by (simp add: lb_run_def)


theorem live_floors_agree_witness:
  "nw_config (snd (lb_run None (Bound [9]) 1 (snd (lb_run None (Bound [8]) 0 (new_net (\<lambda>_. 1) None))))) = Some 1"
proof -
  let ?w0 = "new_net (\<lambda>_. 1) None"
  let ?w1 = "snd (lb_run None (Bound [8]) 0 ?w0)"
  let ?w2 = "snd (lb_run None (Bound [9]) 1 ?w1)"
  have "reaches net_step ?w0 ?w2"
    using reaches_one [of net_step ?w0 ?w1] reaches_step [of net_step ?w0 ?w1 ?w2] ns_run by blast
  then have "nw_config ?w2 = Some ((\<lambda>_. 1) (0::nat))"
    using live_floors_agree [of "\<lambda>_. 1" None ?w2 0]
    by (simp add: lb_run_def start_defs conflicts_def new_net_def new_server_def dset_def)
  then show ?thesis by simp
qed

theorem run_and_stop_witness:
  "server_url (nw_servers (snd (lb_run None (Bound [8]) 0 (new_net (\<lambda>_. 1) None))) 0) = Inr ''ws://127.0.0.1:8/''"
  using run_and_stop [of "new_net (\<lambda>_. 1) None" 0 8 "[]"]
  by (simp add: new_net_def new_server_def pd.good_empty dict_simps lb_run_def start_defs conflicts_def
      server_url_def url_of_port_def nat_str.simps char_of_def bit_0)

theorem broken_never_runs_witness:
  "fst (lb_run None (Bound [8]) 0 (lb_stop False 0 (snd (lb_run None (Bound [8]) 0 (new_net (\<lambda>_. 1) None)))))
     = Inl RuntimeError"
  using broken_never_runs [OF _ reaches_refl,
      of "lb_stop False 0 (snd (lb_run None (Bound [8]) 0 (new_net (\<lambda>_. 1) None)))" 0 None "Bound [8]"]
  by (simp add: lb_run_def start_defs conflicts_def new_net_def new_server_def lb_stop_def)

text \<open>A stop whose thread cannot be joined, and a start that was given up, free the floor of a server that
  is still alive: an instance with another floor may then start and rewrite the configuration the live
  server's clients are admitted under.\<close>

theorem unjoined_server_loses_its_floor:
  "let w = lb_stop False 0 (snd (lb_run None (Bound [8]) 0 (new_net (\<lambda>i. if i = 0 then 2 else 1) None)));
       (r, w') = lb_run None (Bound [9]) 1 w
   in r = Inr () \<and> nw_alive w' = {0, 1} \<and> sv_floor (nw_servers w' 0) = 2 \<and> nw_config w' = Some 1"
  by (simp add: lb_run_def start_defs conflicts_def new_net_def new_server_def lb_stop_def dset_def ddel_def
      insert_commute)

end
