(* ===== verification/Node_Core.thy ===== *)
theory Node_Core
  imports Client_Database Message_Recorder Pump_Programs Loopback_Server
begin

text \<open>
  The two actors of \<open>hivescope/node.py\<close>, \<open>MasterNode\<close> and \<open>SatelliteNode\<close>, with the shim's
  session state, and the in-process wiring of \<open>hivescope/plugins/network.py\<close>.

  Nodes and connections are objects with identity, so the world maps object numbers to their
  state: one \<open>HiveMindClientConnection\<close> is shared by a master (in \<open>clients\<close>) and a satellite
  (in \<open>_connection\<close>). Each method that can call \<open>_deliver\<close> is a program of the delivery pump
  over this world, statement by statement; \<open>self\<close> attributes are read when the statement
  runs, also inside a lambda that runs later.

  hivemind-core and the client library are not part of the repository. They appear as the
  fields of the record \<open>core\<close>: what a decode returns, what the handlers for a message do,
  which frames a send writes, how a peer name is formed. The two facts the source documents
  about them are built in: a send holds the transport's lock around its raw writes, and
  \<open>handle_client_disconnected\<close> ends by calling the connection's \<open>disconnect\<close>.
\<close>

section \<open>State\<close>

type_synonym hive_message = "string \<times> pyval"

text \<open>The attributes of a connection that the source passes to the constructor or reads.
  \<open>c_sat\<close> is the satellite whose bound methods are its \<open>send_msg\<close> and \<open>disconnect\<close>.\<close>

record 't connection =
  c_key :: string
  c_name :: string
  c_peer :: string
  c_sat :: nat
  c_has_password :: bool
  c_is_admin :: bool
  c_can_escalate :: bool
  c_can_propagate :: bool
  c_can_broadcast :: bool
  c_allowed_types :: "string list"
  c_noise :: "'t option"

text \<open>\<open>TestNetworkProtocol\<close>, or \<open>LoopbackNetworkProtocol\<close>, whose server is the one in \<open>nets\<close> under the
  master's number.\<close>

datatype network = In_Process | Loopback

text \<open>A satellite: its identity, the shim's session state, the attributes of the slave
  protocol, and the links set by \<open>connect\<close>. A bus and the agent protocol that owns it have one
  number: \<open>s_bus\<close> is the satellite's internal bus, \<open>m_agent\<close> a master's agent protocol.
  \<open>m_network\<close> is the class of its network protocol,
  \<open>m_upstream\<close> is the satellite whose slave protocol was given to \<open>bind_upstream\<close>, and
  \<open>s_tmpdir\<close>, \<open>m_tmpdir\<close> say whether the identity's temporary directory is still there.\<close>

record 't satellite =
  s_name :: string
  s_access_key :: string
  s_password :: "string option"
  s_site_id :: string
  s_session_id :: string
  s_conn :: "nat option"
  s_master :: "nat option"
  s_noise :: "'t option"
  s_crypto_key :: "string option"
  s_handshake :: bool
  s_proto :: "(string, pyval) pydict"
  s_records :: records
  s_bus :: nat
  s_share_bus :: bool
  s_tmpdir :: bool

record master =
  m_name :: string
  m_db :: client_db
  m_clients :: "(string, nat) pydict"
  m_records :: records
  m_agent :: nat
  m_upstream :: "nat option"
  m_tmpdir :: bool
  m_network :: network

record 't hive =
  sats :: "nat \<Rightarrow> 't satellite"
  masters :: "nat \<Rightarrow> master"
  conns :: "nat \<Rightarrow> 't connection"
  next_conn :: nat
  now :: int
  nets :: net_world

text \<open>What the libraries do, as parameters. \<open>core_server\<close> is how the operating system answers the start of
  a master's loopback server (an error of the configuration file, and how the server thread comes up), and
  \<open>core_joined\<close> whether its thread ends in time when it is stopped.\<close>

record 't core =
  core_decode :: "nat \<Rightarrow> pyval \<Rightarrow> 't hive \<Rightarrow> hive_message result \<times> 't hive"
  core_dispatch :: "nat \<Rightarrow> hive_message \<Rightarrow> 't hive prog"
  core_handle :: "nat \<Rightarrow> hive_message \<Rightarrow> nat \<Rightarrow> 't hive prog"
  core_inject :: "nat \<Rightarrow> pyval \<Rightarrow> nat \<Rightarrow> 't hive prog"
  core_new_client :: "nat \<Rightarrow> nat \<Rightarrow> 't hive prog"
  core_drop :: "nat \<Rightarrow> nat \<Rightarrow> 't hive \<Rightarrow> 't hive"
  core_start_handshake :: "nat \<Rightarrow> 't hive prog"
  core_frames :: "nat \<Rightarrow> hive_message \<Rightarrow> 't hive \<Rightarrow> pyval list"
  core_bus_emit :: "nat \<Rightarrow> pyval \<Rightarrow> 't hive prog"
  core_peer :: "string \<Rightarrow> nat \<Rightarrow> string"
  core_reset :: "((string, pyval) pydict \<Rightarrow> (string, pyval) pydict) option"
  core_bits :: "string \<Rightarrow> string result"
  core_json :: "string \<Rightarrow> pyval result"
  core_error_text :: "py_exn \<Rightarrow> string"
  core_session :: "string \<Rightarrow> string \<Rightarrow> pyval"
  core_bus_payload :: "pyval \<Rightarrow> pyval"
  core_stops :: "nat \<Rightarrow> 't hive prog list"
  core_server :: "nat \<Rightarrow> 't hive \<Rightarrow> py_exn option \<times> boot"
  core_joined :: "nat \<Rightarrow> 't hive \<Rightarrow> bool"

definition upd_sat :: "nat \<Rightarrow> ('t satellite \<Rightarrow> 't satellite) \<Rightarrow> 't hive \<Rightarrow> 't hive" where
  "upd_sat s f w = w\<lparr>sats := (sats w)(s := f (sats w s))\<rparr>"

definition upd_master :: "nat \<Rightarrow> (master \<Rightarrow> master) \<Rightarrow> 't hive \<Rightarrow> 't hive" where
  "upd_master m f w = w\<lparr>masters := (masters w)(m := f (masters w m))\<rparr>"

definition upd_conn :: "nat \<Rightarrow> ('t connection \<Rightarrow> 't connection) \<Rightarrow> 't hive \<Rightarrow> 't hive" where
  "upd_conn c f w = w\<lparr>conns := (conns w)(c := f (conns w c))\<rparr>"

text \<open>\<open>self.recorder.record(...)\<close> of a satellite and of a master.\<close>

definition sat_record :: "nat \<Rightarrow> string \<Rightarrow> string \<Rightarrow> pyval \<Rightarrow> string \<Rightarrow> 't hive \<Rightarrow> 't hive" where
  "sat_record s d mt p pr w =
     upd_sat s (\<lambda>x. x\<lparr>s_records := s_records x @ [mk_record d mt p pr (now w)]\<rparr>) w"

definition master_record :: "nat \<Rightarrow> string \<Rightarrow> string \<Rightarrow> pyval \<Rightarrow> string \<Rightarrow> 't hive \<Rightarrow> 't hive" where
  "master_record m d mt p pr w =
     upd_master m (\<lambda>x. x\<lparr>m_records := m_records x @ [mk_record d mt p pr (now w)]\<rparr>) w"

section \<open>Satellite: sending\<close>

datatype outgoing = Hive hive_message | Ovos string pyval pyval

text \<open>An OVOS \<open>Message\<close> gets a session unless its context has one, and is wrapped as BUS.
  The context must be a dictionary. \<open>Session(...).serialize()\<close> and the payload that
  \<open>HiveMessage\<close> makes of a \<open>Message\<close> are the library's.\<close>

fun inject_session :: "'t core \<Rightarrow> 't satellite \<Rightarrow> pyval \<Rightarrow> pyval" where
  "inject_session co x (PDict d) =
     (if dget d ''session'' = None
      then PDict (dset ''session''
             (core_session co (s_session_id x)
               (if s_site_id x \<noteq> [] then s_site_id x else ''unknown'')) d)
      else PDict d)"
| "inject_session co x c = c"

fun wrap_outgoing :: "'t core \<Rightarrow> 't satellite \<Rightarrow> outgoing \<Rightarrow> hive_message" where
  "wrap_outgoing co x (Hive m) = m"
| "wrap_outgoing co x (Ovos t d c) = (hive_value BUS, core_bus_payload co (PMsg t d (inject_session co x c)))"

text \<open>\<open>_recording_handle\<close>: record, then the original \<open>handle_message\<close>.\<close>

definition recording_handle :: "'t core \<Rightarrow> nat \<Rightarrow> hive_message \<Rightarrow> nat \<Rightarrow> 't hive prog" where
  "recording_handle co m msg c =
     Dyn (\<lambda>w. Upd (master_record m ''in'' (fst msg) (snd msg) (c_peer (conns w c)))
                  (core_handle co m msg c))"

text \<open>\<open>_recording_inject\<close>: the same for a message that reaches the agent bus.\<close>

definition recording_inject ::
    "'t core \<Rightarrow> nat \<Rightarrow> string \<Rightarrow> pyval \<Rightarrow> pyval \<Rightarrow> nat \<Rightarrow> 't hive prog" where
  "recording_inject co m t d ctx c =
     Dyn (\<lambda>w. Upd (master_record m ''bus_inject'' t (PMsg t d ctx) (c_peer (conns w c)))
                  (core_inject co m (PMsg t d ctx) c))"

text \<open>The lambda of \<open>send\<close>: \<open>self._master\<close> and \<open>self._connection\<close> are read when it runs; \<open>None\<close>
  has neither \<open>hm_protocol\<close> nor \<open>peer\<close>.\<close>

definition send_lambda :: "'t core \<Rightarrow> nat \<Rightarrow> hive_message \<Rightarrow> 't hive prog" where
  "send_lambda co s msg = Dyn (\<lambda>w.
     case s_master (sats w s) of
       None \<Rightarrow> Throw AttributeError
     | Some m \<Rightarrow> (case s_conn (sats w s) of
                   None \<Rightarrow> Throw AttributeError
                 | Some c \<Rightarrow> recording_handle co m msg c))"

definition sat_send :: "'t core \<Rightarrow> nat \<Rightarrow> outgoing \<Rightarrow> 't hive prog" where
  "sat_send co s out = Dyn (\<lambda>w.
     let msg = wrap_outgoing co (sats w s) out in
     if s_master (sats w s) = None \<or> s_conn (sats w s) = None then Throw RuntimeError
     else Upd (sat_record s ''out'' (fst msg) (snd msg) ''master'')
            (Deliver (send_lambda co s msg) Ret))"

section \<open>Satellite: receiving\<close>

definition set_noise :: "nat \<Rightarrow> 't option \<Rightarrow> 't hive \<Rightarrow> 't hive" where
  "set_noise c t w = upd_conn c (\<lambda>x. x\<lparr>c_noise := t\<rparr>) w"

definition decode_and_dispatch :: "'t core \<Rightarrow> nat \<Rightarrow> nat \<Rightarrow> string \<Rightarrow> pyval \<Rightarrow> 't hive prog" where
  "decode_and_dispatch co s c pr frm = Dyn (\<lambda>w.
     let saved = c_noise (conns w c) in
     Upd (set_noise c (s_noise (sats w s))) (Dyn (\<lambda>w1.
       case core_decode co c frm w1 of
         (Inl e, w2) \<Rightarrow>
           Upd (\<lambda>_. w2)
             (Upd (sat_record s ''in'' ''_decode_error''
                     (PDict [(''error'', PStr (core_error_text co e))]) pr)
               (Upd (set_noise c saved) Ret))
       | (Inr msg, w2) \<Rightarrow>
           Upd (\<lambda>_. w2)
             (Upd (set_noise c saved)
               (Upd (sat_record s ''in'' (fst msg) (snd msg) pr) (core_dispatch co s msg))))))"

definition receive_raw :: "'t core \<Rightarrow> nat \<Rightarrow> pyval \<Rightarrow> 't hive prog" where
  "receive_raw co s frm = Dyn (\<lambda>w.
     case s_conn (sats w s) of
       None \<Rightarrow> Ret
     | Some c \<Rightarrow> Deliver (decode_and_dispatch co s c (c_peer (conns w c)) frm) Ret)"

section \<open>Master: sending\<close>

fun has_infix :: "string \<Rightarrow> string \<Rightarrow> bool" where
  "has_infix xs [] = (xs = [])"
| "has_infix xs (y # ys) = (take (length xs) (y # ys) = xs \<or> has_infix xs ys)"

text \<open>The best-effort type of an outbound frame for the record. (The wire type of a frame is a
  string; a frame with any other value under \<open>msg_type\<close> is not distinguished from a raw one.)\<close>

definition frame_type :: "'t core \<Rightarrow> pyval \<Rightarrow> string" where
  "frame_type co frm =
     (case frm of
        PBytes b \<Rightarrow> (case core_bits co b of Inl e \<Rightarrow> ''_raw'' | Inr mt \<Rightarrow> mt)
      | PStr t \<Rightarrow>
          (if has_infix ''ciphertext'' t then ''_encrypted''
           else (case core_json co t of
                   Inr (PDict d) \<Rightarrow> (case dget d ''msg_type'' of
                                       None \<Rightarrow> ''_unknown'' | Some (PStr mt) \<Rightarrow> mt | Some _ \<Rightarrow> ''_raw'')
                 | _ \<Rightarrow> ''_raw''))
      | _ \<Rightarrow> ''_raw'')"

text \<open>\<open>_recording_send_msg\<close>: record the frame, then the satellite's \<open>_receive_raw\<close>.\<close>

definition recording_send_msg :: "'t core \<Rightarrow> nat \<Rightarrow> nat \<Rightarrow> pyval \<Rightarrow> 't hive prog" where
  "recording_send_msg co m c frm = Dyn (\<lambda>w.
     Upd (master_record m ''out'' (frame_type co frm) frm (c_peer (conns w c)))
       (receive_raw co (c_sat (conns w c)) frm))"

text \<open>A connection's \<open>send\<close> as instrumented: pumped; the frames are those of the state at
  that moment and are written under the transport's lock.\<close>

definition conn_send :: "'t core \<Rightarrow> nat \<Rightarrow> nat \<Rightarrow> hive_message \<Rightarrow> 't hive prog" where
  "conn_send co m c msg =
     Pumped (Dyn (\<lambda>w. Locked c (pfor (core_frames co c msg w) (recording_send_msg co m c)) Ret)) Ret"

definition send_to_satellite :: "'t core \<Rightarrow> nat \<Rightarrow> string \<Rightarrow> hive_message \<Rightarrow> 't hive prog" where
  "send_to_satellite co m pr msg = Dyn (\<lambda>w.
     case dget (m_clients (masters w m)) pr of
       None \<Rightarrow> Throw KeyError
     | Some c \<Rightarrow> Deliver (conn_send co m c msg) Ret)"

definition send_to_all :: "'t core \<Rightarrow> nat \<Rightarrow> hive_message \<Rightarrow> 't hive prog" where
  "send_to_all co m msg =
     Deliver (Dyn (\<lambda>w. pfor (dvals (m_clients (masters w m))) (\<lambda>c. conn_send co m c msg))) Ret"

definition emit_on_bus :: "'t core \<Rightarrow> nat \<Rightarrow> pyval \<Rightarrow> 't hive prog" where
  "emit_on_bus co m msg = Deliver (core_bus_emit co m msg) Ret"

definition connected_peers :: "nat \<Rightarrow> 't hive \<Rightarrow> string list" where
  "connected_peers m w = dkeys (m_clients (masters w m))"

definition sat_peer :: "nat \<Rightarrow> 't hive \<Rightarrow> string option" where
  "sat_peer s w = map_option (\<lambda>c. c_peer (conns w c)) (s_conn (sats w s))"

section \<open>Connection life cycle\<close>

text \<open>The fallback of \<open>_forget_session\<close> for a client library without
  \<open>reset_connection_state\<close>: each attribute is set if it exists.\<close>

definition legacy_attrs :: "(string \<times> pyval) list" where
  "legacy_attrs = [(''_noise_established'', PBool False), (''noise_handshake'', PNone),
     (''_noise_pattern'', PNone), (''_server_hello_payload'', PNone),
     (''_server_handshake_payload'', PNone)]"

definition legacy_reset :: "(string, pyval) pydict \<Rightarrow> (string, pyval) pydict" where
  "legacy_reset proto =
     fold (\<lambda>(a, v) d. if dget d a \<noteq> None then dset a v d else d) legacy_attrs proto"

definition reset_proto :: "'t core \<Rightarrow> (string, pyval) pydict \<Rightarrow> (string, pyval) pydict" where
  "reset_proto co = (case core_reset co of Some f \<Rightarrow> f | None \<Rightarrow> legacy_reset)"

definition forget_session :: "'t core \<Rightarrow> nat \<Rightarrow> 't hive \<Rightarrow> 't hive" where
  "forget_session co s = upd_sat s (\<lambda>x. x\<lparr>s_conn := None, s_noise := None, s_crypto_key := None,
     s_handshake := False, s_proto := reset_proto co (s_proto x)\<rparr>)"

text \<open>
  \<open>_on_disconnect\<close>, the \<open>disconnect\<close> callback of a connection, and hivemind-core's
  \<open>handle_client_disconnected\<close>, which does its own bookkeeping and then calls that callback.
  The two call each other; \<open>n\<close> bounds the nesting, and running out of it is an error of its
  own, which \<open>Throw\<close>s.
\<close>

fun on_disconnect :: "nat \<Rightarrow> 't core \<Rightarrow> nat \<Rightarrow> 't hive prog"
  and client_disconnected :: "nat \<Rightarrow> 't core \<Rightarrow> nat \<Rightarrow> nat \<Rightarrow> 't hive prog" where
  "on_disconnect 0 co s = Throw (OtherError ''nesting'')"
| "on_disconnect (Suc n) co s = Dyn (\<lambda>w.
     let conn = s_conn (sats w s); master = s_master (sats w s) in
     Upd (upd_sat s (\<lambda>x. x\<lparr>s_conn := None, s_master := None\<rparr>)) (Dyn (\<lambda>w1.
       pseq (case (conn, master) of
               (Some c, Some m) \<Rightarrow>
                 (if c_peer (conns w1 c) \<in> set (dkeys (m_clients (masters w1 m)))
                  then client_disconnected n co m c else Ret)
             | _ \<Rightarrow> Ret)
         (Upd (forget_session co s) Ret))))"
| "client_disconnected 0 co m c = Throw (OtherError ''nesting'')"
| "client_disconnected (Suc n) co m c =
     Upd (core_drop co m c) (Dyn (\<lambda>w. on_disconnect n co (c_sat (conns w c))))"

text \<open>Enough nesting: the second \<open>_on_disconnect\<close> finds both attributes \<open>None\<close>.\<close>

definition disconnect_nesting :: nat where
  "disconnect_nesting = 5"

definition sat_disconnect :: "'t core \<Rightarrow> nat \<Rightarrow> 't hive prog" where
  "sat_disconnect co s = Dyn (\<lambda>w.
     pseq (case (s_conn (sats w s), s_master (sats w s)) of
             (Some c, Some m) \<Rightarrow> client_disconnected disconnect_nesting co m c
           | _ \<Rightarrow> Ret)
       (Upd (forget_session co s) Ret))"

text \<open>The keyword arguments of \<open>connect\<close>.\<close>

record connect_args =
  k_is_admin :: bool
  k_can_escalate :: bool
  k_can_propagate :: bool
  k_can_broadcast :: bool
  k_allowed_types :: "string list option"
  k_msg_blacklist :: "string list option"
  k_skill_blacklist :: "string list option"
  k_intent_blacklist :: "string list option"

definition default_args :: connect_args where
  "default_args = \<lparr>k_is_admin = False, k_can_escalate = True, k_can_propagate = True,
     k_can_broadcast = True, k_allowed_types = None, k_msg_blacklist = None,
     k_skill_blacklist = None, k_intent_blacklist = None\<rparr>"

definition register_args :: "string \<Rightarrow> string option \<Rightarrow> connect_args \<Rightarrow> add_args" where
  "register_args key pw k = \<lparr>a_name = ''test-satellite'', a_key = key, a_admin = k_is_admin k,
     a_intent_blacklist = k_intent_blacklist k, a_skill_blacklist = k_skill_blacklist k,
     a_message_blacklist = k_msg_blacklist k, a_allowed_types = k_allowed_types k,
     a_password = pw, a_can_escalate = k_can_escalate k, a_can_propagate = k_can_propagate k,
     a_can_broadcast = k_can_broadcast k\<rparr>"

definition register_satellite ::
    "nat \<Rightarrow> string \<Rightarrow> string option \<Rightarrow> connect_args \<Rightarrow> 't hive \<Rightarrow> 't hive" where
  "register_satellite m key pw k =
     upd_master m (\<lambda>x. x\<lparr>m_db := snd (add_client (register_args key pw k) (m_db x))\<rparr>)"

text \<open>\<open>TestNetworkProtocol.connect_satellite\<close>: the connection object is made from the database
  row and stored on the satellite before the master greets the client. A loopback network has no such
  method: its clients come through the socket.\<close>

definition new_connection :: "'t core \<Rightarrow> 't satellite \<Rightarrow> nat \<Rightarrow> nat \<Rightarrow> client \<Rightarrow> 't connection" where
  "new_connection co x s c row = \<lparr>
     c_key = s_access_key x, c_name = s_name x, c_peer = core_peer co (s_name x) c, c_sat = s,
     c_has_password = given_password (cl_password row), c_is_admin = is_admin row,
     c_can_escalate = can_escalate row, c_can_propagate = can_propagate row,
     c_can_broadcast = can_broadcast row, c_allowed_types = allowed_types row, c_noise = None\<rparr>"

definition attach :: "'t core \<Rightarrow> nat \<Rightarrow> client \<Rightarrow> 't hive \<Rightarrow> 't hive" where
  "attach co s row w =
     (let c = next_conn w in
      upd_sat s (\<lambda>x. x\<lparr>s_conn := Some c\<rparr>)
        (w\<lparr>conns := (conns w)(c := new_connection co (sats w s) s c row), next_conn := c + 1\<rparr>))"

definition connect_satellite :: "'t core \<Rightarrow> nat \<Rightarrow> nat \<Rightarrow> 't hive prog" where
  "connect_satellite co m s = Dyn (\<lambda>w.
     if m_network (masters w m) = Loopback then Throw AttributeError
     else case get_client_by_api_key (m_db (masters w m)) (s_access_key (sats w s)) of
       None \<Rightarrow> Throw ValueError
     | Some row \<Rightarrow> Upd (attach co s row) (core_new_client co m (next_conn w)))"

definition sat_connect :: "'t core \<Rightarrow> nat \<Rightarrow> nat \<Rightarrow> connect_args \<Rightarrow> 't hive prog" where
  "sat_connect co s m k =
     Upd (upd_sat s (\<lambda>x. x\<lparr>s_master := Some m\<rparr>)) (Dyn (\<lambda>w.
       Upd (register_satellite m (s_access_key (sats w s)) (s_password (sats w s)) k)
         (Deliver (connect_satellite co m s) (Dyn (\<lambda>w1.
           pseq (if s_handshake (sats w1 s) then Ret
                 else Deliver (core_start_handshake co s) Ret)
             (Dyn (\<lambda>w2. if s_handshake (sats w2 s) then Ret else Throw RuntimeError)))))))"

section \<open>Every node program keeps the lock discipline\<close>

text \<open>The libraries' handlers send only through the connections' \<open>send\<close> and the satellites'
  \<open>send\<close>, and never call out while they hold a transport lock.\<close>

definition core_ok :: "'t core \<Rightarrow> bool" where
  "core_ok co \<longleftrightarrow> (\<forall>s msg. safe (core_dispatch co s msg)) \<and> (\<forall>m msg c. safe (core_handle co m msg c))
     \<and> (\<forall>m c. safe (core_new_client co m c)) \<and> (\<forall>s. safe (core_start_handshake co s))
     \<and> (\<forall>m msg. safe (core_bus_emit co m msg)) \<and> (\<forall>m v c. safe (core_inject co m v c))"

lemma core_okD [prog_ok]:
  "core_ok co \<Longrightarrow> safe (core_dispatch co s msg)" "core_ok co \<Longrightarrow> safe (core_handle co m msg c)"
  "core_ok co \<Longrightarrow> safe (core_new_client co m c)" "core_ok co \<Longrightarrow> safe (core_start_handshake co s)"
  "core_ok co \<Longrightarrow> safe (core_bus_emit co m v)" "core_ok co \<Longrightarrow> safe (core_inject co m v c)"
  unfolding core_ok_def by blast+

lemma safe_send_lambda [prog_ok]: "core_ok co \<Longrightarrow> safe (send_lambda co s msg)"
  by (auto simp: send_lambda_def recording_handle_def core_okD split: option.split)

lemma safe_sat_send [prog_ok]: "core_ok co \<Longrightarrow> safe (sat_send co s out)"
  by (auto simp: sat_send_def Let_def safe_send_lambda)

lemma safe_decode [prog_ok]: "core_ok co \<Longrightarrow> safe (decode_and_dispatch co s c pr frm)"
  by (auto simp: decode_and_dispatch_def Let_def core_okD split: prod.split sum.split)

lemma receive_raw_ok [prog_ok]:
  "core_ok co \<Longrightarrow> safe (receive_raw co s frm)" "wire (receive_raw co s frm)"
  "rooted (receive_raw co s frm)"
  by (auto simp: receive_raw_def safe_decode split: option.split)

lemma recording_send_msg_ok [prog_ok]:
  "core_ok co \<Longrightarrow> safe (recording_send_msg co m c frm)" "wire (recording_send_msg co m c frm)"
  by (auto simp: recording_send_msg_def receive_raw_ok)

lemma conn_send_ok [prog_ok]:
  "core_ok co \<Longrightarrow> safe (conn_send co m c msg)" "rooted (conn_send co m c msg)"
  by (auto simp: conn_send_def recording_send_msg_ok intro: wire_pfor safe_pfor)

lemma disconnect_ok_all:
  "(\<forall>s. safe (on_disconnect n co s) \<and> rooted (on_disconnect n co s))
   \<and> (\<forall>m c. safe (client_disconnected n co m c) \<and> rooted (client_disconnected n co m c))"
  by (induction n) (auto simp: Let_def intro!: safe_pseq rooted_pseq split: option.split)

lemma disconnect_ok:
  "safe (on_disconnect n co s) \<and> rooted (on_disconnect n co s)"
  "safe (client_disconnected n co m c) \<and> rooted (client_disconnected n co m c)"
  using disconnect_ok_all by blast+

lemma sat_disconnect_ok [prog_ok]: "safe (sat_disconnect co s)" "rooted (sat_disconnect co s)"
  by (auto simp: sat_disconnect_def disconnect_ok intro!: safe_pseq rooted_pseq split: option.split)

lemma connect_satellite_ok [prog_ok]: "core_ok co \<Longrightarrow> safe (connect_satellite co m s)"
  by (auto simp: connect_satellite_def core_okD split: option.split)

lemma sat_connect_ok [prog_ok]:
  "core_ok co \<Longrightarrow> safe (sat_connect co s m k)" "rooted (sat_connect co s m k)"
  by (auto simp: sat_connect_def connect_satellite_ok core_okD intro!: safe_pseq rooted_pseq)

section \<open>Entry points\<close>

text \<open>The calls a test makes on nodes and connections from outside any delivery.\<close>

datatype entry =
    ESend nat outgoing
  | EConnect nat nat connect_args
  | EDisconnect nat
  | EOnDisconnect nat
  | ESendTo nat string hive_message
  | ESendAll nat hive_message
  | EEmit nat pyval
  | EConnSend nat nat hive_message

fun entry_prog :: "'t core \<Rightarrow> entry \<Rightarrow> 't hive prog" where
  "entry_prog co (ESend s out) = sat_send co s out"
| "entry_prog co (EConnect s m k) = sat_connect co s m k"
| "entry_prog co (EDisconnect s) = sat_disconnect co s"
| "entry_prog co (EOnDisconnect s) = on_disconnect disconnect_nesting co s"
| "entry_prog co (ESendTo m pr msg) = send_to_satellite co m pr msg"
| "entry_prog co (ESendAll m msg) = send_to_all co m msg"
| "entry_prog co (EEmit m msg) = emit_on_bus co m msg"
| "entry_prog co (EConnSend m c msg) = conn_send co m c msg"

lemma entry_prog_ok:
  assumes "core_ok co"
  shows "safe (entry_prog co e) \<and> rooted (entry_prog co e)"
  using assms
  by (cases e) (auto simp: prog_ok disconnect_ok send_to_satellite_def send_to_all_def
      emit_on_bus_def sat_send_def Let_def intro: safe_pfor split: option.split)

text \<open>A test: calls one after the other on one thread, each run to its end.\<close>

inductive calls_end :: "'t core \<Rightarrow> 't hive pump \<Rightarrow> entry list \<Rightarrow> 't hive pump \<Rightarrow> bool" for co where
  ce_nil: "calls_end co c [] c"
| ce_cons: "d = pump_steps n (call (entry_prog co e) c) \<Longrightarrow> stack d = [] \<Longrightarrow>
     calls_end co d es d' \<Longrightarrow> calls_end co c (e # es) d'"

definition quiet :: "'w pump \<Rightarrow> bool" where
  "quiet c \<longleftrightarrow> idle c \<and> (\<forall>q \<in> set (queue c). safe q)"

lemma quiet_new [simp]: "quiet (new_pump w)"
  by (simp add: quiet_def idle_def new_pump_def)

lemma entry_call_ends:
  assumes "core_ok co" and "quiet c"
  shows "\<exists>n. stack (pump_steps n (call (entry_prog co e) c)) = []
    \<and> quiet (pump_steps n (call (entry_prog co e) c))"
proof -
  let ?c = "call (entry_prog co e) c"
  have r: "rooted_call ?c"
    using assms entry_prog_ok [OF assms(1), of e] by (auto simp: rooted_call_def quiet_def)
  obtain n where n: "pump_step (pump_steps n ?c) = None" using pump_stops by blast
  have "lock_inv (pump_steps n ?c)" using r reaches_steps by (rule lk.inv_reachable)
  moreover from this n have st: "stack (pump_steps n ?c) = []" using lock_inv_progress by fastforce
  moreover have "fifo_inv (pump_steps n ?c)"
    using assms(2) reaches_steps [of "call (entry_prog co e) c" n]
    unfolding quiet_def by (blast intro: ff.inv_reachable)
  ultimately show ?thesis
    by (intro exI [of _ n]) (auto simp: quiet_def idle_def lock_inv_def fifo_inv_def split: if_splits)
qed

lemma calls_end_all:
  "core_ok co \<Longrightarrow> quiet c \<Longrightarrow> \<exists>d. calls_end co c es d \<and> quiet d"
proof (induction es arbitrary: c)
  case Nil
  then show ?case by (blast intro: ce_nil)
next
  case (Cons e es)
  then obtain n where n: "stack (pump_steps n (call (entry_prog co e) c)) = []"
    "quiet (pump_steps n (call (entry_prog co e) c))"
    using entry_call_ends by blast
  with Cons obtain d where "calls_end co (pump_steps n (call (entry_prog co e) c)) es d" "quiet d"
    by blast
  with n show ?case by (blast intro: ce_cons)
qed

section \<open>What the node programs change\<close>

lemma upd_sels [simp]:
  "sats (upd_sat s f w) = (sats w)(s := f (sats w s))" "masters (upd_sat s f w) = masters w"
  "conns (upd_sat s f w) = conns w" "now (upd_sat s f w) = now w"
  "next_conn (upd_sat s f w) = next_conn w"
  "sats (upd_master m g w) = sats w" "masters (upd_master m g w) = (masters w)(m := g (masters w m))"
  "conns (upd_master m g w) = conns w" "now (upd_master m g w) = now w"
  "next_conn (upd_master m g w) = next_conn w"
  "sats (upd_conn c h w) = sats w" "masters (upd_conn c h w) = masters w"
  "conns (upd_conn c h w) = (conns w)(c := h (conns w c))" "now (upd_conn c h w) = now w"
  "nets (upd_sat s f w) = nets w" "nets (upd_master m g w) = nets w" "nets (upd_conn c h w) = nets w"
  by (simp_all add: upd_sat_def upd_master_def upd_conn_def)

lemmas node_defs = sat_record_def master_record_def set_noise_def forget_session_def

text \<open>Nothing happened to the network protocols.\<close>

definition same_networks :: "'t hive \<Rightarrow> 't hive \<Rightarrow> bool" where
  "same_networks w w' \<longleftrightarrow> nets w' = nets w \<and> (\<forall>m. m_network (masters w' m) = m_network (masters w m))"

lemma same_networks_simps [simp]:
  "same_networks w w" "same_networks w (upd_sat s g v) = same_networks w v"
  "same_networks w (forget_session co s v) = same_networks w v"
  "(\<And>x. m_network (f x) = m_network x) \<Longrightarrow> same_networks w (upd_master m f v) = same_networks w v"
  by (auto simp: same_networks_def forget_session_def)

lemma same_networks_trans: "same_networks u v \<Longrightarrow> same_networks v w \<Longrightarrow> same_networks u w"
  by (simp add: same_networks_def)

text \<open>What the source says of \<open>handle_client_disconnected\<close>: its bookkeeping is the master's; it
  touches no satellite, connection object or network protocol. \<open>drop_removes\<close>: the peer leaves \<open>clients\<close>.\<close>

definition drop_ok :: "'t core \<Rightarrow> bool" where
  "drop_ok co \<longleftrightarrow> (\<forall>m c w. sats (core_drop co m c w) = sats w \<and> conns (core_drop co m c w) = conns w
     \<and> same_networks w (core_drop co m c w))"

definition drop_removes :: "'t core \<Rightarrow> bool" where
  "drop_removes co \<longleftrightarrow> (\<forall>m c w. c_peer (conns w c)
     \<notin> set (dkeys (m_clients (masters (core_drop co m c w) m))))"

lemma drop_okD [simp]:
  "drop_ok co \<Longrightarrow> sats (core_drop co m c w) = sats w"
  "drop_ok co \<Longrightarrow> same_networks u (core_drop co m c w) = same_networks u w"
  "drop_ok co \<Longrightarrow> conns (core_drop co m c w) = conns w"
  by (simp_all add: drop_ok_def same_networks_def)

text \<open>The connection a satellite holds calls back that satellite.\<close>

definition linked :: "nat \<Rightarrow> 't hive \<Rightarrow> bool" where
  "linked s w \<longleftrightarrow> (\<forall>c. s_conn (sats w s) = Some c \<longrightarrow> c_sat (conns w c) = s)"

definition unlinked :: "'t satellite \<Rightarrow> bool" where
  "unlinked x \<longleftrightarrow> s_conn x = None \<and> s_noise x = None \<and> s_crypto_key x = None \<and> \<not> s_handshake x"

definition sat_identity :: "'t satellite \<Rightarrow> string \<times> string \<times> string option \<times> string \<times> string \<times> records" where
  "sat_identity x = (s_name x, s_access_key x, s_password x, s_site_id x, s_session_id x, s_records x)"

lemma forget_sel [simp]:
  "masters (forget_session co s w) = masters w" "conns (forget_session co s w) = conns w"
  "unlinked (sats (forget_session co s w) s)"
  "sat_identity (sats (forget_session co s w) s) = sat_identity (sats w s)"
  "s_master (sats (forget_session co s w) s) = s_master (sats w s)"
  "s' \<noteq> s \<Longrightarrow> sats (forget_session co s w) s' = sats w s'"
  by (simp_all add: forget_session_def unlinked_def sat_identity_def)

lemma sat_identity_links [simp]:
  "sat_identity (x\<lparr>s_conn := a, s_master := b\<rparr>) = sat_identity x"
  by (simp add: sat_identity_def)

text \<open>The re-entrant call finds both links gone.\<close>

lemma on_disconnect_unlinked:
  "s_conn (sats w s) = None \<Longrightarrow>
   settle (on_disconnect (Suc n) co s) w
     = (Ret, forget_session co s (upd_sat s (\<lambda>x. x\<lparr>s_conn := None, s_master := None\<rparr>) w))"
  by (simp add: Let_def settle_pseq)

lemma on_disconnect_linked:
  assumes "drop_ok co" and "linked s w" and "s_conn (sats w s) = Some c" and "s_master (sats w s) = Some m"
  defines "w1 \<equiv> upd_sat s (\<lambda>x. x\<lparr>s_conn := None, s_master := None\<rparr>) w"
  shows "settle (on_disconnect (Suc (Suc (Suc n))) co s) w =
    (Ret, forget_session co s
       (if c_peer (conns w c) \<in> set (dkeys (m_clients (masters w m)))
        then forget_session co s (upd_sat s (\<lambda>x. x\<lparr>s_conn := None, s_master := None\<rparr>)
               (core_drop co m c w1))
        else w1))"
  using assms by (simp add: Let_def settle_pseq linked_def)

lemma disconnect_settles:
  assumes "drop_ok co" and "linked s w"
  shows "\<exists>w'. settle (sat_disconnect co s) w = (Ret, w') \<and> unlinked (sats w' s) \<and> conns w' = conns w
    \<and> sat_identity (sats w' s) = sat_identity (sats w s)
    \<and> (\<forall>s'. s' \<noteq> s \<longrightarrow> sats w' s' = sats w s') \<and> same_networks w w'
    \<and> (drop_removes co \<longrightarrow> masters w' = (case (s_conn (sats w s), s_master (sats w s)) of
         (Some c, Some m) \<Rightarrow> masters (core_drop co m c w) | _ \<Rightarrow> masters w))"
proof (cases "s_conn (sats w s) = None \<or> s_master (sats w s) = None")
  case True
  then have "settle (sat_disconnect co s) w = (Ret, forget_session co s w)"
    by (auto simp: sat_disconnect_def split: option.split)
  with True show ?thesis by (auto split: option.split)
next
  case False
  then obtain c m where cm: "s_conn (sats w s) = Some c" "s_master (sats w s) = Some m" by auto
  let ?w = "core_drop co m c w"
  have on: "settle (on_disconnect (Suc (Suc (Suc (Suc 0)))) co s) ?w = (Ret, forget_session co s
      (if c_peer (conns w c) \<in> set (dkeys (m_clients (masters ?w m)))
       then forget_session co s (upd_sat s (\<lambda>x. x\<lparr>s_conn := None, s_master := None\<rparr>)
         (core_drop co m c (upd_sat s (\<lambda>x. x\<lparr>s_conn := None, s_master := None\<rparr>) ?w)))
       else upd_sat s (\<lambda>x. x\<lparr>s_conn := None, s_master := None\<rparr>) ?w))" (is "_ = (Ret, ?v)")
    using on_disconnect_linked [of co s ?w c m "Suc 0"] assms cm by (simp add: linked_def)
  have "settle (sat_disconnect co s) w = (Ret, forget_session co s ?v)"
    using on assms cm
    by (simp add: sat_disconnect_def disconnect_nesting_def eval_nat_numeral settle_pseq linked_def
        del: on_disconnect.simps)
  moreover have "sat_identity (sats ?v s) = sat_identity (sats w s)"
    "\<forall>s'. s' \<noteq> s \<longrightarrow> sats ?v s' = sats w s'" "conns ?v = conns w" "same_networks w ?v"
    using assms by simp_all
  ultimately show ?thesis using cm by (auto simp: drop_removes_def)
qed

text \<open>The stages of \<open>connect\<close>: the world after the registration, and what is left to do after the
  network protocol returns.\<close>

definition registered :: "nat \<Rightarrow> nat \<Rightarrow> connect_args \<Rightarrow> 't hive \<Rightarrow> 't hive" where
  "registered s m a w = register_satellite m (s_access_key (sats w s)) (s_password (sats w s)) a
     (upd_sat s (\<lambda>x. x\<lparr>s_master := Some m\<rparr>) w)"

definition check_handshake :: "nat \<Rightarrow> 't hive prog" where
  "check_handshake s = Dyn (\<lambda>w. if s_handshake (sats w s) then Ret else Throw RuntimeError)"

definition finish_connect :: "'t core \<Rightarrow> nat \<Rightarrow> 't hive prog" where
  "finish_connect co s = Dyn (\<lambda>w. pseq (if s_handshake (sats w s) then Ret
     else Deliver (core_start_handshake co s) Ret) (check_handshake s))"

lemma registered_sel [simp]:
  "next_conn (registered s m a w) = next_conn w" "s_master (sats (registered s m a w) s) = Some m"
  "s_access_key (sats (registered s m a w) s) = s_access_key (sats w s)"
  "s_handshake (sats (registered s m a w) s) = s_handshake (sats w s)"
  "m_network (masters (registered s m a w) k) = m_network (masters w k)"
  by (simp_all add: registered_def register_satellite_def)

lemma settle_connect:
  "settle (sat_connect co s m a) w
     = (Deliver (connect_satellite co m s) (finish_connect co s), registered s m a w)"
  by (simp add: sat_connect_def finish_connect_def check_handshake_def registered_def)

lemma registered_lookup:
  "get_client_by_api_key (m_db (masters (registered s m a w) m)) (s_access_key (sats w s))
     = get_client_by_api_key
         (snd (add_client (register_args (s_access_key (sats w s)) (s_password (sats w s)) a)
           (m_db (masters w m)))) (s_access_key (sats w s))"
  by (simp add: registered_def register_satellite_def)

lemma registered_row:
  "\<exists>row. get_client_by_api_key (m_db (masters (registered s m a w) m)) (s_access_key (sats w s)) = Some row
    \<and> is_admin row = k_is_admin a \<and> can_escalate row = k_can_escalate a
    \<and> can_propagate row = k_can_propagate a \<and> can_broadcast row = k_can_broadcast a
    \<and> allowed_types row = (case k_allowed_types a of Some ts \<Rightarrow> ts
      | None \<Rightarrow> (case get_client_by_api_key (m_db (masters w m)) (s_access_key (sats w s)) of
                  None \<Rightarrow> [] | Some old \<Rightarrow> allowed_types old))"
proof -
  let ?args = "register_args (s_access_key (sats w s)) (s_password (sats w s)) a"
  let ?db = "m_db (masters w m)"
  have k: "a_key ?args = s_access_key (sats w s)" by (simp add: register_args_def)
  obtain row where row: "get_client_by_api_key (snd (add_client ?args ?db)) (a_key ?args) = Some row"
    using db.add_found by blast
  have "allowed_types row = (case k_allowed_types a of Some ts \<Rightarrow> ts
      | None \<Rightarrow> (case get_client_by_api_key ?db (a_key ?args) of
                  None \<Rightarrow> [] | Some old \<Rightarrow> allowed_types old))"
  proof (cases "a_allowed_types ?args")
    case (Some ts)
    with db.add_whitelist [OF row] show ?thesis by (simp add: register_args_def)
  next
    case none: None
    then have n: "k_allowed_types a = None" by (simp add: register_args_def)
    show ?thesis
    proof (cases "get_client_by_api_key ?db (a_key ?args)")
      case None
      from db.add_new [OF this] row obtain i where "row = fresh_client ?args i" by auto
      with none n None show ?thesis by (simp add: fresh_client_def)
    next
      case (Some old)
      with db.add_whitelist_kept [OF this none row] n show ?thesis by simp
    qed
  qed
  moreover have "is_admin row = k_is_admin a \<and> can_escalate row = k_can_escalate a
      \<and> can_propagate row = k_can_propagate a \<and> can_broadcast row = k_can_broadcast a"
    using db.add_flags [OF row] by (simp add: register_args_def)
  ultimately show ?thesis
    using row unfolding registered_lookup k by blast
qed

text \<open>From an idle thread, \<open>connect\<close> starts the network protocol's \<open>connect_satellite\<close> at once,
  and that greets the client on the connection it has just attached.\<close>

definition connecting :: "'t core \<Rightarrow> nat \<Rightarrow> nat \<Rightarrow> connect_args \<Rightarrow> 't hive pump \<Rightarrow> 't hive pump" where
  "connecting co s m a c = c\<lparr>raising := None, world := registered s m a (world c),
     draining := True, queue := [], enqueued := enqueued c @ [connect_satellite co m s],
     started := started c @ [connect_satellite co m s],
     stack := [FProg (connect_satellite co m s), FDrain, FProg (finish_connect co s)]\<rparr>"

lemma connecting_sel [simp]:
  "raising (connecting co s m a c) = None" "draining (connecting co s m a c)"
  "queue (connecting co s m a c) = []" "world (connecting co s m a c) = registered s m a (world c)"
  "stack (connecting co s m a c) = [FProg (connect_satellite co m s), FDrain, FProg (finish_connect co s)]"
  by (simp_all add: connecting_def)

lemma connect_starts:
  assumes "idle c" and "queue c = []"
  shows "leads_to (call (sat_connect co s m a) c) (connecting co s m a c)"
  using settle_starts [of "sat_connect co s m a" "call (sat_connect co s m a) c" _ _ _ "[]",
      OF settle_connect] assms
  by (simp add: call_def idle_def connecting_def)

lemma connect_greets:
  assumes "get_client_by_api_key (m_db (masters (registered s m a (world c)) m))
    (s_access_key (sats (world c) s)) = Some row" and "m_network (masters (world c) m) = In_Process"
  shows "leads_to (connecting co s m a c) (connecting co s m a c\<lparr>
    world := attach co s row (registered s m a (world c)),
    stack := [FProg (core_new_client co m (next_conn (world c))), FDrain, FProg (finish_connect co s)]\<rparr>)"
    (is "leads_to ?c ?d")
proof -
  have s1: "pump_step ?c = Some (?c\<lparr>stack := [FProg (Upd (attach co s row)
      (core_new_client co m (next_conn (world c)))), FDrain, FProg (finish_connect co s)]\<rparr>)" (is "_ = Some ?e")
    using assms by (simp add: pump_step_def connect_satellite_def)
  have s2: "pump_step ?e = Some ?d" by (simp add: pump_step_def)
  show ?thesis by (rule leads_step [OF s1 leads_step [OF s2 leads_refl]])
qed

section \<open>Properties\<close>

text \<open>A small instance of the libraries: a hub that greets by completing the handshake, decodes
  every frame to a BUS message, and ignores what it is told.\<close>

definition quiet_core :: "unit core" where
  "quiet_core = \<lparr>
     core_decode = (\<lambda>c f w. (Inr (''bus'', f), w)), core_dispatch = (\<lambda>s msg. Ret),
     core_handle = (\<lambda>m msg c. Ret), core_inject = (\<lambda>m v c. Ret),
     core_new_client = (\<lambda>m c. Dyn (\<lambda>w. Upd
        (\<lambda>w. upd_master m (\<lambda>x. x\<lparr>m_clients := dset (c_peer (conns w c)) c (m_clients x)\<rparr>)
           (upd_sat (c_sat (conns w c)) (\<lambda>x. x\<lparr>s_handshake := True\<rparr>) w)) Ret)),
     core_drop = (\<lambda>m c w. upd_master m (\<lambda>x. x\<lparr>m_clients := ddel (c_peer (conns w c)) (m_clients x)\<rparr>) w),
     core_start_handshake = (\<lambda>s. Ret), core_frames = (\<lambda>c msg w. [snd msg, PNone]),
     core_bus_emit = (\<lambda>m v. Ret), core_peer = (\<lambda>n c. n), core_reset = None,
     core_bits = (\<lambda>b. Inl ValueError), core_json = (\<lambda>t. Inl ValueError),
     core_error_text = (\<lambda>e. []), core_session = (\<lambda>a b. PDict []), core_bus_payload = (\<lambda>v. v),
     core_stops = (\<lambda>m. []), core_server = (\<lambda>m w. (None, Bound [8000 + m])), core_joined = (\<lambda>m w. True)\<rparr>"

definition example_hive :: "unit hive" where
  "example_hive = \<lparr>
     sats = (\<lambda>s. \<lparr>s_name = ''sat'', s_access_key = ''key'', s_password = Some ''pw'', s_site_id = [],
        s_session_id = ''sid'', s_conn = None, s_master = None, s_noise = None, s_crypto_key = None,
        s_handshake = False, s_proto = [], s_records = [],
        s_bus = s, s_share_bus = False, s_tmpdir = True\<rparr>),
     masters = (\<lambda>m. \<lparr>m_name = ''hub'', m_db = new_db, m_clients = [], m_records = [],
        m_agent = 0, m_upstream = None, m_tmpdir = True, m_network = In_Process\<rparr>),
     conns = (\<lambda>c. \<lparr>c_key = [], c_name = [], c_peer = [], c_sat = 0, c_has_password = False,
        c_is_admin = False, c_can_escalate = False, c_can_propagate = False, c_can_broadcast = False,
        c_allowed_types = [], c_noise = None\<rparr>),
     next_conn = 0, now = 0, nets = new_net (\<lambda>_. 1) None\<rparr>"

lemma quiet_core_ok: "core_ok quiet_core" "drop_ok quiet_core" "drop_removes quiet_core"
  by (simp_all add: quiet_core_def core_ok_def drop_ok_def drop_removes_def same_networks_def dict_simps)

definition linked_hive :: "unit hive" where
  "linked_hive = upd_master 0 (\<lambda>x. x\<lparr>m_clients := [(''sat'', 0)]\<rparr>)
     (upd_conn 0 (\<lambda>x. x\<lparr>c_peer := ''sat''\<rparr>)
       (upd_sat 0 (\<lambda>x. x\<lparr>s_conn := Some 0, s_master := Some 0, s_handshake := True\<rparr>) example_hive))"

lemma linked_hive: "linked 0 linked_hive" "s_conn (sats linked_hive 0) = Some 0"
  "s_master (sats linked_hive 0) = Some 0"
  by (simp_all add: linked_hive_def linked_def example_hive_def)

text \<open>C10: Every test script completes. Whatever sequence of node calls a test makes (connect,
  send, disconnect, a master's sends and bus emits, a connection's own send, a master-initiated
  close), and whatever the handlers of the libraries do through the same send paths, each call
  ends, on the whole stack of nested deliveries, and leaves the thread ready for the next.\<close>

theorem node_calls_complete:
  assumes "core_ok co"
  shows "\<exists>d. calls_end co (new_pump w) es d \<and> stack d = [] \<and> \<not> draining d \<and> held d = {}"
  using calls_end_all [OF assms quiet_new, of w es] by (auto simp: quiet_def idle_def)

theorem node_calls_complete_witness:
  "\<exists>d. calls_end quiet_core (new_pump example_hive)
     [EConnect 0 0 default_args, ESend 0 (Ovos ''speak'' (PDict []) (PDict [])), ESendAll 0 (''bus'', PNone),
      EDisconnect 0, ESend 0 (Hive (''ping'', PNone))] d \<and> stack d = []"
  using node_calls_complete [OF quiet_core_ok(1)] by blast





text \<open>\<open>send\<close> on a satellite that is not connected raises \<open>RuntimeError\<close> before anything is
  recorded or delivered; connected, it records one outbound message and hands exactly that
  message (an OVOS message wrapped as BUS, with a session) to the pump.\<close>

theorem send_guarded_then_recorded:
  assumes "stack c = FProg (sat_send co s out) # fs" and "raising c = None" and "draining c"
  shows "let w = world c; x = sats w s; msg = wrap_outgoing co x out in
    if s_master x = None \<or> s_conn x = None
    then leads_to c (c\<lparr>stack := fs, raising := Some RuntimeError\<rparr>)
    else \<exists>w'. leads_to c (c\<lparr>world := w', queue := queue c @ [send_lambda co s msg],
             enqueued := enqueued c @ [send_lambda co s msg], stack := FProg Ret # fs\<rparr>)
           \<and> s_records (sats w' s) = s_records x @ [mk_record ''out'' (fst msg) (snd msg) ''master'' (now w)]
           \<and> masters w' = masters w"
proof (cases "s_master (sats (world c) s) = None \<or> s_conn (sats (world c) s) = None")
  case True
  then have "settle (sat_send co s out) (world c) = (Throw RuntimeError, world c)"
    by (auto simp: sat_send_def Let_def)
  with True settle_raises [OF _ assms(2,1)] show ?thesis by (fastforce simp: Let_def)
next
  case False
  let ?msg = "wrap_outgoing co (sats (world c) s) out"
  have "settle (sat_send co s out) (world c) = (Deliver (send_lambda co s ?msg) Ret,
      sat_record s ''out'' (fst ?msg) (snd ?msg) ''master'' (world c))"
    using False by (auto simp: sat_send_def Let_def)
  from settle_enqueues [OF this assms(2,1,3)] False show ?thesis
    by (auto simp: Let_def sat_record_def intro!: exI)
qed

theorem send_guarded_then_recorded_witness:
  "\<exists>d. raising (pump_steps d (call (Deliver (sat_send quiet_core 0 (Hive (''ping'', PNone))) Ret)
     (new_pump example_hive))) = Some RuntimeError"
proof -
  let ?p = "sat_send quiet_core 0 (Hive (''ping'', PNone))"
  let ?c = "pump_steps 2 (call (Deliver ?p Ret) (new_pump example_hive))"
  have "stack ?c = FProg ?p # [FDrain, FProg Ret]" "raising ?c = None" "draining ?c"
    "world ?c = example_hive"
    by (simp_all add: pump_defs call_def new_pump_def eval_nat_numeral)
  from send_guarded_then_recorded [OF this(1-3)] this(4)
  obtain n where "pump_steps n ?c = ?c\<lparr>stack := [FDrain, FProg Ret], raising := Some RuntimeError\<rparr>"
    by (auto simp: example_hive_def leads_to_def Let_def)
  then show ?thesis by (intro exI [of _ "2 + n"]) (simp only: pump_steps_add, simp)
qed

text \<open>C14: A frame is decoded with the satellite's own Noise transport, and the shared
  connection gets the master's transport back, whether the decode succeeds or fails. Exactly one
  record is written: a failed decode leaves a \<open>_decode_error\<close> record and no handler runs; a
  decoded message is recorded before its handler starts.\<close>

theorem decode_borrows_transport:
  assumes "stack c = FProg (decode_and_dispatch co s k pr frm) # fs" and "raising c = None"
  defines "w1 \<equiv> set_noise k (s_noise (sats (world c) s)) (world c)"
  shows "c_noise (conns w1 k) = s_noise (sats (world c) s)
    \<and> (\<exists>w'. c_noise (conns w' k) = c_noise (conns (world c) k)
      \<and> (case core_decode co k frm w1 of
           (Inl e, w2) \<Rightarrow> leads_to c (c\<lparr>world := w', stack := fs\<rparr>)
             \<and> s_records (sats w' s) = s_records (sats w2 s) @
                 [mk_record ''in'' ''_decode_error'' (PDict [(''error'', PStr (core_error_text co e))]) pr (now w2)]
         | (Inr msg, w2) \<Rightarrow>
             leads_to c (c\<lparr>world := snd (settle (core_dispatch co s msg) w'),
                           stack := FProg (fst (settle (core_dispatch co s msg) w')) # fs\<rparr>)
             \<and> s_records (sats w' s) = s_records (sats w2 s) @ [mk_record ''in'' (fst msg) (snd msg) pr (now w2)]))"
proof -
  obtain r w2 where dec: "core_decode co k frm w1 = (r, w2)" by force
  let ?p = "decode_and_dispatch co s k pr frm"
  show ?thesis
  proof (cases r)
    case (Inl e)
    let ?w = "set_noise k (c_noise (conns (world c) k)) (sat_record s ''in'' ''_decode_error''
        (PDict [(''error'', PStr (core_error_text co e))]) pr w2)"
    have "settle ?p (world c) = (Ret, ?w)"
      using dec Inl by (simp add: decode_and_dispatch_def w1_def Let_def)
    from settle_returns [OF this assms(2,1)] show ?thesis
      using dec Inl by (auto simp: w1_def set_noise_def sat_record_def intro!: exI [of _ ?w])
  next
    case (Inr msg)
    let ?w = "sat_record s ''in'' (fst msg) (snd msg) pr (set_noise k (c_noise (conns (world c) k)) w2)"
    have "settle ?p (world c) = settle (core_dispatch co s msg) ?w"
      using dec Inr by (simp add: decode_and_dispatch_def w1_def Let_def)
    with settle_leads [OF assms(2,1)] show ?thesis
      using dec Inr by (auto simp: w1_def set_noise_def sat_record_def intro!: exI [of _ ?w])
  qed
qed

theorem decode_borrows_transport_witness:
  "\<exists>d. leads_to (call (decode_and_dispatch quiet_core 0 0 ''sat'' (PStr ''x'')) (new_pump linked_hive)) d
     \<and> s_records (sats (world d) 0) = [mk_record ''in'' ''bus'' (PStr ''x'') ''sat'' 0]"
proof -
  let ?c = "call (decode_and_dispatch quiet_core 0 0 ''sat'' (PStr ''x'')) (new_pump linked_hive)"
  have "stack ?c = FProg (decode_and_dispatch quiet_core 0 0 ''sat'' (PStr ''x'')) # []" "raising ?c = None"
    by (simp_all add: call_def)
  moreover have "core_decode quiet_core 0 (PStr ''x'') w = (Inr (''bus'', PStr ''x''), w)"
    "core_dispatch quiet_core 0 m = Ret" for w m
    by (simp_all add: quiet_core_def)
  moreover have "world ?c = linked_hive" by (simp add: call_def new_pump_def)
  ultimately show ?thesis
    using decode_borrows_transport [of ?c quiet_core 0 0 "''sat''" "PStr ''x''" "[]"]
    by (fastforce simp: linked_hive_def example_hive_def set_noise_def)
qed

text \<open>The frames of one send, written one after the other.\<close>

lemma frames_settle:
  fixes w :: "'t hive"
  assumes "s_conn (sats w (c_sat (conns w k))) = Some k'"
  shows "\<exists>w'. (stack c = FProg (pseq (pfor frs (recording_send_msg co m k)) q) # fs \<longrightarrow> raising c = None \<longrightarrow>
      draining c \<longrightarrow> world c = w \<longrightarrow>
      leads_to c (c\<lparr>world := w', stack := FProg q # fs,
        queue := queue c @ map (decode_and_dispatch co (c_sat (conns w k)) k' (c_peer (conns w k'))) frs,
        enqueued := enqueued c @ map (decode_and_dispatch co (c_sat (conns w k)) k' (c_peer (conns w k'))) frs\<rparr>))
    \<and> sats w' = sats w \<and> conns w' = conns w \<and> now w' = now w
    \<and> m_records (masters w' m) = m_records (masters w m) @
        map (\<lambda>f. mk_record ''out'' (frame_type co f) f (c_peer (conns w k)) (now w)) frs
    \<and> m_clients (masters w' m) = m_clients (masters w m)"
  using assms
proof (induction frs arbitrary: c w)
  case Nil
  then show ?case by (intro exI [of _ w]) (auto simp: same_stack)
next
  case (Cons f frs)
  let ?w = "master_record m ''out'' (frame_type co f) f (c_peer (conns w k)) w"
  let ?dec = "decode_and_dispatch co (c_sat (conns w k)) k' (c_peer (conns w k'))"
  let ?c = "c\<lparr>world := ?w, queue := queue c @ [?dec f], enqueued := enqueued c @ [?dec f],
      stack := FProg (pseq (pfor frs (recording_send_msg co m k)) q) # fs\<rparr>"
  have "s_conn (sats ?w (c_sat (conns ?w k))) = Some k'"
    using Cons.prems by (simp add: master_record_def)
  from Cons.IH [OF this, of ?c] obtain w' where w': "raising ?c = None \<longrightarrow> draining ?c \<longrightarrow>
      leads_to ?c (?c\<lparr>world := w', stack := FProg q # fs,
        queue := queue ?c @ map ?dec frs, enqueued := enqueued ?c @ map ?dec frs\<rparr>)"
    "sats w' = sats w" "conns w' = conns w" "now w' = now w"
    "m_records (masters w' m) = m_records (masters ?w m) @
        map (\<lambda>f. mk_record ''out'' (frame_type co f) f (c_peer (conns w k)) (now w)) frs"
    "m_clients (masters w' m) = m_clients (masters w m)"
    by (auto simp: master_record_def)
  have set1: "settle (pseq (pfor (f # frs) (recording_send_msg co m k)) q) w
      = (Deliver (?dec f) (pseq (pfor frs (recording_send_msg co m k)) q), ?w)"
    using Cons.prems
    by (simp add: pseq_assoc recording_send_msg_def receive_raw_def master_record_def)
  show ?case
  proof (intro exI [of _ w'] conjI impI)
    assume c: "stack c = FProg (pseq (pfor (f # frs) (recording_send_msg co m k)) q) # fs"
      "raising c = None" "draining c" "world c = w"
    have "leads_to c ?c" using settle_enqueues [OF _ c(2,1,3)] set1 c(4) by simp
    moreover have "leads_to ?c (?c\<lparr>world := w', stack := FProg q # fs,
        queue := queue ?c @ map ?dec frs, enqueued := enqueued ?c @ map ?dec frs\<rparr>)"
      using w'(1) c by simp
    ultimately show "leads_to c (c\<lparr>world := w', stack := FProg q # fs,
        queue := queue c @ map ?dec (f # frs), enqueued := enqueued c @ map ?dec (f # frs)\<rparr>)"
      by (auto dest: leads_trans)
  qed (use w' in \<open>simp_all add: master_record_def\<close>)
qed

text \<open>C15: The frames of one send arrive in order and only after the send has released its lock:
  inside a drain, a connection's \<open>send\<close> records every frame as outbound, appends one decode per
  frame to the queue in the order of the frames, for the satellite's current connection, and
  returns with the transport's lock free, before any of them is decoded.\<close>

theorem send_queues_frames_in_order:
  assumes "stack c = FProg (conn_send co m k msg) # fs" and "raising c = None" and "draining c"
    and "k \<notin> held c" and "s_conn (sats (world c) (c_sat (conns (world c) k))) = Some k'"
  shows "let w = world c; frames = core_frames co k msg w;
      decodes = map (decode_and_dispatch co (c_sat (conns w k)) k' (c_peer (conns w k'))) frames
    in \<exists>d. leads_to c d \<and> stack d = fs \<and> raising d = None \<and> held d = held c \<and> draining d
      \<and> queue d = queue c @ decodes \<and> started d = started c
      \<and> sats (world d) = sats w \<and> conns (world d) = conns w
      \<and> m_records (masters (world d) m) = m_records (masters w m) @
          map (\<lambda>f. mk_record ''out'' (frame_type co f) f (c_peer (conns w k)) (now w)) frames"
proof -
  let ?w = "world c"
  let ?frs = "core_frames co k msg ?w"
  let ?fs = "FUnlock k # FProg Ret # FProg Ret # fs"
  define c1 where "c1 = c\<lparr>held := insert k (held c),
    stack := FProg (pseq (pfor ?frs (recording_send_msg co m k)) Ret) # ?fs\<rparr>"
  have "leads_to c c1"
    using assms(1-4)
    by (intro leads_step [where c = c, OF _ leads_step [OF _ leads_step [OF _ leads_refl]]])
      (auto simp: conn_send_def pump_defs c1_def)
  moreover obtain w' where w': "leads_to c1 (c1\<lparr>world := w', stack := FProg Ret # ?fs,
        queue := queue c1 @ map (decode_and_dispatch co (c_sat (conns ?w k)) k' (c_peer (conns ?w k'))) ?frs,
        enqueued := enqueued c1 @ map (decode_and_dispatch co (c_sat (conns ?w k)) k' (c_peer (conns ?w k'))) ?frs\<rparr>)"
      (is "leads_to c1 ?c2")
    "sats w' = sats ?w" "conns w' = conns ?w"
    "m_records (masters w' m) = m_records (masters ?w m) @
        map (\<lambda>f. mk_record ''out'' (frame_type co f) f (c_peer (conns ?w k)) (now ?w)) ?frs"
    using frames_settle [OF assms(5), of c1 ?frs co m Ret ?fs] assms(2,3) by (auto simp: c1_def)
  moreover have "leads_to ?c2 (?c2\<lparr>stack := fs, held := held c\<rparr>)"
    using assms(2,4)
    by (intro leads_step [where c = ?c2, OF _ leads_step [OF _ leads_step [OF _ leads_step [OF _ leads_refl]]]])
      (auto simp: pump_defs c1_def)
  ultimately have "leads_to c (?c2\<lparr>stack := fs, held := held c\<rparr>)"
    by (blast intro: leads_trans)
  with w'(2-) assms(2,3) show ?thesis
    by (auto simp: Let_def c1_def intro!: exI [of _ "?c2\<lparr>stack := fs, held := held c\<rparr>"])
qed

theorem send_queues_frames_in_order_witness:
  "\<exists>d. leads_to (pump_steps 2 (call (Deliver (conn_send quiet_core 0 0 (''bus'', PStr ''x'')) Ret)
       (new_pump linked_hive))) d
     \<and> queue d = [decode_and_dispatch quiet_core 0 0 ''sat'' (PStr ''x''),
                  decode_and_dispatch quiet_core 0 0 ''sat'' PNone] \<and> held d = {}"
proof -
  let ?p = "conn_send quiet_core 0 0 (''bus'', PStr ''x'')"
  let ?c = "pump_steps 2 (call (Deliver ?p Ret) (new_pump linked_hive))"
  have c: "stack ?c = FProg ?p # [FDrain, FProg Ret]" "raising ?c = None" "draining ?c" "0 \<notin> held ?c"
    and w: "world ?c = linked_hive" "held ?c = {}" "queue ?c = []"
    by (simp_all add: pump_defs call_def new_pump_def eval_nat_numeral)
  have l: "c_sat (conns linked_hive 0) = 0" "c_peer (conns linked_hive 0) = ''sat''"
    "s_conn (sats linked_hive 0) = Some 0"
    by (simp_all add: linked_hive_def example_hive_def)
  have "core_frames quiet_core 0 (''bus'', PStr ''x'') linked_hive = [PStr ''x'', PNone]"
    by (simp add: quiet_core_def)
  with send_queues_frames_in_order [OF c, of 0] w l show ?thesis by (auto simp: Let_def)
qed

text \<open>A send can be recorded and never happen. A handler that sends and then disconnects the
  satellite has its outbound record, but the queued lambda reads the connection only when the
  pump runs it: by then it is gone, and the handler's caller gets an \<open>AttributeError\<close> in place
  of the message reaching the master.\<close>

theorem send_then_disconnect_loses_message:
  assumes "drop_ok co" and "linked s (world c)" and "idle c" and "queue c = []"
    and "s_conn (sats (world c) s) = Some k" and "s_master (sats (world c) s) = Some m"
  shows "let msg = wrap_outgoing co (sats (world c) s) out in
    \<exists>d. leads_to (call (Deliver (pseq (sat_send co s out) (sat_disconnect co s)) Ret) c) d
      \<and> stack d = [] \<and> raising d = Some AttributeError \<and> queue d = []
      \<and> s_records (sats (world d) s) = s_records (sats (world c) s) @
          [mk_record ''out'' (fst msg) (snd msg) ''master'' (now (world c))]"
proof -
  let ?p = "pseq (sat_send co s out) (sat_disconnect co s)"
  let ?msg = "wrap_outgoing co (sats (world c) s) out"
  define lam where "lam = send_lambda co s ?msg"
  let ?w1 = "sat_record s ''out'' (fst ?msg) (snd ?msg) ''master'' (world c)"
  define c0 where "c0 = call (Deliver ?p Ret) c"
  define c1 where "c1 = c0\<lparr>world := world c, draining := True, queue := [],
    enqueued := enqueued c @ [?p], started := started c @ [?p], stack := [FProg ?p, FDrain, FProg Ret]\<rparr>"
  define c2 where "c2 = c1\<lparr>world := ?w1, queue := [lam], enqueued := enqueued c1 @ [lam],
    stack := [FProg (sat_disconnect co s), FDrain, FProg Ret]\<rparr>"
  have "leads_to c0 c1"
    using settle_starts [of "Deliver ?p Ret" c0 ?p Ret "world c" "[]"] assms(3,4)
    by (simp add: c0_def c1_def call_def idle_def)
  moreover have "settle ?p (world c) = (Deliver lam (sat_disconnect co s), ?w1)"
    using assms(5,6) by (simp add: sat_send_def Let_def lam_def)
  then have "leads_to c1 c2"
    using settle_enqueues [of ?p c1 lam "sat_disconnect co s" ?w1 "[FDrain, FProg Ret]"]
    by (simp add: c1_def c2_def c0_def call_def)
  moreover have "linked s ?w1" using assms(2,5) by (simp add: linked_def sat_record_def)
  then obtain w2 where w2: "settle (sat_disconnect co s) ?w1 = (Ret, w2)" "unlinked (sats w2 s)"
    "sat_identity (sats w2 s) = sat_identity (sats ?w1 s)"
    using disconnect_settles [OF assms(1), of s ?w1] by blast
  have "leads_to c2 (c2\<lparr>world := w2, stack := [FDrain, FProg Ret]\<rparr>)" (is "leads_to c2 ?c3")
    using w2(1) by (intro settle_returns) (simp_all add: c2_def c1_def c0_def call_def)
  moreover have "leads_to ?c3 (?c3\<lparr>queue := [], started := started c2 @ [lam],
      stack := [FProg lam, FDrain, FProg Ret]\<rparr>)" (is "leads_to ?c3 ?c4")
    using drain_next [of ?c3 "[FProg Ret]" lam "[]"] by (simp add: c2_def c1_def c0_def call_def)
  moreover have "settle lam w2 = (Throw AttributeError, w2)"
    using w2(2) by (auto simp: lam_def send_lambda_def unlinked_def split: option.split)
  then have "leads_to ?c4 (?c4\<lparr>world := w2, stack := [FDrain, FProg Ret], raising := Some AttributeError\<rparr>)"
    (is "leads_to ?c4 ?c5") by (intro settle_raises) (simp_all add: c2_def c1_def c0_def call_def)
  moreover have "leads_to ?c5 (?c5\<lparr>draining := False, stack := []\<rparr>)"
    by (rule drain_raises) simp_all
  ultimately have "leads_to c0 (?c5\<lparr>draining := False, stack := []\<rparr>)" by (blast intro: leads_trans)
  with w2(3) show ?thesis
    unfolding c0_def [symmetric] Let_def
    by (intro exI [of _ "?c5\<lparr>draining := False, stack := []\<rparr>"])
      (simp add: sat_identity_def sat_record_def)
qed

theorem send_then_disconnect_loses_message_witness:
  "\<exists>d. leads_to (call (Deliver (pseq (sat_send quiet_core 0 (Hive (''ping'', PNone)))
       (sat_disconnect quiet_core 0)) Ret) (new_pump linked_hive)) d
     \<and> raising d = Some AttributeError
     \<and> s_records (sats (world d) 0) = [mk_record ''out'' ''ping'' PNone ''master'' 0]"
proof -
  have "linked 0 (world (new_pump linked_hive))" "idle (new_pump linked_hive)"
    "queue (new_pump linked_hive) = []" "s_conn (sats (world (new_pump linked_hive)) 0) = Some 0"
    "s_master (sats (world (new_pump linked_hive)) 0) = Some 0"
    by (simp_all add: linked_hive idle_def new_pump_def)
  moreover have "s_records (sats (world (new_pump linked_hive)) 0) = []" "now (world (new_pump linked_hive)) = 0"
    by (simp_all add: new_pump_def linked_hive_def example_hive_def)
  ultimately show ?thesis
    using send_then_disconnect_loses_message [OF quiet_core_ok(2), of 0 "new_pump linked_hive" 0 0
      "Hive (''ping'', PNone)"] by (auto simp: Let_def)
qed

text \<open>Admission takes its permissions from the call. \<open>connect\<close> to an in-process master on an idle thread reaches
  \<open>handle_new_client\<close> with a fresh connection that calls back this satellite, is already stored
  on it, has no Noise transport yet, and carries the four permission flags just passed; its
  whitelist is the one passed, or, when none is, the one an earlier registration left.\<close>

theorem connect_admits_with_given_flags:
  assumes "idle c" and "queue c = []" and "m_network (masters (world c) m) = In_Process"
  shows "let w = world c; k = next_conn w; key = s_access_key (sats w s) in
    \<exists>d rest. leads_to (call (sat_connect co s m a) c) d
      \<and> stack d = FProg (core_new_client co m k) # FDrain # rest \<and> draining d \<and> raising d = None
      \<and> s_conn (sats (world d) s) = Some k \<and> s_master (sats (world d) s) = Some m
      \<and> (let n = conns (world d) k in c_key n = key \<and> c_sat n = s \<and> c_noise n = None
          \<and> (c_is_admin n, c_can_escalate n, c_can_propagate n, c_can_broadcast n)
              = (k_is_admin a, k_can_escalate a, k_can_propagate a, k_can_broadcast a)
          \<and> c_allowed_types n = (case k_allowed_types a of Some ts \<Rightarrow> ts
              | None \<Rightarrow> (case get_client_by_api_key (m_db (masters w m)) key of
                          None \<Rightarrow> [] | Some old \<Rightarrow> allowed_types old)))"
proof -
  let ?w = "world c"
  obtain row where row: "get_client_by_api_key (m_db (masters (registered s m a ?w) m))
        (s_access_key (sats ?w s)) = Some row"
    "is_admin row = k_is_admin a" "can_escalate row = k_can_escalate a"
    "can_propagate row = k_can_propagate a" "can_broadcast row = k_can_broadcast a"
    "allowed_types row = (case k_allowed_types a of Some ts \<Rightarrow> ts
      | None \<Rightarrow> (case get_client_by_api_key (m_db (masters ?w m)) (s_access_key (sats ?w s)) of
                  None \<Rightarrow> [] | Some old \<Rightarrow> allowed_types old))"
    using registered_row by blast
  let ?d = "connecting co s m a c\<lparr>world := attach co s row (registered s m a ?w),
    stack := [FProg (core_new_client co m (next_conn ?w)), FDrain, FProg (finish_connect co s)]\<rparr>"
  have "leads_to (call (sat_connect co s m a) c) ?d"
    by (rule leads_trans [OF connect_starts [OF assms(1,2)] connect_greets [OF row(1) assms(3)]])
  then show ?thesis
    using row(2-) unfolding Let_def
    by (intro exI [of _ ?d] exI [of _ "[FProg (finish_connect co s)]"])
      (simp add: attach_def new_connection_def Let_def)
qed

theorem connect_admits_with_given_flags_witness:
  "\<exists>d. leads_to (call (sat_connect quiet_core 0 0 (default_args\<lparr>k_is_admin := True\<rparr>))
       (new_pump example_hive)) d \<and> draining d
     \<and> c_is_admin (conns (world d) 0) \<and> c_allowed_types (conns (world d) 0) = []"
proof -
  have "idle (new_pump example_hive)" "queue (new_pump example_hive) = []"
    "m_network (masters (world (new_pump example_hive)) 0) = In_Process"
    "next_conn (world (new_pump example_hive)) = 0"
    "get_client_by_api_key (m_db (masters (world (new_pump example_hive)) 0)) k = None" for k
    by (simp_all add: idle_def new_pump_def example_hive_def new_db_def get_client_by_api_key_def
        dict_simps)
  with connect_admits_with_given_flags [OF this(1-3), of 0 quiet_core "default_args\<lparr>k_is_admin := True\<rparr>"]
  show ?thesis by (auto simp: Let_def default_args_def)
qed

text \<open>A failed connect leaves the satellite linked. When the handshake does not complete,
  \<open>connect\<close> raises \<open>RuntimeError\<close>, but the connection and the master stay set on the
  satellite, so it counts as connected for every later check of \<open>_connection\<close>.\<close>

theorem failed_connect_stays_linked:
  assumes "idle c" and "queue c = []" and "\<not> s_handshake (sats (world c) s)"
    and "\<And>m k. core_new_client co m k = Ret" and "\<And>s. core_start_handshake co s = Ret"
    and "m_network (masters (world c) m) = In_Process"
  shows "\<exists>d. leads_to (call (sat_connect co s m a) c) d \<and> stack d = []
    \<and> raising d = Some RuntimeError
    \<and> s_conn (sats (world d) s) = Some (next_conn (world c)) \<and> s_master (sats (world d) s) = Some m"
proof -
  obtain row where row: "get_client_by_api_key (m_db (masters (registered s m a (world c)) m))
      (s_access_key (sats (world c) s)) = Some row"
    using registered_row by blast
  define w3 where "w3 = attach co s row (registered s m a (world c))"
  have hs: "\<not> s_handshake (sats w3 s)"
    using assms(3) by (simp add: w3_def attach_def Let_def)
  define c2 where "c2 = connecting co s m a c\<lparr>world := w3,
    stack := [FProg Ret, FDrain, FProg (finish_connect co s)]\<rparr>"
  define c3 where "c3 = c2\<lparr>draining := False, stack := [FProg (finish_connect co s)]\<rparr>"
  define c4 where "c4 = c3\<lparr>draining := True, queue := [], enqueued := enqueued c3 @ [Ret],
    started := started c3 @ [Ret], stack := [FProg Ret, FDrain, FProg (check_handshake s)]\<rparr>"
  define c6 where "c6 = c4\<lparr>draining := False, stack := [FProg (check_handshake s)]\<rparr>"
  have "leads_to (call (sat_connect co s m a) c) c2"
    using leads_trans [OF connect_starts [OF assms(1,2), of co] connect_greets [OF row assms(6)]] assms(4)
    by (simp add: c2_def w3_def)
  moreover have "leads_to c2 c3"
    unfolding c3_def by (rule drain_after_Ret) (simp_all add: c2_def)
  moreover have "settle (finish_connect co s) w3 = (Deliver Ret (check_handshake s), w3)"
    using hs assms(5) by (simp add: finish_connect_def)
  then have "leads_to c3 c4"
    using settle_starts [of "finish_connect co s" c3 Ret "check_handshake s" w3 "[]"]
    by (simp add: c2_def c3_def c4_def)
  moreover have "leads_to c4 c6"
    unfolding c6_def by (rule drain_after_Ret) (simp_all add: c4_def c3_def c2_def)
  moreover have "leads_to c6 (c6\<lparr>world := w3, stack := [], raising := Some RuntimeError\<rparr>)" (is "leads_to _ ?d")
    using hs by (intro settle_raises [where p = "check_handshake s"])
      (simp_all add: check_handshake_def c6_def c4_def c3_def c2_def)
  ultimately have "leads_to (call (sat_connect co s m a) c) ?d" by (blast intro: leads_trans)
  then show ?thesis by (intro exI [of _ ?d]) (simp add: w3_def attach_def Let_def)
qed

theorem failed_connect_stays_linked_witness:
  "\<exists>d. leads_to (call (sat_connect (quiet_core\<lparr>core_new_client := \<lambda>m k. Ret\<rparr>) 0 0 default_args)
       (new_pump example_hive)) d
     \<and> raising d = Some RuntimeError \<and> s_conn (sats (world d) 0) = Some 0"
proof -
  let ?co = "quiet_core\<lparr>core_new_client := \<lambda>m k. Ret\<rparr>"
  have "idle (new_pump example_hive)" "queue (new_pump example_hive) = []"
    "\<not> s_handshake (sats (world (new_pump example_hive)) 0)"
    "next_conn (world (new_pump example_hive)) = 0"
    "\<And>m k. core_new_client ?co m k = Ret" "\<And>s. core_start_handshake ?co s = Ret"
    "m_network (masters (world (new_pump example_hive)) 0) = In_Process"
    by (simp_all add: idle_def new_pump_def example_hive_def quiet_core_def)
  with failed_connect_stays_linked [of "new_pump example_hive" 0 ?co 0 default_args]
  show ?thesis by auto
qed

end
