(* ===== verification/Topology_Builder.thy ===== *)
theory Topology_Builder
  imports Node_Core
begin

text \<open>
  Building and running a hive: identities of \<open>hivescope/utils.py\<close>, the \<open>create\<close> methods of
  \<open>hivescope/node.py\<close>, and \<open>TopologyBuilder\<close> of \<open>hivescope/topology.py\<close>: its dictionaries of
  nodes by name, its list of connections, \<open>start_all\<close> and \<open>stop_all\<close>.

  A node object is its number in the world; the builder hands out the next free number.
  A master is wired in process, or serves clients from outside through a loopback server, the one of
  \<open>Loopback_Server\<close> under its number.
\<close>

section \<open>Identities and nodes\<close>

record identity =
  i_name :: string
  i_access_key :: string
  i_password :: string
  i_site_id :: string
  i_tmpdir :: bool

text \<open>\<open>value or default\<close> on an optional string.\<close>

definition or_default :: "string option \<Rightarrow> string \<Rightarrow> string" where
  "or_default v d = (case v of None \<Rightarrow> d | Some x \<Rightarrow> (if x \<noteq> [] then x else d))"

text \<open>\<open>make_identity\<close>; \<open>uuid\<close> stands for successive results of \<open>uuid4\<close>. \<open>i_tmpdir\<close>: the call
  created the temporary directory itself and records that it has to be removed.\<close>

definition make_identity ::
    "(nat \<Rightarrow> string) \<Rightarrow> nat \<Rightarrow> string \<Rightarrow> string option \<Rightarrow> string option \<Rightarrow> string option \<Rightarrow>
     string option \<Rightarrow> identity" where
  "make_identity uuid n name pw key site tmpdir = \<lparr>
     i_name = name, i_access_key = or_default key (uuid n), i_password = or_default pw (uuid (n + 1)),
     i_site_id = or_default site (name @ ''-site''), i_tmpdir = (tmpdir = None)\<rparr>"

text \<open>\<open>SatelliteNode.create\<close> on the given or a new bus. The initial attributes of the slave
  protocol are the client library's.\<close>

definition satellite_create ::
    "(nat \<Rightarrow> string) \<Rightarrow> (string, pyval) pydict \<Rightarrow> nat \<Rightarrow> string \<Rightarrow> string option \<Rightarrow> bool \<Rightarrow> nat \<Rightarrow> 't satellite" where
  "satellite_create uuid proto n name site shared bus =
     (let i = make_identity uuid (3 * n) name None None (Some (or_default site (name @ ''-site''))) None in
      \<lparr>s_name = i_name i, s_access_key = i_access_key i, s_password = Some (i_password i),
       s_site_id = i_site_id i, s_session_id = uuid (3 * n + 2), s_conn = None, s_master = None,
       s_noise = None, s_crypto_key = None, s_handshake = False, s_proto = proto, s_records = [],
       s_bus = bus, s_share_bus = shared, s_tmpdir = i_tmpdir i\<rparr>)"

text \<open>What \<open>MasterNode.create\<close> gets: \<open>use_loopback\<close>, and keyword arguments; \<open>ma_keywords\<close> are the
  names of the latter.\<close>

record master_args =
  ma_keywords :: "string list"
  ma_agent :: "nat option"
  ma_db :: "client_db option"
  ma_loopback :: bool

definition no_master_args :: master_args where
  "no_master_args = \<lparr>ma_keywords = [], ma_agent = None, ma_db = None,
     ma_loopback = False\<rparr>"

definition master_keywords :: "string list" where
  "master_keywords = [''require_crypto'', ''handshake_enabled'', ''agent_protocol'', ''db'']"

text \<open>An unknown keyword raises \<open>TypeError\<close>. \<open>agent\<close> is the number of a new agent protocol.\<close>

definition master_create :: "string \<Rightarrow> master_args \<Rightarrow> nat \<Rightarrow> master result" where
  "master_create name k agent =
     (if \<forall>x \<in> set (ma_keywords k). x \<in> set master_keywords
      then Inr \<lparr>m_name = name, m_db = (case ma_db k of None \<Rightarrow> new_db | Some d \<Rightarrow> d), m_clients = [],
                m_records = [], m_agent = (case ma_agent k of None \<Rightarrow> agent | Some a \<Rightarrow> a),
                m_upstream = None, m_tmpdir = True,
                m_network = (if ma_loopback k then Loopback else In_Process)\<rparr>
      else Inl TypeError)"

section \<open>The builder\<close>

record relay_node =
  r_name :: string
  r_upstream :: nat
  r_listener :: nat
  r_bus :: nat

text \<open>The keyword arguments kept for \<open>connect\<close>; \<open>None\<close> stands for ones it does not accept.\<close>

type_synonym link = "string \<times> string \<times> connect_args option"

record 't builder =
  b_hive :: "'t hive"
  b_masters :: "(string, nat) pydict"
  b_satellites :: "(string, nat) pydict"
  b_relays :: "(string, relay_node) pydict"
  b_connections :: "link list"
  b_next_sat :: nat
  b_next_master :: nat
  b_next_bus :: nat

definition new_builder :: "'t hive \<Rightarrow> 't builder" where
  "new_builder w = \<lparr>b_hive = w, b_masters = [], b_satellites = [], b_relays = [],
     b_connections = [], b_next_sat = 0, b_next_master = 0, b_next_bus = 0\<rparr>"

text \<open>The two libraries' contributions to a new node: random strings and protocol attributes.\<close>

record node_supply =
  su_uuid :: "nat \<Rightarrow> string"
  su_proto :: "(string, pyval) pydict"

datatype upstream = UpMaster nat | UpRelay relay_node | UpOther

definition resolve_listener :: "upstream \<Rightarrow> nat result" where
  "resolve_listener up =
     (case up of UpRelay r \<Rightarrow> Inr (r_listener r) | UpMaster m \<Rightarrow> Inr m | UpOther \<Rightarrow> Inl TypeError)"

text \<open>A new loopback network has the default protocol floor, 1.\<close>

definition install_network :: "nat \<Rightarrow> network \<Rightarrow> 't hive \<Rightarrow> 't hive" where
  "install_network m k w =
     (if k = Loopback then w\<lparr>nets := upd_server m (\<lambda>_. new_server 1) (nets w)\<rparr> else w)"

lemma install_network_sel [simp]:
  "sats (install_network m k w) = sats w" "masters (install_network m k w) = masters w"
  "conns (install_network m k w) = conns w" "next_conn (install_network m k w) = next_conn w"
  "now (install_network m k w) = now w"
  by (simp_all add: install_network_def)

definition put_master :: "master \<Rightarrow> 't builder \<Rightarrow> 't builder" where
  "put_master x b = b\<lparr>b_hive := install_network (b_next_master b) (m_network x)
       (upd_master (b_next_master b) (\<lambda>_. x) (b_hive b)),
     b_masters := dset (m_name x) (b_next_master b) (b_masters b),
     b_next_master := b_next_master b + 1\<rparr>"

definition put_satellite :: "'t satellite \<Rightarrow> 't builder \<Rightarrow> 't builder" where
  "put_satellite x b = b\<lparr>b_hive := upd_sat (b_next_sat b) (\<lambda>_. x) (b_hive b),
     b_satellites := dset (s_name x) (b_next_sat b) (b_satellites b),
     b_next_sat := b_next_sat b + 1\<rparr>"

text \<open>Each new node gets a bus number of its own, used or not.\<close>

definition add_master :: "string \<Rightarrow> master_args \<Rightarrow> 't builder \<Rightarrow> nat result \<times> 't builder" where
  "add_master name k b =
     (case master_create name k (b_next_bus b) of
        Inl e \<Rightarrow> (Inl e, b)
      | Inr x \<Rightarrow> (Inr (b_next_master b), put_master x (b\<lparr>b_next_bus := b_next_bus b + 1\<rparr>)))"

definition add_satellite ::
    "node_supply \<Rightarrow> string \<Rightarrow> upstream \<Rightarrow> bool \<Rightarrow> connect_args option \<Rightarrow> 't builder \<Rightarrow>
     nat result \<times> 't builder" where
  "add_satellite su name up shared kw b =
     (case resolve_listener up of
        Inl e \<Rightarrow> (Inl e, b)
      | Inr l \<Rightarrow>
          (let s = b_next_sat b;
               x = satellite_create (su_uuid su) (su_proto su) s name None shared (b_next_bus b);
               b1 = put_satellite x (b\<lparr>b_next_bus := b_next_bus b + 1\<rparr>) in
           (Inr s, b1\<lparr>b_connections := b_connections b1 @ [(name, m_name (masters (b_hive b1) l), kw)]\<rparr>)))"

definition bind_upstream :: "nat \<Rightarrow> nat \<Rightarrow> 't builder \<Rightarrow> 't builder" where
  "bind_upstream m s b = b\<lparr>b_hive := upd_master m (\<lambda>x. x\<lparr>m_upstream := Some s\<rparr>) (b_hive b)\<rparr>"

definition add_relay ::
    "node_supply \<Rightarrow> string \<Rightarrow> upstream \<Rightarrow> connect_args option \<Rightarrow> 't builder \<Rightarrow>
     relay_node result \<times> 't builder" where
  "add_relay su name up kw b =
     (case resolve_listener up of
        Inl e \<Rightarrow> (Inl e, b)
      | Inr l \<Rightarrow>
          (let bus = b_next_bus b; s = b_next_sat b; m = b_next_master b;
               parent = m_name (masters (b_hive b) l);
               x = satellite_create (su_uuid su) (su_proto su) s (name @ ''_sat'') None False bus in
           case master_create (name @ ''_master'') (no_master_args\<lparr>ma_agent := Some bus\<rparr>) bus of
             Inl e \<Rightarrow> (Inl e, b)
           | Inr y \<Rightarrow>
               (let b1 = put_master y (put_satellite x (b\<lparr>b_next_bus := bus + 1\<rparr>));
                    b2 = bind_upstream m s
                           (b1\<lparr>b_connections := b_connections b1 @ [(name @ ''_sat'', parent, kw)]\<rparr>);
                    r = \<lparr>r_name = name, r_upstream = s, r_listener = m, r_bus = bus\<rparr> in
                (Inr r, b2\<lparr>b_relays := dset name r (b_relays b2)\<rparr>))))"

definition get_master :: "string \<Rightarrow> 't builder \<Rightarrow> nat result" where
  "get_master n b = (case dget (b_masters b) n of None \<Rightarrow> Inl KeyError | Some m \<Rightarrow> Inr m)"

definition get_satellite :: "string \<Rightarrow> 't builder \<Rightarrow> nat result" where
  "get_satellite n b = (case dget (b_satellites b) n of None \<Rightarrow> Inl KeyError | Some s \<Rightarrow> Inr s)"

definition get_relay :: "string \<Rightarrow> 't builder \<Rightarrow> relay_node result" where
  "get_relay n b = (case dget (b_relays b) n of None \<Rightarrow> Inl KeyError | Some r \<Rightarrow> Inr r)"

definition all_masters :: "'t builder \<Rightarrow> nat list" where
  "all_masters b = dvals (b_masters b)"

definition all_satellites :: "'t builder \<Rightarrow> nat list" where
  "all_satellites b = dvals (b_satellites b)"

definition all_relays :: "'t builder \<Rightarrow> relay_node list" where
  "all_relays b = dvals (b_relays b)"

section \<open>Life cycle\<close>

text \<open>A master's \<open>network_protocol.run()\<close>.\<close>

definition network_run :: "'t core \<Rightarrow> nat \<Rightarrow> 't hive prog" where
  "network_run co m = Dyn (\<lambda>w.
     case m_network (masters w m) of
       In_Process \<Rightarrow> Ret
     | Loopback \<Rightarrow>
         (let (config_error, boot) = core_server co m w;
              (r, n) = lb_run config_error boot m (nets w) in
          Upd (\<lambda>w. w\<lparr>nets := n\<rparr>) (case r of Inl e \<Rightarrow> Throw e | Inr _ \<Rightarrow> Ret)))"

text \<open>One entry of \<open>_connections\<close> in \<open>start_all\<close>.\<close>

definition start_one :: "'t core \<Rightarrow> 't builder \<Rightarrow> link \<Rightarrow> 't hive prog" where
  "start_one co b l = (case l of (sn, mn, kw) \<Rightarrow>
     (case dget (b_satellites b) sn of
        None \<Rightarrow> Throw KeyError
      | Some s \<Rightarrow> Dyn (\<lambda>w.
          if s_conn (sats w s) \<noteq> None then Ret
          else case dget (b_masters b) mn of
                 None \<Rightarrow> Throw KeyError
               | Some m \<Rightarrow> (case kw of None \<Rightarrow> Throw TypeError | Some k \<Rightarrow> sat_connect co s m k))))"

definition start_all :: "'t core \<Rightarrow> 't builder \<Rightarrow> 't hive prog" where
  "start_all co b = pseq (pfor (all_masters b) (network_run co)) (pfor (b_connections b) (start_one co b))"

text \<open>\<open>try: p except Exception: log\<close>, for a body that delivers nothing.\<close>

definition attempt :: "'w prog \<Rightarrow> 'w prog" where
  "attempt p = Dyn (\<lambda>w. case settle p w of
     (Throw e, w') \<Rightarrow> Upd (\<lambda>_. w') Ret
   | (q, w') \<Rightarrow> Upd (\<lambda>_. w') q)"

definition sat_cleanup :: "nat \<Rightarrow> 't hive \<Rightarrow> 't hive" where
  "sat_cleanup s w = upd_sat s (\<lambda>x. x\<lparr>s_tmpdir := False\<rparr>) w"

definition master_cleanup :: "nat \<Rightarrow> 't hive \<Rightarrow> 't hive" where
  "master_cleanup m w = upd_master m (\<lambda>x. x\<lparr>m_tmpdir := False\<rparr>) w"

definition stop_satellite :: "'t core \<Rightarrow> nat \<Rightarrow> 't hive prog" where
  "stop_satellite co s = Dyn (\<lambda>w.
     pseq (if s_conn (sats w s) \<noteq> None then attempt (sat_disconnect co s) else Ret)
       (Upd (sat_cleanup s) Ret))"

text \<open>The network protocol's \<open>stop\<close>, then the agent's and the listener's \<open>shutdown\<close>, which, where they
  exist, are the entries of \<open>core_stops\<close> (with the in-process network's \<open>stop\<close>, should its base class
  have one). The clients of a loopback server are the subject of \<open>Loopback_Clients\<close>.\<close>

definition network_stop :: "'t core \<Rightarrow> nat \<Rightarrow> 't hive prog" where
  "network_stop co m = Dyn (\<lambda>w.
     case m_network (masters w m) of
       In_Process \<Rightarrow> Ret
     | Loopback \<Rightarrow> Upd (\<lambda>w. w\<lparr>nets := lb_stop (core_joined co m w) m (nets w)\<rparr>) Ret)"

definition stop_master :: "'t core \<Rightarrow> nat \<Rightarrow> 't hive prog" where
  "stop_master co m = pseq (attempt (network_stop co m))
     (pseq (pfor (core_stops co m) attempt) (Upd (master_cleanup m) Ret))"

definition stop_all :: "'t core \<Rightarrow> 't builder \<Rightarrow> 't hive prog" where
  "stop_all co b = pseq (pfor (all_satellites b) (stop_satellite co))
     (pfor (all_masters b) (stop_master co))"

section \<open>Invariants of building\<close>

text \<open>An upstream argument is a node of this builder, or something that is not a node.\<close>

fun valid_upstream :: "'t builder \<Rightarrow> upstream \<Rightarrow> bool" where
  "valid_upstream b (UpMaster m) = (m < b_next_master b)"
| "valid_upstream b (UpRelay r) = (r_listener r < b_next_master b)"
| "valid_upstream b UpOther = True"

text \<open>What running the hive leaves alone: names, buses, and the upstream binding.\<close>

definition same_nodes :: "'t hive \<Rightarrow> 't hive \<Rightarrow> bool" where
  "same_nodes w w' \<longleftrightarrow>
     (\<forall>s. s_name (sats w' s) = s_name (sats w s) \<and> s_bus (sats w' s) = s_bus (sats w s)) \<and>
     (\<forall>m. m_name (masters w' m) = m_name (masters w m) \<and> m_agent (masters w' m) = m_agent (masters w m)
        \<and> m_upstream (masters w' m) = m_upstream (masters w m)
        \<and> m_network (masters w' m) = m_network (masters w m))"

inductive builder_step :: "'t builder \<Rightarrow> 't builder \<Rightarrow> bool" where
  bs_master: "builder_step b (snd (add_master n k b))"
| bs_satellite: "valid_upstream b up \<Longrightarrow> builder_step b (snd (add_satellite su n up sh kw b))"
| bs_relay: "valid_upstream b up \<Longrightarrow> builder_step b (snd (add_relay su n up kw b))"
| bs_run: "same_nodes (b_hive b) w \<Longrightarrow> builder_step b (b\<lparr>b_hive := w\<rparr>)"

definition masters_ok :: "'t builder \<Rightarrow> bool" where
  "masters_ok b \<longleftrightarrow>
     (\<forall>n m. dget (b_masters b) n = Some m \<longrightarrow> m < b_next_master b \<and> m_name (masters (b_hive b) m) = n) \<and>
     (\<forall>m < b_next_master b. dget (b_masters b) (m_name (masters (b_hive b) m)) \<noteq> None)"

definition sats_ok :: "'t builder \<Rightarrow> bool" where
  "sats_ok b \<longleftrightarrow>
     (\<forall>n s. dget (b_satellites b) n = Some s \<longrightarrow> s < b_next_sat b \<and> s_name (sats (b_hive b) s) = n
        \<and> n \<in> fst ` set (b_connections b))"

definition links_ok :: "'t builder \<Rightarrow> bool" where
  "links_ok b \<longleftrightarrow> (\<forall>(sn, mn, kw) \<in> set (b_connections b).
     dget (b_satellites b) sn \<noteq> None \<and> dget (b_masters b) mn \<noteq> None)"

definition relay_ok :: "'t builder \<Rightarrow> string \<Rightarrow> relay_node \<Rightarrow> bool" where
  "relay_ok b n r \<longleftrightarrow> r_name r = n \<and> r_upstream r < b_next_sat b \<and> r_listener r < b_next_master b
     \<and> s_name (sats (b_hive b) (r_upstream r)) = n @ ''_sat''
     \<and> m_name (masters (b_hive b) (r_listener r)) = n @ ''_master''
     \<and> s_bus (sats (b_hive b) (r_upstream r)) = r_bus r
     \<and> m_agent (masters (b_hive b) (r_listener r)) = r_bus r
     \<and> m_upstream (masters (b_hive b) (r_listener r)) = Some (r_upstream r)
     \<and> m_network (masters (b_hive b) (r_listener r)) = In_Process"

definition relays_ok :: "'t builder \<Rightarrow> bool" where
  "relays_ok b \<longleftrightarrow> (\<forall>n r. dget (b_relays b) n = Some r \<longrightarrow> relay_ok b n r)"

definition builder_inv :: "'t builder \<Rightarrow> bool" where
  "builder_inv b \<longleftrightarrow> masters_ok b \<and> sats_ok b \<and> links_ok b \<and> relays_ok b
     \<and> dict_ok (b_satellites b) \<and> dict_ok (b_masters b)"

lemmas builder_inv_defs = builder_inv_def masters_ok_def sats_ok_def links_ok_def relays_ok_def relay_ok_def

lemma put_sel [simp]:
  "b_satellites (put_master x b) = b_satellites b" "b_relays (put_master x b) = b_relays b"
  "b_connections (put_master x b) = b_connections b" "b_next_sat (put_master x b) = b_next_sat b"
  "b_next_master (put_master x b) = Suc (b_next_master b)"
  "b_masters (put_master x b) = dset (m_name x) (b_next_master b) (b_masters b)"
  "sats (b_hive (put_master x b)) = sats (b_hive b)"
  "masters (b_hive (put_master x b)) = (masters (b_hive b))(b_next_master b := x)"
  "b_masters (put_satellite y b) = b_masters b" "b_relays (put_satellite y b) = b_relays b"
  "b_connections (put_satellite y b) = b_connections b"
  "b_next_master (put_satellite y b) = b_next_master b"
  "b_next_sat (put_satellite y b) = Suc (b_next_sat b)"
  "b_satellites (put_satellite y b) = dset (s_name y) (b_next_sat b) (b_satellites b)"
  "masters (b_hive (put_satellite y b)) = masters (b_hive b)"
  "sats (b_hive (put_satellite y b)) = (sats (b_hive b))(b_next_sat b := y)"
  by (simp_all add: put_master_def put_satellite_def install_network_def)

lemma create_sel [simp]:
  "s_name (satellite_create u p n name site sh bus) = name"
  "s_bus (satellite_create u p n name site sh bus) = bus"
  "s_conn (satellite_create u p n name site sh bus) = None"
  by (simp_all add: satellite_create_def make_identity_def Let_def)

lemma master_create_Inr:
  "master_create name k a = Inr x \<Longrightarrow> m_name x = name \<and> m_upstream x = None
    \<and> m_agent x = (case ma_agent k of None \<Rightarrow> a | Some a' \<Rightarrow> a')"
  by (auto simp: master_create_def split: if_splits)

lemma relay_master [simp]:
  "master_create n (no_master_args\<lparr>ma_agent := Some bus\<rparr>) a = Inr
     \<lparr>m_name = n, m_db = new_db, m_clients = [], m_records = [], m_agent = bus, m_upstream = None,
      m_tmpdir = True, m_network = In_Process\<rparr>"
  by (simp add: master_create_def no_master_args_def)

lemma builder_inv_new: "builder_inv (new_builder w)"
  by (simp add: builder_inv_defs new_builder_def dict_simps pd.good_empty)

lemma builder_inv_put_master:
  assumes "builder_inv b"
  shows "builder_inv (put_master x b)"
  using assms unfolding builder_inv_defs
  by (auto simp: dict_simps less_Suc_eq pd.good_store) fastforce+

lemma builder_inv_put_satellite:
  assumes "builder_inv b"
  shows "builder_inv ((put_satellite y b)\<lparr>b_connections := b_connections b @ [(s_name y, mn, kw)]\<rparr>)
    \<longleftrightarrow> dget (b_masters b) mn \<noteq> None"
  using assms unfolding builder_inv_defs
  by (auto simp: dict_simps less_Suc_eq pd.good_store) fastforce+

lemma valid_listener:
  assumes "builder_inv b" and "valid_upstream b up" and "resolve_listener up = Inr l"
  shows "dget (b_masters b) (m_name (masters (b_hive b) l)) \<noteq> None"
  using assms
  by (cases up) (simp_all add: resolve_listener_def builder_inv_def masters_ok_def)

lemma bus_inv [simp]: "builder_inv (b\<lparr>b_next_bus := n\<rparr>) = builder_inv b"
  by (simp add: builder_inv_defs)

lemma builder_inv_link:
  assumes "builder_inv b" and "valid_upstream b up" and "resolve_listener up = Inr l"
  shows "builder_inv ((put_satellite y (b\<lparr>b_next_bus := n\<rparr>))
    \<lparr>b_connections := b_connections b @ [(s_name y, m_name (masters (b_hive b) l), kw)]\<rparr>)"
  using builder_inv_put_satellite [of "b\<lparr>b_next_bus := n\<rparr>" y] valid_listener [OF assms] assms(1)
  by simp

lemma builder_inv_master: "builder_inv b \<Longrightarrow> builder_inv (snd (add_master n k b))"
  by (auto simp: add_master_def builder_inv_put_master split: sum.split)

lemma builder_inv_satellite:
  assumes "builder_inv b" and "valid_upstream b up"
  shows "builder_inv (snd (add_satellite su n up sh kw b))"
proof (cases "resolve_listener up")
  case (Inr l)
  let ?x = "satellite_create (su_uuid su) (su_proto su) (b_next_sat b) n None sh (b_next_bus b)"
  from Inr builder_inv_link [OF assms Inr, of ?x] show ?thesis
    by (simp add: add_satellite_def Let_def)
qed (simp add: add_satellite_def assms)

lemma builder_inv_relay:
  assumes "builder_inv b" and "valid_upstream b up"
  shows "builder_inv (snd (add_relay su n up kw b))"
proof (cases "resolve_listener up")
  case (Inr l)
  let ?b = "b\<lparr>b_next_bus := b_next_bus b + 1\<rparr>"
  let ?x = "satellite_create (su_uuid su) (su_proto su) (b_next_sat b) (n @ ''_sat'') None False (b_next_bus b)"
  let ?y = "\<lparr>m_name = n @ ''_master'', m_db = new_db, m_clients = [], m_records = [],
    m_agent = b_next_bus b, m_upstream = None, m_tmpdir = True, m_network = In_Process\<rparr>"
  let ?r = "\<lparr>r_name = n, r_upstream = b_next_sat b, r_listener = b_next_master b, r_bus = b_next_bus b\<rparr>"
  define b1 where "b1 = put_master ?y ((put_satellite ?x ?b)
      \<lparr>b_connections := b_connections ?b @ [(s_name ?x, m_name (masters (b_hive b) l), kw)]\<rparr>)"
  have i1: "builder_inv b1"
    unfolding b1_def using builder_inv_link [OF assms Inr, of ?x]
    by (intro builder_inv_put_master) simp
  have new: "\<And>k r. dget (b_relays b1) k = Some r \<Longrightarrow> r_listener r < b_next_master b"
    using assms(1) by (simp add: b1_def builder_inv_defs)
  have eq: "snd (add_relay su n up kw b) =
      bind_upstream (b_next_master b) (b_next_sat b) b1\<lparr>b_relays := dset n ?r (b_relays b1)\<rparr>"
    using Inr by (simp add: add_relay_def Let_def b1_def put_master_def bind_upstream_def)
  have at: "s_name (sats (b_hive b1) (b_next_sat b)) = n @ ''_sat''"
    "s_bus (sats (b_hive b1) (b_next_sat b)) = b_next_bus b"
    "m_name (masters (b_hive b1) (b_next_master b)) = n @ ''_master''"
    "m_agent (masters (b_hive b1) (b_next_master b)) = b_next_bus b"
    "m_network (masters (b_hive b1) (b_next_master b)) = In_Process"
    "b_next_master b < b_next_master b1" "b_next_sat b < b_next_sat b1"
    by (simp_all add: b1_def)
  have "relay_ok (snd (add_relay su n up kw b)) n ?r"
    unfolding eq using at by (simp add: relay_ok_def bind_upstream_def)
  moreover have "relay_ok (snd (add_relay su n up kw b)) k r" if "dget (b_relays b1) k = Some r" for k r
    using i1 that new [OF that] unfolding eq
    by (auto simp: builder_inv_def relays_ok_def relay_ok_def bind_upstream_def)
  moreover have "masters_ok (snd (add_relay su n up kw b))" "sats_ok (snd (add_relay su n up kw b))"
    "links_ok (snd (add_relay su n up kw b))" "dict_ok (b_satellites (snd (add_relay su n up kw b)))"
    "dict_ok (b_masters (snd (add_relay su n up kw b)))"
    using i1 unfolding eq
    by (auto simp: builder_inv_def masters_ok_def sats_ok_def links_ok_def bind_upstream_def)
  ultimately show ?thesis
    by (auto simp: builder_inv_def relays_ok_def eq dict_simps split: if_splits)
qed (simp add: add_relay_def assms)

lemma builder_inv_run: "builder_inv b \<Longrightarrow> same_nodes (b_hive b) w \<Longrightarrow> builder_inv (b\<lparr>b_hive := w\<rparr>)"
  by (simp add: builder_inv_defs same_nodes_def)

interpretation bi: kept_invariant "\<lambda>b. \<exists>w. b = new_builder w" builder_step builder_inv
proof unfold_locales
  show "\<exists>w. b = new_builder w \<Longrightarrow> builder_inv b" for b :: "'a builder"
    using builder_inv_new by blast
  show "builder_step b b' \<Longrightarrow> builder_inv b \<Longrightarrow> builder_inv b'" for b b' :: "'a builder"
    by (induction rule: builder_step.induct)
      (auto intro: builder_inv_master builder_inv_satellite builder_inv_relay builder_inv_run)
qed

text \<open>No node is held under two names.\<close>

lemma distinct_nodes:
  assumes "dict_ok d" and "\<And>n k. dget d n = Some k \<Longrightarrow> name k = n"
  shows "distinct (dvals d)"
proof -
  have "map name (dvals d) = dkeys d"
    using assms by (auto simp: dvals_def dkeys_def dict_ok_def dget_def map_of_eq_Some_iff)
  moreover have "distinct (dkeys d)" using assms(1) by (rule pd.distinct_keys)
  ultimately show ?thesis by (metis distinct_map)
qed

lemma distinct_satellites: "builder_inv b \<Longrightarrow> distinct (all_satellites b)"
  unfolding all_satellites_def
  by (rule distinct_nodes [where name = "\<lambda>s. s_name (sats (b_hive b) s)"])
    (simp_all add: builder_inv_def sats_ok_def)

lemma distinct_masters: "builder_inv b \<Longrightarrow> distinct (all_masters b)"
  unfolding all_masters_def
  by (rule distinct_nodes [where name = "\<lambda>m. m_name (masters (b_hive b) m)"])
    (simp_all add: builder_inv_def masters_ok_def)

section \<open>Parents before children\<close>

text \<open>With names used once: \<open>up\<close> gives the satellite that a listener's relay needs upstream.\<close>

inductive fresh_step :: "'t builder \<Rightarrow> 't builder \<Rightarrow> bool" where
  fs_master: "n \<notin> set (dkeys (b_masters b)) \<Longrightarrow> fresh_step b (snd (add_master n k b))"
| fs_satellite: "valid_upstream b up \<Longrightarrow> n \<notin> set (dkeys (b_satellites b)) \<Longrightarrow>
     fresh_step b (snd (add_satellite su n up sh kw b))"
| fs_relay: "valid_upstream b up \<Longrightarrow> n @ ''_sat'' \<notin> set (dkeys (b_satellites b)) \<Longrightarrow>
     n @ ''_master'' \<notin> set (dkeys (b_masters b)) \<Longrightarrow> fresh_step b (snd (add_relay su n up kw b))"

definition needs :: "'t builder \<Rightarrow> string \<Rightarrow> string option" where
  "needs b mn = (case dget (b_masters b) mn of
     None \<Rightarrow> None
   | Some m \<Rightarrow> map_option (\<lambda>u. s_name (sats (b_hive b) u)) (m_upstream (masters (b_hive b) m)))"

fun ordered :: "(string \<Rightarrow> string option) \<Rightarrow> string set \<Rightarrow> link list \<Rightarrow> bool" where
  "ordered up seen [] = True"
| "ordered up seen ((sn, mn, kw) # ls) =
     ((\<forall>p. up mn = Some p \<longrightarrow> p \<in> seen) \<and> ordered up (insert sn seen) ls)"

lemma ordered_append:
  "ordered up seen (ls @ ks) \<longleftrightarrow> ordered up seen ls \<and> ordered up (seen \<union> fst ` set ls) ks"
  by (induction ls arbitrary: seen) (auto split: prod.split)

lemma ordered_cong:
  "(\<And>sn mn kw. (sn, mn, kw) \<in> set ls \<Longrightarrow> up mn = up' mn) \<Longrightarrow> ordered up seen ls = ordered up' seen ls"
proof (induction ls arbitrary: seen)
  case (Cons l ls)
  obtain sn mn kw where l: "l = (sn, mn, kw)" by (cases l)
  have "ordered up (insert sn seen) ls = ordered up' (insert sn seen) ls"
    using Cons.prems by (intro Cons.IH) auto
  moreover have "up mn = up' mn" using Cons.prems [of sn mn kw] l by simp
  ultimately show ?case by (simp add: l)
qed simp

definition parents_inv :: "'t builder \<Rightarrow> bool" where
  "parents_inv b \<longleftrightarrow> builder_inv b \<and> ordered (needs b) {} (b_connections b) \<and>
     (\<forall>m < b_next_master b. \<forall>u. m_upstream (masters (b_hive b) m) = Some u \<longrightarrow>
        u < b_next_sat b \<and> s_name (sats (b_hive b) u) \<in> fst ` set (b_connections b))"

lemma needs_known:
  assumes "parents_inv b" and "needs b mn = Some p"
  shows "p \<in> fst ` set (b_connections b)"
proof -
  obtain m u where m: "dget (b_masters b) mn = Some m" "m_upstream (masters (b_hive b) m) = Some u"
    "p = s_name (sats (b_hive b) u)"
    using assms(2) by (auto simp: needs_def split: option.splits)
  moreover have "m < b_next_master b"
    using m(1) assms(1) by (simp add: parents_inv_def builder_inv_def masters_ok_def)
  ultimately show ?thesis using assms(1) by (simp add: parents_inv_def)
qed

lemma linked_masters:
  assumes "builder_inv b" and "(sn, mn, kw) \<in> set (b_connections b)"
  shows "\<exists>m. dget (b_masters b) mn = Some m \<and> m < b_next_master b"
  using assms by (fastforce simp: builder_inv_def links_ok_def masters_ok_def)

text \<open>A step that adds one link and leaves the older masters' needs as they were.\<close>

lemma ordered_link:
  assumes "parents_inv b" and "b_connections b' = b_connections b @ [(sn, mn, kw)]"
    and "\<And>sn mn kw. (sn, mn, kw) \<in> set (b_connections b) \<Longrightarrow> needs b' mn = needs b mn"
    and "needs b' mn = needs b mn"
  shows "ordered (needs b') {} (b_connections b')"
proof -
  have "ordered (needs b') {} (b_connections b)"
    using assms(1,3) ordered_cong [of "b_connections b" "needs b'" "needs b"]
    by (simp add: parents_inv_def)
  with assms(4) needs_known [OF assms(1), of mn] show ?thesis
    by (auto simp: assms(2) ordered_append)
qed

lemma needs_put_master:
  assumes "builder_inv b" and "dget (b_masters b) mn = Some m" and "mn \<noteq> m_name x"
  shows "needs (put_master x b) mn = needs b mn"
  using assms by (auto simp: needs_def dict_simps builder_inv_def masters_ok_def)

lemma needs_put_satellite:
  assumes "parents_inv b"
  shows "needs (put_satellite y b) mn = needs b mn"
  using assms
  by (fastforce simp: needs_def parents_inv_def builder_inv_def masters_ok_def
      split: option.split intro: option.map_cong)

lemma needs_frame [simp]:
  "needs (b\<lparr>b_connections := cs\<rparr>) = needs b" "needs (b\<lparr>b_next_bus := n\<rparr>) = needs b"
  "needs (b\<lparr>b_relays := rs\<rparr>) = needs b"
  by (rule ext, simp add: needs_def split: option.split)+

lemma parents_bus [simp]: "parents_inv (b\<lparr>b_next_bus := n\<rparr>) = parents_inv b"
  by (simp add: parents_inv_def)

lemma parents_inv_master:
  assumes "parents_inv b" and "n \<notin> set (dkeys (b_masters b))"
  shows "parents_inv (snd (add_master n k b))"
proof (cases "master_create n k (b_next_bus b)")
  case (Inr x)
  let ?b = "b\<lparr>b_next_bus := b_next_bus b + 1\<rparr>"
  have x: "m_name x = n" "m_upstream x = None" using master_create_Inr [OF Inr] by simp_all
  have "needs (put_master x ?b) mn = needs b mn" if l: "(sn, mn, kw) \<in> set (b_connections b)" for sn mn kw
  proof -
    obtain m where m: "dget (b_masters b) mn = Some m"
      using linked_masters [OF _ l] assms(1) by (auto simp: parents_inv_def)
    with assms(2) have "mn \<noteq> n" by (auto simp: pd.in_keys_iff)
    with needs_put_master [of ?b mn m x] m assms(1) x show ?thesis by (simp add: parents_inv_def)
  qed
  then have "ordered (needs (put_master x ?b)) {} (b_connections b)"
    using assms(1) ordered_cong [of "b_connections b" "needs (put_master x ?b)" "needs b"]
    by (simp add: parents_inv_def)
  with assms(1) x Inr builder_inv_master [of b n k] show ?thesis
    by (simp add: parents_inv_def add_master_def less_Suc_eq)
qed (simp add: add_master_def assms)

lemma parents_inv_satellite:
  assumes "parents_inv b" and "valid_upstream b up"
  shows "parents_inv (snd (add_satellite su n up sh kw b))"
proof (cases "resolve_listener up")
  case (Inr l)
  let ?b = "b\<lparr>b_next_bus := b_next_bus b + 1\<rparr>"
  let ?b' = "snd (add_satellite su n up sh kw b)"
  obtain x where x: "?b' = (put_satellite x ?b)\<lparr>b_connections := b_connections b @
      [(n, m_name (masters (b_hive b) l), kw)]\<rparr>"
    using Inr by (simp add: add_satellite_def Let_def)
  have "needs ?b' mn = needs b mn" for mn
    using needs_put_satellite [of ?b x mn] assms(1) by (simp add: x)
  then have "ordered (needs ?b') {} (b_connections ?b')"
    using assms(1) by (intro ordered_link [of b ?b']) (simp_all add: x)
  moreover have "builder_inv ?b'" using assms builder_inv_satellite by (auto simp: parents_inv_def)
  ultimately show ?thesis
    using assms(1) by (auto simp: parents_inv_def x)
qed (simp add: add_satellite_def assms)

lemma parents_inv_relay:
  assumes inv: "parents_inv b" and up: "valid_upstream b up"
    and fresh: "n @ ''_master'' \<notin> set (dkeys (b_masters b))"
  shows "parents_inv (snd (add_relay su n up kw b))"
proof (cases "resolve_listener up")
  case (Inr l)
  let ?b' = "snd (add_relay su n up kw b)"
  define x :: "'a satellite" where "x = satellite_create (su_uuid su) (su_proto su) (b_next_sat b)
    (n @ ''_sat'') None False (b_next_bus b)"
  have b': "b_connections ?b' = b_connections b @ [(n @ ''_sat'', m_name (masters (b_hive b) l), kw)]"
    "b_next_master ?b' = Suc (b_next_master b)" "b_next_sat ?b' = Suc (b_next_sat b)"
    "b_masters ?b' = dset (n @ ''_master'') (b_next_master b) (b_masters b)"
    "sats (b_hive ?b') = (sats (b_hive b))(b_next_sat b := x)"
    "\<And>m. m \<noteq> b_next_master b \<Longrightarrow> masters (b_hive ?b') m = masters (b_hive b) m"
    "m_upstream (masters (b_hive ?b') (b_next_master b)) = Some (b_next_sat b)"
    using Inr by (simp_all add: add_relay_def Let_def bind_upstream_def x_def)
  have old: "needs ?b' mn = needs b mn" if m: "dget (b_masters b) mn = Some m" for mn m
  proof -
    have "mn \<noteq> n @ ''_master''" using fresh m by (auto simp: pd.in_keys_iff)
    moreover have lt: "m < b_next_master b"
      using inv m by (simp add: parents_inv_def builder_inv_def masters_ok_def)
    moreover have "u < b_next_sat b" if "m_upstream (masters (b_hive b) m) = Some u" for u
      using inv lt that by (auto simp: parents_inv_def)
    ultimately show ?thesis
      using m by (cases "m_upstream (masters (b_hive b) m)") (auto simp: needs_def b' dict_simps)
  qed
  have "needs ?b' mn = needs b mn" if "(sn, mn, kw) \<in> set (b_connections b)" for sn mn kw
    using linked_masters [of b sn mn kw] inv that old by (auto simp: parents_inv_def)
  moreover have "needs ?b' (m_name (masters (b_hive b) l)) = needs b (m_name (masters (b_hive b) l))"
    using valid_listener [OF _ up Inr] inv old by (auto simp: parents_inv_def)
  ultimately have "ordered (needs ?b') {} (b_connections ?b')"
    using ordered_link [OF inv b'(1)] by blast
  moreover have "builder_inv ?b'" using inv up builder_inv_relay by (auto simp: parents_inv_def)
  moreover have "\<forall>m < b_next_master ?b'. \<forall>u. m_upstream (masters (b_hive ?b') m) = Some u \<longrightarrow>
      u < b_next_sat ?b' \<and> s_name (sats (b_hive ?b') u) \<in> fst ` set (b_connections ?b')"
    using inv b'(6,7) by (auto simp: parents_inv_def b'(1-5) less_Suc_eq x_def)
  ultimately show ?thesis by (simp add: parents_inv_def)
qed (simp add: add_relay_def assms)

lemma parents_inv_new: "parents_inv (new_builder w)"
  using builder_inv_new by (simp add: parents_inv_def new_builder_def)

interpretation bp: kept_invariant "\<lambda>b. \<exists>w. b = new_builder w" fresh_step parents_inv
proof unfold_locales
  show "\<exists>w. b = new_builder w \<Longrightarrow> parents_inv b" for b :: "'a builder"
    using parents_inv_new by blast
  show "fresh_step b b' \<Longrightarrow> parents_inv b \<Longrightarrow> parents_inv b'" for b b' :: "'a builder"
    by (induction rule: fresh_step.induct)
      (auto intro: parents_inv_master parents_inv_satellite parents_inv_relay)
qed

section \<open>What starting a hive does\<close>

text \<open>The abstract state of a hive: for every satellite whether it has a connection, and its
  master. \<open>link_all\<close> is what \<open>start_all\<close> promises: the entries in order, each connecting its
  satellite unless it is connected already.\<close>

type_synonym linkage = "nat \<Rightarrow> bool \<times> nat option"

definition linkage :: "'t hive \<Rightarrow> linkage" where
  "linkage w = (\<lambda>s. (s_conn (sats w s) \<noteq> None, s_master (sats w s)))"

fun link_one :: "'t builder \<Rightarrow> link \<Rightarrow> linkage \<Rightarrow> linkage" where
  "link_one b (sn, mn, kw) st =
     (case (dget (b_satellites b) sn, dget (b_masters b) mn) of
        (Some s, Some m) \<Rightarrow> (if fst (st s) then st else st(s := (True, Some m)))
      | _ \<Rightarrow> st)"

fun link_all :: "'t builder \<Rightarrow> link list \<Rightarrow> linkage \<Rightarrow> linkage" where
  "link_all b [] st = st"
| "link_all b (l # ls) st = link_all b ls (link_one b l st)"

text \<open>A library in which every connect succeeds: \<open>connect\<close> to an in-process master on an idle thread
  returns, with nothing left in the queue, and has linked this satellite to this master and no other; the
  network protocols are as they were.\<close>

definition connects_ok :: "'t core \<Rightarrow> bool" where
  "connects_ok co \<longleftrightarrow> (\<forall>c s m k. idle c \<longrightarrow> queue c = [] \<longrightarrow> m_network (masters (world c) m) = In_Process \<longrightarrow> (\<exists>d.
     leads_to (call (sat_connect co s m k) c) d \<and> idle d \<and> queue d = [] \<and> raising d = None
     \<and> linkage (world d) = (linkage (world c))(s := (True, Some m)) \<and> same_networks (world c) (world d)))"

definition link_good :: "'t builder \<Rightarrow> link \<Rightarrow> bool" where
  "link_good b l \<longleftrightarrow> (case l of (sn, mn, kw) \<Rightarrow>
     dget (b_satellites b) sn \<noteq> None \<and> dget (b_masters b) mn \<noteq> None \<and> kw \<noteq> None)"

text \<open>The masters that satellites are linked to are in-process ones.\<close>

definition links_in_process :: "link list \<Rightarrow> 't builder \<Rightarrow> 't hive \<Rightarrow> bool" where
  "links_in_process ls b w \<longleftrightarrow> (\<forall>(sn, mn, kw) \<in> set ls. \<forall>m. dget (b_masters b) mn = Some m \<longrightarrow>
     m_network (masters w m) = In_Process)"

lemma links_in_process_same: "same_networks v w \<Longrightarrow> links_in_process ls b w = links_in_process ls b v"
  by (simp add: links_in_process_def same_networks_def)

lemma links_in_process_Cons [simp]:
  "links_in_process ((sn, mn, kw) # ls) b w \<longleftrightarrow> links_in_process ls b w
     \<and> (\<forall>m. dget (b_masters b) mn = Some m \<longrightarrow> m_network (masters w m) = In_Process)"
  by (auto simp: links_in_process_def)

lemma links_in_process_Nil [simp]: "links_in_process [] b w"
  by (simp add: links_in_process_def)

lemma call_plain: "raising c = None \<Longrightarrow> call p c = c\<lparr>stack := [FProg p]\<rparr>"
  by (cases c) (simp add: call_def)

lemma call_Dyn: "leads_to (call (f (world c)) c) d \<Longrightarrow> leads_to (call (Dyn f) c) d"
  by (rule leads_step [where d = "call (f (world c)) c"]) (simp_all add: call_def pump_step_def)

lemma call_Ret: "idle c \<Longrightarrow> leads_to (call Ret c) (c\<lparr>raising := None\<rparr>)"
  by (rule leads_step [where d = "c\<lparr>raising := None\<rparr>"])
    (simp_all add: call_def pump_step_def idle_def)

lemma start_one_links:
  assumes "connects_ok co" and "link_good b l" and "idle c" and "queue c = []"
    and "links_in_process [l] b (world c)"
  shows "\<exists>d. leads_to (call (start_one co b l) c) d \<and> idle d \<and> queue d = [] \<and> raising d = None
    \<and> linkage (world d) = link_one b l (linkage (world c)) \<and> same_networks (world c) (world d)"
proof -
  obtain sn mn kw s m k where l: "l = (sn, mn, kw)" "dget (b_satellites b) sn = Some s"
    "dget (b_masters b) mn = Some m" "kw = Some k"
    using assms(2) by (cases l) (auto simp: link_good_def)
  show ?thesis
  proof (cases "s_conn (sats (world c) s) = None")
    case True
    obtain d where d: "leads_to (call (sat_connect co s m k) c) d" "idle d" "queue d = []"
      "raising d = None" "linkage (world d) = (linkage (world c))(s := (True, Some m))"
      "same_networks (world c) (world d)"
      using assms(1,3,4,5) l(1,3) unfolding connects_ok_def by fastforce
    from d(1) True have "leads_to (call (start_one co b l) c) d"
      by (simp add: start_one_def l call_Dyn)
    with d True show ?thesis by (intro exI [of _ d]) (simp add: l linkage_def)
  next
    case False
    have "leads_to (call (start_one co b l) c) (c\<lparr>raising := None\<rparr>)"
      using False call_Ret [OF assms(3)] by (simp add: start_one_def l call_Dyn)
    with assms(3,4) False show ?thesis
      by (intro exI [of _ "c\<lparr>raising := None\<rparr>"]) (auto simp: l linkage_def idle_def)
  qed
qed

lemma start_links:
  assumes "connects_ok co" and "\<forall>l \<in> set ls. link_good b l"
    and "idle c" and "queue c = []" and "raising c = None" and "links_in_process ls b (world c)"
  shows "\<exists>d. leads_to (call (pfor ls (start_one co b)) c) d \<and> idle d \<and> queue d = []
    \<and> raising d = None \<and> linkage (world d) = link_all b ls (linkage (world c))
    \<and> same_networks (world c) (world d)"
  using assms(2-)
proof (induction ls arbitrary: c)
  case Nil
  with call_Ret [OF Nil.prems(2)] show ?case
    by (intro exI [of _ "c\<lparr>raising := None\<rparr>"]) (simp add: idle_def)
next
  case (Cons l ls)
  obtain e where e: "leads_to (call (start_one co b l) c) e" "idle e" "queue e = []"
    "raising e = None" "linkage (world e) = link_one b l (linkage (world c))" "same_networks (world c) (world e)"
    using start_one_links [OF assms(1) _ Cons.prems(2,3), of b l] Cons.prems(1,5) by (cases l) auto
  have "links_in_process ls b (world e)"
    using Cons.prems(5) links_in_process_same [OF e(6), of ls b] by (cases l) simp
  obtain d where d: "leads_to (call (pfor ls (start_one co b)) e) d" "idle d" "queue d = []"
    "raising d = None" "linkage (world d) = link_all b ls (linkage (world e))" "same_networks (world e) (world d)"
    using Cons.IH [of e] e Cons.prems(1) \<open>links_in_process ls b (world e)\<close> by auto
  have "stack e = []" using e(2) by (simp add: idle_def)
  from leads_seq [OF e(1) this e(4) Cons.prems(4), of "pfor ls (start_one co b)" "[]"]
  have "leads_to (call (pfor (l # ls) (start_one co b)) c) (call (pfor ls (start_one co b)) e)"
    using Cons.prems(4) e(4) by (simp add: call_plain)
  with d e(5,6) show ?case
    by (intro exI [of _ d]) (auto intro: leads_trans same_networks_trans)
qed

definition in_process :: "'t builder \<Rightarrow> bool" where
  "in_process b \<longleftrightarrow> (\<forall>m \<in> set (all_masters b). m_network (masters (b_hive b) m) = In_Process)"

lemma in_process_links: "in_process b \<Longrightarrow> links_in_process ls b (b_hive b)"
  by (auto simp: links_in_process_def in_process_def all_masters_def dget_def dvals_def dest!: map_of_SomeD)

text \<open>A builder that was never asked for a loopback master.\<close>

definition local_masters :: "'t builder \<Rightarrow> bool" where
  "local_masters b \<longleftrightarrow> (\<forall>m < b_next_master b. m_network (masters (b_hive b) m) = In_Process)"

lemma local_new [simp]: "local_masters (new_builder w)"
  by (simp add: local_masters_def new_builder_def)

lemma local_master: "\<not> ma_loopback k \<Longrightarrow> local_masters b \<Longrightarrow> local_masters (snd (add_master n k b))"
  by (auto simp: local_masters_def add_master_def master_create_def less_Suc_eq)

lemma local_satellite: "local_masters b \<Longrightarrow> local_masters (snd (add_satellite su n up sh kw b))"
  by (auto simp: local_masters_def add_satellite_def Let_def split: sum.split)

lemma local_relay: "local_masters b \<Longrightarrow> local_masters (snd (add_relay su n up kw b))"
  by (auto simp: local_masters_def add_relay_def Let_def bind_upstream_def less_Suc_eq split: sum.split)

lemma local_in_process: "builder_inv b \<Longrightarrow> local_masters b \<Longrightarrow> in_process b"
  using pd.vals_ran [of "b_masters b"]
  by (auto simp: in_process_def local_masters_def builder_inv_def masters_ok_def all_masters_def)

text \<open>The first entry of a satellite decides.\<close>

lemma link_all_done: "fst (st s) \<Longrightarrow> link_all b ls st s = st s"
proof (induction ls arbitrary: st)
  case (Cons l ls)
  obtain sn mn kw where "l = (sn, mn, kw)" by (cases l)
  with Cons.prems have "link_one b l st s = st s"
    by (auto split: option.split)
  with Cons show ?case by simp
qed simp

lemma link_all_first:
  assumes "\<forall>l \<in> set ls. link_good b l" and "\<not> fst (st s)" and "dget (b_satellites b) sn = Some s"
    and "\<And>n. dget (b_satellites b) n = Some s \<Longrightarrow> n = sn"
    and "map_of (map (\<lambda>(a, m, k). (a, m)) ls) sn = Some mn"
  shows "link_all b ls st s = (True, dget (b_masters b) mn)"
  using assms(1,2,5)
proof (induction ls arbitrary: st)
  case (Cons l ls)
  obtain a mn' kw where l: "l = (a, mn', kw)" by (cases l)
  with Cons.prems(1) obtain s' m' where s': "dget (b_satellites b) a = Some s'"
    "dget (b_masters b) mn' = Some m'" by (auto simp: link_good_def)
  show ?case
  proof (cases "a = sn")
    case True
    with l s' Cons.prems assms(3) link_all_done [of "st(s := (True, Some m'))" s b ls] show ?thesis
      by simp
  next
    case False
    with s' assms(4) have "s' \<noteq> s" by blast
    with l s' False Cons.prems Cons.IH [of "link_one b l st"] show ?thesis by simp
  qed
qed simp

lemma quiet_connects: "connects_ok quiet_core"
  unfolding connects_ok_def
proof (intro allI impI)
  fix c :: "unit hive pump" and s m k
  assume c: "idle c" "queue c = []" and inp: "m_network (masters (world c) m) = In_Process"
  let ?c = "connecting quiet_core s m k c" and ?n = "next_conn (world c)"
  let ?q = "quiet_core :: unit core"
  obtain row where row: "get_client_by_api_key (m_db (masters (registered s m k (world c)) m))
      (s_access_key (sats (world c) s)) = Some row"
    using registered_row by blast
  define w3 where "w3 = attach ?q s row (registered s m k (world c))"
  define w4 where "w4 = snd (settle (core_new_client ?q m ?n) w3)"
  define c2 where "c2 = ?c\<lparr>world := w3, stack := [FProg (core_new_client ?q m ?n), FDrain, FProg (finish_connect ?q s)]\<rparr>"
  define c4 where "c4 = c2\<lparr>world := w4, draining := False, stack := [FProg (finish_connect ?q s)]\<rparr>"
  have w4: "settle (core_new_client ?q m ?n) w3 = (Ret, w4)"
    "s_handshake (sats w4 s)" "linkage w4 = (linkage (world c))(s := (True, Some m))"
    "same_networks (world c) w4"
    by (auto simp: w4_def w3_def quiet_core_def attach_def new_connection_def Let_def linkage_def
        registered_def register_satellite_def same_networks_def)
  have "leads_to (call (sat_connect ?q s m k) c) c2"
    using leads_trans [OF connect_starts [OF c, of ?q] connect_greets [OF row inp]]
    by (simp add: c2_def w3_def)
  moreover have "leads_to c2 (c2\<lparr>world := w4, stack := [FDrain, FProg (finish_connect ?q s)]\<rparr>)"
    using w4(1) by (intro settle_returns) (simp_all add: c2_def)
  moreover have "leads_to (c2\<lparr>world := w4, stack := [FDrain, FProg (finish_connect ?q s)]\<rparr>) c4"
    using drain_done [of "c2\<lparr>world := w4, stack := [FDrain, FProg (finish_connect ?q s)]\<rparr>"]
    by (simp add: c4_def c2_def)
  moreover have "leads_to c4 (c4\<lparr>world := w4, stack := []\<rparr>)"
    using w4(2) by (intro settle_returns [where p = "finish_connect ?q s"])
      (simp_all add: finish_connect_def check_handshake_def c4_def c2_def)
  ultimately have run: "leads_to (call (sat_connect ?q s m k) c) (c4\<lparr>world := w4, stack := []\<rparr>)"
    by (blast intro: leads_trans)
  have "idle (c4\<lparr>world := w4, stack := []\<rparr>)"
    using c by (simp add: c4_def c2_def connecting_def idle_def)
  with run w4(3,4) show "\<exists>d. leads_to (call (sat_connect ?q s m k) c) d \<and> idle d \<and> queue d = []
      \<and> raising d = None \<and> linkage (world d) = (linkage (world c))(s := (True, Some m))
      \<and> same_networks (world c) (world d)"
    by (intro exI [of _ "c4\<lparr>world := w4, stack := []\<rparr>"]) (simp add: c4_def c2_def)
qed

section \<open>What stopping a hive does\<close>

text \<open>The stop and shutdown methods of a master deliver nothing and leave the satellites,
  connections and loopback servers alone; they may raise.\<close>

definition stops_plain :: "'t core \<Rightarrow> bool" where
  "stops_plain co \<longleftrightarrow> (\<forall>m. \<forall>p \<in> set (core_stops co m). \<forall>w.
     (fst (settle p w) = Ret \<or> (\<exists>e. fst (settle p w) = Throw e)) \<and> sats (snd (settle p w)) = sats w
     \<and> conns (snd (settle p w)) = conns w \<and> same_networks w (snd (settle p w))
     \<and> (\<forall>m. m_tmpdir (masters (snd (settle p w)) m) \<longrightarrow> m_tmpdir (masters w m)))"

lemma settle_attempt:
  assumes "fst (settle p w) = Ret \<or> (\<exists>e. fst (settle p w) = Throw e)"
  shows "settle (attempt p) w = (Ret, snd (settle p w))"
  using assms by (cases "settle p w") (auto simp: attempt_def)

text \<open>The loopback servers after the masters \<open>ms\<close> are stopped in turn; \<open>joined\<close> says whose thread ended.\<close>

definition nets_stopped ::
    "(nat \<Rightarrow> bool) \<Rightarrow> (nat \<Rightarrow> network) \<Rightarrow> nat list \<Rightarrow> net_world \<Rightarrow> net_world" where
  "nets_stopped joined kind = fold (\<lambda>m n. if kind m = Loopback then lb_stop (joined m) m n else n)"

abbreviation networks :: "'t hive \<Rightarrow> nat \<Rightarrow> network" where
  "networks w m \<equiv> m_network (masters w m)"

lemma settle_network_stop:
  "settle (network_stop co m) w = (Ret, w\<lparr>nets := nets_stopped (\<lambda>_. core_joined co m w) (networks w) [m] (nets w)\<rparr>)"
  by (simp add: network_stop_def nets_stopped_def split: network.split)

lemma nets_stopped_simps [simp]:
  "nets_stopped j k [] n = n"
  "nets_stopped j k (m # ms) n = nets_stopped j k ms (if k m = Loopback then lb_stop (j m) m n else n)"
  by (simp_all add: nets_stopped_def)

lemma nets_stopped_cong: "(\<And>m. m \<in> set ms \<Longrightarrow> j m = j' m) \<Longrightarrow> nets_stopped j k ms n = nets_stopped j' k ms n"
  by (induction ms arbitrary: n) simp_all

lemma master_cleanup_sel [simp]:
  "sats (master_cleanup m w) = sats w" "conns (master_cleanup m w) = conns w" "nets (master_cleanup m w) = nets w"
  "networks (master_cleanup m w) k = networks w k"
  "m_tmpdir (masters (master_cleanup m w) k) = (k \<noteq> m \<and> m_tmpdir (masters w k))"
  by (simp_all add: master_cleanup_def)

lemma stop_methods_settle:
  assumes "stops_plain co" and "set ps \<subseteq> set (core_stops co m)"
  shows "\<exists>w'. settle (pfor ps attempt) w = (Ret, w') \<and> sats w' = sats w \<and> conns w' = conns w
    \<and> same_networks w w' \<and> (\<forall>m'. m_tmpdir (masters w' m') \<longrightarrow> m_tmpdir (masters w m'))"
  using assms(2)
proof (induction ps arbitrary: w)
  case (Cons p ps)
  from Cons.prems assms(1) have p: "fst (settle p w) = Ret \<or> (\<exists>e. fst (settle p w) = Throw e)"
    "sats (snd (settle p w)) = sats w" "conns (snd (settle p w)) = conns w"
    "same_networks w (snd (settle p w))"
    "\<forall>m. m_tmpdir (masters (snd (settle p w)) m) \<longrightarrow> m_tmpdir (masters w m)"
    by (auto simp: stops_plain_def)
  from Cons.IH [of "snd (settle p w)"] Cons.prems p show ?case
    by (auto simp: settle_pseq_Ret [OF settle_attempt] intro: same_networks_trans)
qed simp

lemma stop_master_settles:
  assumes "stops_plain co"
  shows "\<exists>w'. settle (stop_master co m) w = (Ret, w') \<and> sats w' = sats w \<and> conns w' = conns w
    \<and> \<not> m_tmpdir (masters w' m) \<and> (\<forall>m'. m_tmpdir (masters w' m') \<longrightarrow> m_tmpdir (masters w m'))
    \<and> networks w' = networks w
    \<and> nets w' = nets_stopped (\<lambda>_. core_joined co m w) (networks w) [m] (nets w)"
proof -
  let ?w1 = "w\<lparr>nets := nets_stopped (\<lambda>_. core_joined co m w) (networks w) [m] (nets w)\<rparr>"
  have "settle (attempt (network_stop co m)) w = (Ret, ?w1)"
    using settle_attempt [of "network_stop co m" w] settle_network_stop [of co m w] by simp
  moreover obtain w' where w': "settle (pfor (core_stops co m) attempt) ?w1 = (Ret, w')" "sats w' = sats w"
    "conns w' = conns w" "same_networks ?w1 w'" "\<forall>m'. m_tmpdir (masters w' m') \<longrightarrow> m_tmpdir (masters w m')"
    using stop_methods_settle [OF assms subset_refl, of m ?w1] by auto
  ultimately have "settle (stop_master co m) w = (Ret, master_cleanup m w')"
    by (simp add: stop_master_def settle_pseq_Ret)
  with w'(2-) show ?thesis
    by (intro exI [of _ "master_cleanup m w'"]) (auto simp: same_networks_def)
qed

lemma stop_satellite_settles:
  assumes "drop_ok co" and "linked s w"
  shows "\<exists>w'. settle (stop_satellite co s) w = (Ret, w') \<and> s_conn (sats w' s) = None
    \<and> \<not> s_tmpdir (sats w' s) \<and> (s_conn (sats w s) \<noteq> None \<longrightarrow> unlinked (sats w' s))
    \<and> (\<forall>s'. s' \<noteq> s \<longrightarrow> sats w' s' = sats w s') \<and> conns w' = conns w \<and> same_networks w w'"
proof (cases "s_conn (sats w s) = None")
  case True
  then show ?thesis by (simp add: stop_satellite_def sat_cleanup_def)
next
  case False
  obtain w' where w': "settle (sat_disconnect co s) w = (Ret, w')" "unlinked (sats w' s)"
    "\<forall>s'. s' \<noteq> s \<longrightarrow> sats w' s' = sats w s'" "conns w' = conns w" "same_networks w w'"
    using disconnect_settles [OF assms] by blast
  from False w' settle_attempt [of "sat_disconnect co s" w] show ?thesis
    by (auto simp: stop_satellite_def settle_pseq_Ret sat_cleanup_def unlinked_def)
qed

definition stopped :: "'t hive \<Rightarrow> 't hive \<Rightarrow> nat \<Rightarrow> bool" where
  "stopped w w' s \<longleftrightarrow> s_conn (sats w' s) = None \<and> \<not> s_tmpdir (sats w' s)
     \<and> (s_conn (sats w s) \<noteq> None \<longrightarrow> unlinked (sats w' s))"

lemma stop_satellites_settle:
  assumes "drop_ok co" and "\<forall>s \<in> set ss. linked s w" and "distinct ss"
  shows "\<exists>w'. settle (pfor ss (stop_satellite co)) w = (Ret, w') \<and> (\<forall>s \<in> set ss. stopped w w' s)
    \<and> (\<forall>s. s \<notin> set ss \<longrightarrow> sats w' s = sats w s) \<and> same_networks w w'"
  using assms(2,3)
proof (induction ss arbitrary: w)
  case (Cons s ss)
  obtain w1 where w1: "settle (stop_satellite co s) w = (Ret, w1)" "s_conn (sats w1 s) = None"
    "\<not> s_tmpdir (sats w1 s)" "s_conn (sats w s) \<noteq> None \<longrightarrow> unlinked (sats w1 s)"
    "\<forall>s'. s' \<noteq> s \<longrightarrow> sats w1 s' = sats w s'" "conns w1 = conns w" "same_networks w w1"
    using stop_satellite_settles [OF assms(1), of s w] Cons.prems by auto
  have "\<forall>t \<in> set ss. linked t w1"
    using Cons.prems w1(5,6) by (auto simp: linked_def)
  with Cons.IH [of w1] Cons.prems obtain w2 where w2:
    "settle (pfor ss (stop_satellite co)) w1 = (Ret, w2)" "\<forall>t \<in> set ss. stopped w1 w2 t"
    "\<forall>t. t \<notin> set ss \<longrightarrow> sats w2 t = sats w1 t" "same_networks w1 w2" by auto
  moreover have "\<forall>t \<in> set ss. t \<noteq> s" using Cons.prems(2) by auto
  ultimately show ?case
    using w1 Cons.prems(2)
    by (intro exI [of _ w2]) (auto simp: settle_pseq_Ret stopped_def intro: same_networks_trans)
qed simp

lemma stop_masters_settle:
  assumes "stops_plain co" and "distinct ms"
  shows "\<exists>w' joined. settle (pfor ms (stop_master co)) w = (Ret, w') \<and> sats w' = sats w
    \<and> (\<forall>m \<in> set ms. \<not> m_tmpdir (masters w' m))
    \<and> (\<forall>m. m_tmpdir (masters w' m) \<longrightarrow> m_tmpdir (masters w m))
    \<and> networks w' = networks w \<and> nets w' = nets_stopped joined (networks w) ms (nets w)
    \<and> (\<forall>m. (\<forall>w. core_joined co m w) \<longrightarrow> joined m)"
  using assms(2)
proof (induction ms arbitrary: w)
  case (Cons m ms)
  obtain w1 where w1: "settle (stop_master co m) w = (Ret, w1)" "sats w1 = sats w"
    "\<not> m_tmpdir (masters w1 m)" "\<forall>m'. m_tmpdir (masters w1 m') \<longrightarrow> m_tmpdir (masters w m')"
    "networks w1 = networks w" "nets w1 = nets_stopped (\<lambda>_. core_joined co m w) (networks w) [m] (nets w)"
    using stop_master_settles [OF assms(1), of m w] by blast
  obtain w2 j where w2: "settle (pfor ms (stop_master co)) w1 = (Ret, w2)" "sats w2 = sats w1"
    "\<forall>m \<in> set ms. \<not> m_tmpdir (masters w2 m)"
    "\<forall>m. m_tmpdir (masters w2 m) \<longrightarrow> m_tmpdir (masters w1 m)"
    "networks w2 = networks w1" "nets w2 = nets_stopped j (networks w1) ms (nets w1)"
    "\<forall>m. (\<forall>w. core_joined co m w) \<longrightarrow> j m" using Cons.IH [of w1] Cons.prems by auto
  define j' where "j' = j(m := core_joined co m w)"
  have "nets_stopped j' k ms n = nets_stopped j k ms n" for k n
    using Cons.prems by (intro nets_stopped_cong) (auto simp: j'_def)
  moreover have "j' m = core_joined co m w" "\<forall>m. (\<forall>w. core_joined co m w) \<longrightarrow> j' m"
    using w2(7) by (simp_all add: j'_def)
  ultimately show ?case
    using w1 w2 by (intro exI [of _ w2] exI [of _ j']) (auto simp: settle_pseq_Ret)
qed auto

lemma stop_all_settles:
  assumes "drop_ok co" and "stops_plain co" and "\<forall>s \<in> set (all_satellites b). linked s w"
    and "builder_inv b"
  shows "\<exists>w' joined. settle (stop_all co b) w = (Ret, w') \<and> (\<forall>s \<in> set (all_satellites b). stopped w w' s)
    \<and> (\<forall>m \<in> set (all_masters b). \<not> m_tmpdir (masters w' m))
    \<and> networks w' = networks w \<and> nets w' = nets_stopped joined (networks w) (all_masters b) (nets w)
    \<and> (\<forall>m. (\<forall>w. core_joined co m w) \<longrightarrow> joined m)"
proof -
  obtain w1 where w1: "settle (pfor (all_satellites b) (stop_satellite co)) w = (Ret, w1)"
    "\<forall>s \<in> set (all_satellites b). stopped w w1 s" "same_networks w w1"
    using stop_satellites_settle [OF assms(1,3) distinct_satellites [OF assms(4)]] by blast
  obtain w2 j where w2: "settle (pfor (all_masters b) (stop_master co)) w1 = (Ret, w2)" "sats w2 = sats w1"
    "\<forall>m \<in> set (all_masters b). \<not> m_tmpdir (masters w2 m)" "networks w2 = networks w1"
    "nets w2 = nets_stopped j (networks w1) (all_masters b) (nets w1)"
    "\<forall>m. (\<forall>w. core_joined co m w) \<longrightarrow> j m"
    using stop_masters_settle [OF assms(2) distinct_masters [OF assms(4)], of w1] by blast
  have "networks w1 = networks w" "nets w1 = nets w" using w1(3) by (auto simp: same_networks_def)
  with w1(1,2) w2 show ?thesis
    by (intro exI [of _ w2] exI [of _ j]) (simp add: stop_all_def settle_pseq_Ret stopped_def)
qed

text \<open>The first entry of \<open>_connections\<close> for a satellite's name.\<close>

definition first_master :: "link list \<Rightarrow> string \<Rightarrow> string option" where
  "first_master ls n = map_of (map (\<lambda>(a, m, k). (a, m)) ls) n"

lemma first_master_append [simp]:
  "first_master (ls @ ks) n = (case first_master ls n of None \<Rightarrow> first_master ks n | Some m \<Rightarrow> Some m)"
  by (simp add: first_master_def map_add_def split: option.split)

lemma first_master_entry: "(n, mn, kw) \<in> set ls \<Longrightarrow> \<exists>m. first_master ls n = Some m"
  unfolding first_master_def by (cases "map_of (map (\<lambda>(a, m, k). (a, m)) ls) n") (force simp: map_of_eq_None_iff)+

definition kwargs_known :: "'t builder \<Rightarrow> bool" where
  "kwargs_known b \<longleftrightarrow> (\<forall>(sn, mn, kw) \<in> set (b_connections b). kw \<noteq> None)"

lemma links_good: "builder_inv b \<Longrightarrow> kwargs_known b \<Longrightarrow> \<forall>l \<in> set (b_connections b). link_good b l"
  by (auto simp: builder_inv_def links_ok_def kwargs_known_def link_good_def)

text \<open>What the first loop of \<open>start_all\<close> does: the servers come up one after the other, until one
  refuses.\<close>

fun servers_up :: "'t core \<Rightarrow> nat list \<Rightarrow> 't hive \<Rightarrow> unit result \<times> 't hive" where
  "servers_up co [] w = (Inr (), w)"
| "servers_up co (m # ms) w =
     (if networks w m = In_Process then servers_up co ms w
      else
        (let (config_error, boot) = core_server co m w;
             (r, n) = lb_run config_error boot m (nets w) in
         case r of Inl e \<Rightarrow> (Inl e, w\<lparr>nets := n\<rparr>) | Inr _ \<Rightarrow> servers_up co ms (w\<lparr>nets := n\<rparr>)))"

lemma settle_servers:
  "settle (pfor ms (network_run co)) w =
     (case servers_up co ms w of (Inl e, w') \<Rightarrow> (Throw e, w') | (Inr _, w') \<Rightarrow> (Ret, w'))"
  by (induction ms arbitrary: w)
    (auto simp: network_run_def settle_pseq Let_def split: network.split prod.split sum.split)

lemma servers_up_frame: "\<exists>n. snd (servers_up co ms w) = w\<lparr>nets := n\<rparr>"
proof (induction ms arbitrary: w)
  case (Cons m ms)
  obtain ce boot r n where run: "core_server co m w = (ce, boot)" "lb_run ce boot m (nets w) = (r, n)"
    by fastforce
  show ?case
    using Cons.IH [of w] Cons.IH [of "w\<lparr>nets := n\<rparr>"] run by (auto split: sum.split)
next
  case Nil
  show ?case by (rule exI [of _ "nets w"], cases w) simp
qed

lemma servers_up_nodes:
  assumes "servers_up co ms w = (r, w')"
  shows "sats w' = sats w" "masters w' = masters w" "linkage w' = linkage w"
  using servers_up_frame [of co ms w] assms by (auto simp: linkage_def)

lemma servers_in_process: "\<forall>m \<in> set ms. networks w m = In_Process \<Longrightarrow> servers_up co ms w = (Inr (), w)"
  by (induction ms) simp_all

lemma in_process_servers: "in_process b \<Longrightarrow> servers_up co (all_masters b) (b_hive b) = (Inr (), b_hive b)"
  by (rule servers_in_process) (simp add: in_process_def)

lemma servers_keep_up:
  assumes "servers_up co ms w = (Inr (), w')" and "sv_thread (nw_servers (nets w) m)"
    and "\<not> sv_broken (nw_servers (nets w) m)"
  shows "sv_thread (nw_servers (nets w') m) \<and> \<not> sv_broken (nw_servers (nets w') m)"
  using assms
proof (induction ms arbitrary: w)
  case (Cons k ms)
  obtain ce boot r n where run: "core_server co k w = (ce, boot)" "lb_run ce boot k (nets w) = (r, n)"
    by fastforce
  have up: "nw_servers n m = nw_servers (nets w) m"
    using run_others [of m k ce boot "nets w"] run_again [of "nets w" m ce boot] run(2) Cons.prems(2,3)
    by (cases "k = m") auto
  with Cons.IH [of w] Cons.IH [of "w\<lparr>nets := n\<rparr>"] Cons.prems run show ?case
    by (auto split: if_splits sum.splits)
qed simp

lemma servers_are_up:
  assumes "servers_up co ms w = (Inr (), w')" and "m \<in> set ms" and "networks w m = Loopback"
  shows "sv_thread (nw_servers (nets w') m) \<and> \<not> sv_broken (nw_servers (nets w') m)"
  using assms
proof (induction ms arbitrary: w)
  case (Cons k ms)
  obtain ce boot r n where run: "core_server co k w = (ce, boot)" "lb_run ce boot k (nets w) = (r, n)"
    by fastforce
  show ?case
  proof (cases "k = m")
    case True
    with Cons.prems run have "lb_run ce boot m (nets w) = (Inr (), n)"
      "servers_up co ms (w\<lparr>nets := n\<rparr>) = (Inr (), w')" by (auto split: sum.splits)
    then show ?thesis using run_up [of ce boot m "nets w" n] servers_keep_up [of co ms _ w' m] by fastforce
  next
    case False
    with Cons run show ?thesis by (auto split: if_splits sum.splits)
  qed
qed simp

lemma servers_up_again:
  assumes "\<forall>m \<in> set ms. networks w m = Loopback \<longrightarrow>
    sv_thread (nw_servers (nets w) m) \<and> \<not> sv_broken (nw_servers (nets w) m)"
  shows "servers_up co ms w = (Inr (), w)"
  using assms
proof (induction ms)
  case (Cons m ms)
  then show ?case
    by (cases "networks w m") (auto simp: run_again split: prod.split)
qed simp

lemma settled_first:
  assumes "settle p (world c) = (Ret, w)" and "raising c = None"
  shows "leads_to (c\<lparr>stack := [FProg (pseq p q)]\<rparr>) (c\<lparr>world := w, stack := [FProg q]\<rparr>)"
proof -
  have "leads_to (call p c) (c\<lparr>world := w, stack := []\<rparr>)"
    using settle_returns [of p "call p c" w "[]"] assms by (simp add: call_plain)
  from leads_seq [OF this _ _ assms(2), of q "[]"] show ?thesis by (simp add: assms(2))
qed

lemma pfor_append: "pfor (xs @ ys) f = pseq (pfor xs f) (pfor ys f)"
  by (induction xs) (simp_all add: pseq_assoc)

text \<open>Entries whose satellites are connected are skipped.\<close>

lemma start_skips_connected:
  assumes "\<forall>(sn, mn, kw) \<in> set ls. \<exists>s. dget (b_satellites b) sn = Some s \<and> s_conn (sats w s) \<noteq> None"
  shows "settle (pfor ls (start_one co b)) w = (Ret, w)"
  using assms by (induction ls) (auto simp: start_one_def settle_pseq)

text \<open>\<open>start_all\<close> when all servers come up, and when one does not.\<close>

lemma start_all_runs:
  assumes "connects_ok co" and "\<forall>l \<in> set (b_connections b). link_good b l" and "idle c" and "queue c = []"
    and "links_in_process (b_connections b) b (world c)"
    and "servers_up co (all_masters b) (world c) = (Inr (), w1)"
  shows "\<exists>d. leads_to (call (start_all co b) c) d \<and> idle d \<and> queue d = [] \<and> raising d = None
    \<and> linkage (world d) = link_all b (b_connections b) (linkage (world c))
    \<and> networks (world d) = networks (world c) \<and> nets (world d) = nets w1"
proof -
  let ?c = "c\<lparr>raising := None\<rparr>"
  let ?c1 = "?c\<lparr>world := w1\<rparr>"
  note w1 = servers_up_nodes [OF assms(6)]
  have idle: "idle ?c1" "queue ?c1 = []" "raising ?c1 = None" using assms(3,4) by (simp_all add: idle_def)
  have "links_in_process (b_connections b) b (world ?c1)"
    using assms(5) w1(2) by (simp add: links_in_process_def)
  then obtain d where d: "leads_to (call (pfor (b_connections b) (start_one co b)) ?c1) d" "idle d" "queue d = []"
    "raising d = None" "linkage (world d) = link_all b (b_connections b) (linkage (world ?c1))"
    "same_networks (world ?c1) (world d)"
    using start_links [OF assms(1,2) idle] by blast
  have "settle (pfor (all_masters b) (network_run co)) (world ?c) = (Ret, w1)"
    using assms(6) by (simp add: settle_servers)
  from settled_first [OF this, of "pfor (b_connections b) (start_one co b)"]
  have "leads_to (call (start_all co b) c) (call (pfor (b_connections b) (start_one co b)) ?c1)"
    by (cases c) (simp add: start_all_def call_def)
  then have "leads_to (call (start_all co b) c) d" using d(1) by (rule leads_trans)
  with d w1 show ?thesis by (intro exI [of _ d]) (auto simp: same_networks_def)
qed

lemma start_all_refused:
  assumes "servers_up co (all_masters b) (world c) = (Inl e, w1)" and "idle c"
  shows "\<exists>d. leads_to (call (start_all co b) c) d \<and> idle d \<and> queue d = queue c \<and> raising d = Some e
    \<and> world d = w1"
proof -
  let ?c = "call (start_all co b) c"
  have "settle (start_all co b) (world ?c) = (pseq (Throw e) (pfor (b_connections b) (start_one co b)), w1)"
    using assms(1) by (simp add: start_all_def settle_pseq settle_servers call_def)
  then have "leads_to ?c (?c\<lparr>world := w1, stack := [], raising := Some e\<rparr>)"
    by (intro settle_raises) (simp_all add: call_def)
  with assms(2) show ?thesis
    by (intro exI [of _ "?c\<lparr>world := w1, stack := [], raising := Some e\<rparr>"]) (simp add: call_def idle_def)
qed

lemma link_all_satellite:
  assumes "builder_inv b" and "kwargs_known b" and "get_satellite n b = Inr s" and "\<not> fst (st s)"
  shows "\<exists>mn m. first_master (b_connections b) n = Some mn \<and> get_master mn b = Inr m
    \<and> link_all b (b_connections b) st s = (True, Some m)"
proof -
  have s: "dget (b_satellites b) n = Some s"
    using assms(3) by (simp add: get_satellite_def split: option.splits)
  with assms(1) have "n \<in> fst ` set (b_connections b)" and name: "s_name (sats (b_hive b) s) = n"
    by (auto simp: builder_inv_def sats_ok_def)
  then obtain mn where mn: "first_master (b_connections b) n = Some mn"
    using first_master_entry by fastforce
  then obtain kw where "(n, mn, kw) \<in> set (b_connections b)"
    unfolding first_master_def by (drule_tac map_of_SomeD) auto
  then obtain m where m: "dget (b_masters b) mn = Some m" using linked_masters [OF assms(1)] by blast
  have "link_all b (b_connections b) st s = (True, dget (b_masters b) mn)"
  proof (rule link_all_first [where st = st, OF links_good [OF assms(1,2)] assms(4) s])
    show "k = n" if "dget (b_satellites b) k = Some s" for k
      using that assms(1) name by (auto simp: builder_inv_def sats_ok_def)
  qed (use mn in \<open>simp add: first_master_def\<close>)
  with mn m show ?thesis by (simp add: get_master_def)
qed

section \<open>Properties\<close>

definition example_supply :: node_supply where
  "example_supply = \<lparr>su_uuid = (\<lambda>n. replicate n CHR ''u''), su_proto = []\<rparr>"

text \<open>A hub, a relay under it, and a satellite under the relay.\<close>

definition example_chain :: "unit builder" where
  "example_chain = snd (add_satellite example_supply ''S'' (UpMaster 1) False (Some default_args)
     (snd (add_relay example_supply ''R'' (UpMaster 0) (Some default_args)
        (snd (add_master ''M'' no_master_args (new_builder example_hive))))))"

lemmas chain_eval = example_chain_def add_master_def add_satellite_def add_relay_def Let_def
  resolve_listener_def bind_upstream_def new_builder_def master_create_def no_master_args_def
  put_master_def put_satellite_def install_network_def

lemma example_chain_fresh: "reaches fresh_step (new_builder example_hive) example_chain"
proof -
  let ?b1 = "snd (add_master ''M'' no_master_args (new_builder example_hive))"
  let ?b2 = "snd (add_relay example_supply ''R'' (UpMaster 0) (Some default_args) ?b1)"
  have "fresh_step (new_builder example_hive) ?b1"
    by (rule fs_master) (simp add: new_builder_def dkeys_def)
  moreover have "fresh_step ?b1 ?b2"
    by (rule fs_relay) (simp_all add: chain_eval dkeys_def dset_def)
  moreover have "fresh_step ?b2 example_chain"
    unfolding example_chain_def by (rule fs_satellite) (simp_all add: chain_eval dkeys_def dset_def)
  ultimately show ?thesis by (blast intro: reaches_one reaches_trans)
qed

lemma fresh_step_builder: "reaches fresh_step b b' \<Longrightarrow> reaches builder_step b b'"
proof (induction rule: reaches.induct)
  case (reaches_step s t u)
  from reaches_step.hyps(2) have "builder_step t u"
    by (cases rule: fresh_step.cases) (auto intro: builder_step.intros)
  with reaches_step show ?case by (blast intro: reaches.reaches_step)
qed (rule reaches_refl)

text \<open>C18: Names always resolve. After any sequence of \<open>add_master\<close>, \<open>add_satellite\<close> and
  \<open>add_relay\<close> calls (names used again or not, upstreams any node of this builder) with the hive
  running in between, every recorded connection names a satellite and a master that the
  dictionaries hold under that name, so \<open>start_all\<close> never meets a missing key, and every
  satellite has a connection to start.\<close>

theorem connections_resolve:
  assumes "reaches builder_step (new_builder w) b"
  shows "(\<forall>(sn, mn, kw) \<in> set (b_connections b). \<exists>s m.
       get_satellite sn b = Inr s \<and> s_name (sats (b_hive b) s) = sn
       \<and> get_master mn b = Inr m \<and> m_name (masters (b_hive b) m) = mn)
    \<and> (\<forall>n s. get_satellite n b = Inr s \<longrightarrow> (\<exists>mn kw. (n, mn, kw) \<in> set (b_connections b)))"
proof -
  have inv: "builder_inv b" using assms by (blast intro: bi.inv_reachable)
  show ?thesis
    using inv unfolding builder_inv_def links_ok_def sats_ok_def masters_ok_def
    by (force simp: get_satellite_def get_master_def split: option.splits prod.splits)
qed

theorem connections_resolve_witness:
  "\<exists>s m. get_satellite ''S'' example_chain = Inr s \<and> get_master ''R_master'' example_chain = Inr m"
proof -
  have "(''S'', ''R_master'', Some default_args) \<in> set (b_connections example_chain)"
    by (simp add: chain_eval)
  with connections_resolve [OF fresh_step_builder [OF example_chain_fresh]] show ?thesis by fastforce
qed

text \<open>A relay is one node with two sides. Whatever else is built, a relay found under a name
  has a satellite side and a listener side named after it, both on the relay's own bus, and the
  listener is bound to the satellite side as its upstream.\<close>

theorem relay_is_one_node:
  assumes "reaches builder_step (new_builder w) b" and "get_relay n b = Inr r"
  shows "r_name r = n \<and> s_name (sats (b_hive b) (r_upstream r)) = n @ ''_sat''
    \<and> m_name (masters (b_hive b) (r_listener r)) = n @ ''_master''
    \<and> s_bus (sats (b_hive b) (r_upstream r)) = r_bus r
    \<and> m_agent (masters (b_hive b) (r_listener r)) = r_bus r
    \<and> m_upstream (masters (b_hive b) (r_listener r)) = Some (r_upstream r)"
proof -
  have "builder_inv b" using assms(1) by (blast intro: bi.inv_reachable)
  with assms(2) have "relay_ok b n r"
    by (auto simp: builder_inv_def relays_ok_def get_relay_def split: option.splits)
  then show ?thesis by (simp add: relay_ok_def)
qed

theorem relay_is_one_node_witness:
  "\<exists>r. get_relay ''R'' example_chain = Inr r \<and> r_name r = ''R''
     \<and> m_upstream (masters (b_hive example_chain) (r_listener r)) = Some (r_upstream r)"
proof -
  have "\<exists>r. get_relay ''R'' example_chain = Inr r"
    by (simp add: get_relay_def chain_eval dict_simps)
  with relay_is_one_node [OF fresh_step_builder [OF example_chain_fresh]] show ?thesis by blast
qed

text \<open>Parents connect before children. When every name is used once, a connection to a
  relay's listener comes after the relay's own upstream connection in \<open>_connections\<close>, at any
  depth, so \<open>start_all\<close> brings a hierarchy up from the root.\<close>

theorem parents_connect_first:
  assumes "reaches fresh_step (new_builder w) b"
    and "b_connections b = before @ (sn, mn, kw) # after"
    and "get_master mn b = Inr m" and "m_upstream (masters (b_hive b) m) = Some u"
  shows "s_name (sats (b_hive b) u) \<in> fst ` set before"
proof -
  have "parents_inv b" using assms(1) by (blast intro: bp.inv_reachable)
  then have "ordered (needs b) {} (before @ (sn, mn, kw) # after)"
    using assms(2) by (simp add: parents_inv_def)
  moreover have "needs b mn = Some (s_name (sats (b_hive b) u))"
    using assms(3,4) by (auto simp: needs_def get_master_def split: option.splits)
  ultimately show ?thesis by (simp add: ordered_append)
qed

theorem parents_connect_first_witness:
  "s_name (sats (b_hive example_chain) 0) \<in> fst ` {(''R_sat'', ''M'', Some default_args)}"
proof -
  have "b_connections example_chain
      = [(''R_sat'', ''M'', Some default_args)] @ (''S'', ''R_master'', Some default_args) # []"
    "get_master ''R_master'' example_chain = Inr 1"
    "m_upstream (masters (b_hive example_chain) 1) = Some 0"
    by (simp_all add: chain_eval get_master_def dict_simps satellite_create_def example_hive_def)
  from parents_connect_first [OF example_chain_fresh this] show ?thesis by simp
qed

lemma example_chain_in_process: "in_process example_chain"
  by (simp add: chain_eval in_process_def all_masters_def dict_simps example_hive_def)

lemma example_chain_known: "kwargs_known example_chain"
  by (simp add: chain_eval kwargs_known_def)

text \<open>C16: \<open>start_all\<close> implements its specification. On an idle thread, with a library in which
  connects succeed and satellites under in-process masters, it ends and leaves no delivery pending. The
  loopback servers come up in order; when one of them refuses, its exception is raised and no satellite's
  link has changed; when all are up, it returns, and the linkage of the hive (who has a connection, and to
  which master) is the one \<open>link_all\<close> computes from the entries.\<close>

theorem start_all_refines_link_all:
  assumes "connects_ok co" and "reaches builder_step (new_builder w) b" and "kwargs_known b"
    and "idle c" and "queue c = []" and "links_in_process (b_connections b) b (world c)"
  shows "\<exists>d. leads_to (call (start_all co b) c) d \<and> idle d \<and> queue d = []
    \<and> (case servers_up co (all_masters b) (world c) of
         (Inl e, w1) \<Rightarrow> raising d = Some e \<and> world d = w1 \<and> linkage (world d) = linkage (world c)
       | (Inr _, w1) \<Rightarrow> raising d = None \<and> nets (world d) = nets w1
           \<and> linkage (world d) = link_all b (b_connections b) (linkage (world c)))"
proof -
  have inv: "builder_inv b" using assms(2) by (blast intro: bi.inv_reachable)
  obtain r w1 where up: "servers_up co (all_masters b) (world c) = (r, w1)" by fastforce
  show ?thesis
  proof (cases r)
    case (Inl e)
    with start_all_refused [of co b c e w1] servers_up_nodes(3) [OF up] up assms(4,5) show ?thesis by auto
  next
    case (Inr u)
    with start_all_runs [OF assms(1) links_good [OF inv assms(3)] assms(4-6)] up show ?thesis by auto
  qed
qed

theorem start_all_refines_link_all_witness:
  "\<exists>d. leads_to (call (start_all quiet_core example_chain) (new_pump (b_hive example_chain))) d
     \<and> linkage (world d) 0 = (True, Some 0) \<and> linkage (world d) 1 = (True, Some 1)"
proof -
  have idle: "idle (new_pump (b_hive example_chain))" "queue (new_pump (b_hive example_chain)) = []"
    by (simp_all add: idle_def new_pump_def)
  have "link_all example_chain (b_connections example_chain) (linkage (b_hive example_chain)) 0 = (True, Some 0)"
    "link_all example_chain (b_connections example_chain) (linkage (b_hive example_chain)) 1 = (True, Some 1)"
    by (simp_all add: chain_eval dict_simps satellite_create_def make_identity_def linkage_def
        example_hive_def)
  moreover have "links_in_process (b_connections example_chain) example_chain (world (new_pump (b_hive example_chain)))"
    by (simp add: new_pump_def in_process_links [OF example_chain_in_process])
  ultimately show ?thesis
    using start_all_refines_link_all [OF quiet_connects fresh_step_builder [OF example_chain_fresh]
      example_chain_known idle] in_process_servers [OF example_chain_in_process, of quiet_core]
    by (auto simp: new_pump_def)
qed

text \<open>C17: After a \<open>start_all\<close> whose servers come up, every satellite of the builder is connected: one that was not is
  connected to the master of the first entry under its name, one that was keeps its master, and
  a second \<open>start_all\<close> changes nothing.\<close>

theorem start_all_connects_everyone:
  assumes "connects_ok co" and "reaches builder_step (new_builder w) b" and "kwargs_known b"
    and "idle c" and "queue c = []" and "links_in_process (b_connections b) b (world c)"
    and "servers_up co (all_masters b) (world c) = (Inr (), w1)"
  shows "\<exists>d. leads_to (call (start_all co b) c) d \<and> stack d = [] \<and> raising d = None
    \<and> (\<forall>n s. get_satellite n b = Inr s \<longrightarrow> s_conn (sats (world d) s) \<noteq> None
         \<and> (if s_conn (sats (world c) s) = None
            then \<exists>mn m. first_master (b_connections b) n = Some mn \<and> get_master mn b = Inr m
                 \<and> s_master (sats (world d) s) = Some m
            else s_master (sats (world d) s) = s_master (sats (world c) s)))
    \<and> settle (start_all co b) (world d) = (Ret, world d)"
proof -
  have inv: "builder_inv b" using assms(2) by (blast intro: bi.inv_reachable)
  note good = links_good [OF inv assms(3)]
  obtain d where d: "leads_to (call (start_all co b) c) d" "idle d" "raising d = None"
    "linkage (world d) = link_all b (b_connections b) (linkage (world c))"
    "networks (world d) = networks (world c)" "nets (world d) = nets w1"
    using start_all_runs [OF assms(1) good assms(4-7)] by blast
  have each: "s_conn (sats (world d) s) \<noteq> None
       \<and> (if s_conn (sats (world c) s) = None
          then \<exists>mn m. first_master (b_connections b) n = Some mn \<and> get_master mn b = Inr m
               \<and> s_master (sats (world d) s) = Some m
          else s_master (sats (world d) s) = s_master (sats (world c) s))"
    if s: "get_satellite n b = Inr s" for n s
    using link_all_satellite [OF inv assms(3) s, of "linkage (world c)"]
      link_all_done [of "linkage (world c)" s b "b_connections b"] fun_cong [OF d(4), of s]
    by (auto simp: linkage_def)
  have "settle (pfor ls (start_one co b)) (world d) = (Ret, world d)" if "\<forall>l \<in> set ls. link_good b l" for ls
    using that
  proof (induction ls)
    case (Cons l ls)
    then obtain sn mn kw s where l: "l = (sn, mn, kw)" "dget (b_satellites b) sn = Some s"
      by (cases l) (auto simp: link_good_def)
    from l(2) have "get_satellite sn b = Inr s" by (simp add: get_satellite_def)
    with each have "s_conn (sats (world d) s) \<noteq> None" by blast
    with l Cons show ?case by (simp add: start_one_def)
  qed simp
  moreover have "servers_up co (all_masters b) (world d) = (Inr (), world d)"
    using servers_are_up [OF assms(7)] d(5,6) by (intro servers_up_again) metis
  ultimately have "settle (start_all co b) (world d) = (Ret, world d)"
    using good by (simp add: start_all_def settle_pseq settle_servers)
  moreover have "stack d = []" using d(2) by (simp add: idle_def)
  ultimately show ?thesis using d(1,3) each by (intro exI [of _ d] conjI) blast+
qed

theorem start_all_connects_everyone_witness:
  "\<exists>d. leads_to (call (start_all quiet_core example_chain) (new_pump (b_hive example_chain))) d
     \<and> s_conn (sats (world d) 1) \<noteq> None"
proof -
  have idle: "idle (new_pump (b_hive example_chain))" "queue (new_pump (b_hive example_chain)) = []"
    by (simp_all add: idle_def new_pump_def)
  have "get_satellite ''S'' example_chain = Inr 1"
    by (simp add: get_satellite_def chain_eval dict_simps satellite_create_def make_identity_def)
  moreover have "links_in_process (b_connections example_chain) example_chain (world (new_pump (b_hive example_chain)))"
    "servers_up quiet_core (all_masters example_chain) (world (new_pump (b_hive example_chain)))
       = (Inr (), b_hive example_chain)"
    using in_process_links in_process_servers example_chain_in_process by (simp_all add: new_pump_def)
  ultimately show ?thesis
    using start_all_connects_everyone [OF quiet_connects fresh_step_builder [OF example_chain_fresh]
      example_chain_known idle] by blast
qed

text \<open>Adding a satellite again under its name does not move it. The new node replaces the
  old one under the name, but the old entry of \<open>_connections\<close> stays first, so \<open>start_all\<close>
  connects the new node to the OLD upstream; the entry with the new upstream finds it connected
  and is skipped.\<close>

theorem readded_satellite_connects_to_old_upstream:
  fixes b :: "'t builder" and su :: node_supply and sh :: bool and k :: connect_args
  assumes "connects_ok co" and "reaches builder_step (new_builder w) b"
    and "first_master (b_connections b) n = Some old"
    and "valid_upstream b up" and "resolve_listener up = Inr l"
  defines "b' \<equiv> snd (add_satellite su n up sh (Some k) b)"
  assumes "kwargs_known b" and "idle c" and "queue c = []" and "world c = b_hive b'"
    and "in_process b'"
  shows "get_satellite n b' = Inr (b_next_sat b)
    \<and> (\<exists>d m. leads_to (call (start_all co b') c) d \<and> stack d = [] \<and> get_master old b = Inr m
         \<and> s_master (sats (world d) (b_next_sat b)) = Some m)"
proof -
  have b': "b_connections b' = b_connections b @ [(n, m_name (masters (b_hive b) l), Some k)]"
    "get_satellite n b' = Inr (b_next_sat b)" "get_master old b' = get_master old b"
    "s_conn (sats (b_hive b') (b_next_sat b)) = None"
    using assms(5) by (simp_all add: b'_def add_satellite_def Let_def get_satellite_def
        get_master_def dict_simps)
  have "reaches builder_step (new_builder w) b'"
    using assms(2) bs_satellite [OF assms(4)] unfolding b'_def by (rule reaches_step)
  then have inv: "builder_inv b'" by (blast intro: bi.inv_reachable)
  have known: "kwargs_known b'" using assms(7) by (auto simp: kwargs_known_def b'(1))
  obtain d where d: "leads_to (call (start_all co b') c) d" "idle d"
    "linkage (world d) = link_all b' (b_connections b') (linkage (world c))"
    using start_all_runs [OF assms(1) links_good [OF inv known] assms(8,9)]
      in_process_links [OF assms(11)] in_process_servers [OF assms(11)] assms(10) by fastforce
  moreover have "\<not> fst (linkage (world c) (b_next_sat b))"
    using assms(10) b'(4) by (simp add: linkage_def)
  from link_all_satellite [where st = "linkage (world c)", OF inv known b'(2) this] obtain m where "get_master old b' = Inr m"
    "link_all b' (b_connections b') (linkage (world c)) (b_next_sat b) = (True, Some m)"
    using assms(3) by (auto simp: b'(1))
  ultimately have "linkage (world d) (b_next_sat b) = (True, Some m)" "get_master old b = Inr m"
    using b'(3) by simp_all
  then have "s_master (sats (world d) (b_next_sat b)) = Some m" "get_master old b = Inr m"
    by (simp_all add: linkage_def)
  moreover have "stack d = []" using d(2) by (simp add: idle_def)
  ultimately show ?thesis using d(1) b'(2) by blast
qed

theorem readded_satellite_connects_to_old_upstream_witness:
  "\<exists>d. leads_to (call (start_all quiet_core
       (snd (add_satellite example_supply ''S'' (UpMaster 0) False (Some default_args) example_chain)))
       (new_pump (b_hive (snd (add_satellite example_supply ''S'' (UpMaster 0) False (Some default_args)
          example_chain))))) d
     \<and> s_master (sats (world d) 2) = Some 1"
proof -
  let ?b' = "snd (add_satellite example_supply ''S'' (UpMaster 0) False (Some default_args) example_chain)"
  have "idle (new_pump (b_hive ?b'))" "queue (new_pump (b_hive ?b')) = []"
    "world (new_pump (b_hive ?b')) = b_hive ?b'"
    by (simp_all add: idle_def new_pump_def)
  moreover have "first_master (b_connections example_chain) ''S'' = Some ''R_master''"
    "valid_upstream example_chain (UpMaster 0)" "resolve_listener (UpMaster 0) = Inr 0"
    "b_next_sat example_chain = 2" "get_master ''R_master'' example_chain = Inr 1"
    by (simp_all add: chain_eval first_master_def get_master_def dict_simps example_hive_def)
  moreover have "in_process ?b'"
    by (simp add: chain_eval in_process_def all_masters_def dict_simps example_hive_def)
  ultimately show ?thesis
    using readded_satellite_connects_to_old_upstream [OF quiet_connects
        fresh_step_builder [OF example_chain_fresh], of "''S''" "''R_master''" "UpMaster 0" 0 _
        example_supply False default_args] example_chain_known
    by (metis sum.inject(2))
qed

text \<open>\<open>stop_all\<close> always completes: whatever the stop and shutdown methods of the masters
  raise, the call returns, every satellite of the builder has lost its connection (and, if it had
  one, its session), and every temporary directory of the builder's nodes is removed.\<close>

theorem stop_all_completes:
  assumes "drop_ok co" and "stops_plain co" and "reaches builder_step (new_builder w) b"
    and "\<forall>n s. get_satellite n b = Inr s \<longrightarrow> linked s (world c)" and "idle c"
  shows "\<exists>d. leads_to (call (stop_all co b) c) d \<and> stack d = [] \<and> raising d = None
    \<and> (\<forall>n s. get_satellite n b = Inr s \<longrightarrow> s_conn (sats (world d) s) = None
         \<and> \<not> s_tmpdir (sats (world d) s)
         \<and> (s_conn (sats (world c) s) \<noteq> None \<longrightarrow> unlinked (sats (world d) s)))
    \<and> (\<forall>m \<in> set (all_masters b). \<not> m_tmpdir (masters (world d) m))"
proof -
  have inv: "builder_inv b" using assms(3) by (blast intro: bi.inv_reachable)
  have sat: "s \<in> set (all_satellites b) \<longleftrightarrow> (\<exists>n. get_satellite n b = Inr s)" for s
    using inv pd.vals_ran [of "b_satellites b"]
    by (auto simp: all_satellites_def get_satellite_def builder_inv_def split: option.splits)
  have "\<forall>s \<in> set (all_satellites b). linked s (world c)" using assms(4) sat by blast
  from stop_all_settles [OF assms(1,2) this inv] obtain w' where
    w': "settle (stop_all co b) (world c) = (Ret, w')"
    "\<forall>s \<in> set (all_satellites b). stopped (world c) w' s"
    "\<forall>m \<in> set (all_masters b). \<not> m_tmpdir (masters w' m)" by blast
  let ?c = "call (stop_all co b) c"
  have "leads_to ?c (?c\<lparr>world := w', stack := []\<rparr>)"
    using w'(1) by (intro settle_returns) (simp_all add: call_def)
  moreover have "stopped (world c) w' s" if "get_satellite n b = Inr s" for n s
    using w'(2) sat that by blast
  ultimately show ?thesis
    using w'(3) by (intro exI [of _ "?c\<lparr>world := w', stack := []\<rparr>"]) (simp add: call_def stopped_def)
qed

theorem stop_all_completes_witness:
  "\<exists>d. leads_to (call (stop_all (quiet_core\<lparr>core_stops := \<lambda>m. [Throw RuntimeError]\<rparr>) example_chain)
       (new_pump (b_hive example_chain))) d
     \<and> raising d = None \<and> \<not> s_tmpdir (sats (world d) 1)"
proof -
  let ?co = "quiet_core\<lparr>core_stops := \<lambda>m. [Throw RuntimeError]\<rparr>"
  have "drop_ok ?co" "stops_plain ?co" "idle (new_pump (b_hive example_chain))"
    by (simp_all add: drop_ok_def stops_plain_def quiet_core_def idle_def new_pump_def)
  moreover have "\<forall>n s. get_satellite n example_chain = Inr s \<longrightarrow> linked s (world (new_pump (b_hive example_chain)))"
    by (auto simp: get_satellite_def chain_eval dict_simps satellite_create_def make_identity_def
        linked_def new_pump_def example_hive_def)
  moreover have "get_satellite ''S'' example_chain = Inr 1"
    by (simp add: get_satellite_def chain_eval dict_simps satellite_create_def make_identity_def)
  ultimately show ?thesis
    using stop_all_completes [OF _ _ fresh_step_builder [OF example_chain_fresh], of ?co
        "new_pump (b_hive example_chain)"] by blast
qed

end
