(* ===== verification/Scenario_Presets.thy ===== *)
theory Scenario_Presets
  imports Topology_Builder
begin

text \<open>
  The preset topologies of \<open>hivescope/scenarios.py\<close>, each a sequence of calls on a fresh
  \<open>TopologyBuilder\<close>. The lemmas give their exact nodes and connections, and show that every
  preset uses its names once, so that the theorems about started builders apply to it.
\<close>

section \<open>Names and sequences of builder calls\<close>

text \<open>An exception ends the sequence of calls.\<close>

fun then_build :: "'a result \<times> 'b \<Rightarrow> ('a \<Rightarrow> 'b \<Rightarrow> 'c result \<times> 'b) \<Rightarrow> 'c result \<times> 'b" where
  "then_build (Inl e, b) f = (Inl e, b)"
| "then_build (Inr x, b) f = f x b"

fun add_satellites ::
    "node_supply \<Rightarrow> upstream \<Rightarrow> connect_args \<Rightarrow> string list \<Rightarrow> 't builder \<Rightarrow> unit result \<times> 't builder" where
  "add_satellites su up k [] b = (Inr (), b)"
| "add_satellites su up k (n # ns) b =
     then_build (add_satellite su n up False (Some k) b) (\<lambda>_. add_satellites su up k ns)"

definition sat_names :: "nat \<Rightarrow> string list" where
  "sat_names n = map (\<lambda>i. ''S'' @ nat_str i) [0..<n]"

fun relay_chain ::
    "node_supply \<Rightarrow> nat list \<Rightarrow> upstream \<Rightarrow> 't builder \<Rightarrow> upstream result \<times> 't builder" where
  "relay_chain su [] prev b = (Inr prev, b)"
| "relay_chain su (l # ls) prev b =
     then_build (add_relay su (''R'' @ nat_str l) prev (Some default_args) b)
       (\<lambda>r. relay_chain su ls (UpRelay r))"

section \<open>The presets\<close>

definition start_hub :: "'t builder \<Rightarrow> nat result \<times> 't builder" where
  "start_hub b = add_master ''M0'' no_master_args b"

definition single_satellite ::
    "node_supply \<Rightarrow> string list option \<Rightarrow> 't builder \<Rightarrow> unit result \<times> 't builder" where
  "single_satellite su types b = then_build (start_hub b) (\<lambda>m.
     add_satellites su (UpMaster m) (default_args\<lparr>k_allowed_types := types\<rparr>) [''S0''])"

definition admin_satellite ::
    "node_supply \<Rightarrow> string list option \<Rightarrow> 't builder \<Rightarrow> unit result \<times> 't builder" where
  "admin_satellite su types b = then_build (start_hub b) (\<lambda>m.
     add_satellites su (UpMaster m) (default_args\<lparr>k_is_admin := True, k_allowed_types := types\<rparr>) [''S0''])"

definition star_topology :: "node_supply \<Rightarrow> nat \<Rightarrow> 't builder \<Rightarrow> unit result \<times> 't builder" where
  "star_topology su n b = then_build (start_hub b) (\<lambda>m.
     add_satellites su (UpMaster m) default_args (sat_names n))"

definition three_satellites :: "node_supply \<Rightarrow> 't builder \<Rightarrow> unit result \<times> 't builder" where
  "three_satellites su b = then_build (start_hub b) (\<lambda>m.
     add_satellites su (UpMaster m) default_args (sat_names 3))"

definition with_relay :: "node_supply \<Rightarrow> 't builder \<Rightarrow> unit result \<times> 't builder" where
  "with_relay su b = then_build (start_hub b) (\<lambda>m b1.
     then_build (add_relay su ''R0'' (UpMaster m) (Some default_args) b1) (\<lambda>r.
       add_satellites su (UpRelay r) default_args [''S0'', ''S1'']))"

definition chain_topology :: "node_supply \<Rightarrow> 't builder \<Rightarrow> unit result \<times> 't builder" where
  "chain_topology su b = then_build (start_hub b) (\<lambda>m b1.
     then_build (add_relay su ''R0'' (UpMaster m) (Some default_args) b1) (\<lambda>r.
       add_satellites su (UpRelay r) default_args [''S0'']))"

definition acl_admin :: connect_args where
  "acl_admin = default_args\<lparr>k_is_admin := True, k_can_propagate := True, k_can_escalate := True,
     k_allowed_types := Some [''recognizer_loop:utterance'', ''speak'']\<rparr>"

definition acl_restricted_type :: connect_args where
  "acl_restricted_type = default_args\<lparr>k_is_admin := False, k_allowed_types := Some [''speak'']\<rparr>"

definition acl_restricted_skill :: connect_args where
  "acl_restricted_skill = default_args\<lparr>k_is_admin := False,
     k_allowed_types := Some [''recognizer_loop:utterance''],
     k_skill_blacklist := Some [''skill-weather'']\<rparr>"

definition with_acl_enforcement :: "node_supply \<Rightarrow> 't builder \<Rightarrow> unit result \<times> 't builder" where
  "with_acl_enforcement su b = then_build (start_hub b) (\<lambda>m b1.
     then_build (add_satellites su (UpMaster m) acl_admin [''S_ADMIN''] b1) (\<lambda>_ b2.
       then_build (add_satellites su (UpMaster m) acl_restricted_type [''S_RESTRICTED_TYPE''] b2) (\<lambda>_.
         add_satellites su (UpMaster m) acl_restricted_skill [''S_RESTRICTED_SKILL''])))"

definition hierarchical_hubs :: "node_supply \<Rightarrow> nat \<Rightarrow> nat \<Rightarrow> 't builder \<Rightarrow> unit result \<times> 't builder" where
  "hierarchical_hubs su levels n b = then_build (start_hub b) (\<lambda>m b1.
     then_build (relay_chain su [1..<levels] (UpMaster m) b1) (\<lambda>prev.
       add_satellites su prev default_args (sat_names n)))"

definition with_multiple_agent_protocols ::
    "node_supply \<Rightarrow> nat option \<Rightarrow> 't builder \<Rightarrow> unit result \<times> 't builder" where
  "with_multiple_agent_protocols su agent b =
     then_build (add_master ''M0''
         (no_master_args\<lparr>ma_keywords := [''agent_protocol''], ma_agent := agent\<rparr>) b)
       (\<lambda>m. add_satellites su (UpMaster m) default_args [''S0''])"

section \<open>What the building blocks add\<close>

text \<open>The name of the listener a child of \<open>up\<close> connects to.\<close>

definition hub_name :: "'t builder \<Rightarrow> upstream \<Rightarrow> string" where
  "hub_name b up = (case resolve_listener up of Inl e \<Rightarrow> [] | Inr l \<Rightarrow> m_name (masters (b_hive b) l))"

fun is_node :: "upstream \<Rightarrow> bool" where
  "is_node UpOther = False"
| "is_node _ = True"

lemma is_node_listener: "is_node up \<Longrightarrow> \<exists>l. resolve_listener up = Inr l"
  by (cases up) (simp_all add: resolve_listener_def)

lemma add_satellite_adds:
  assumes "is_node up" and "n \<notin> set (dkeys (b_satellites b))"
  shows "\<exists>s b'. add_satellite su n up sh kw b = (Inr s, b')
    \<and> b_connections b' = b_connections b @ [(n, hub_name b up, kw)]
    \<and> dkeys (b_satellites b') = dkeys (b_satellites b) @ [n] \<and> b_masters b' = b_masters b
    \<and> b_next_master b' = b_next_master b \<and> masters (b_hive b') = masters (b_hive b)
    \<and> b_relays b' = b_relays b"
  using is_node_listener [OF assms(1)] assms(2)
  by (auto simp: add_satellite_def Let_def hub_name_def dict_simps)

lemma add_satellites_adds:
  assumes "is_node up" and "valid_upstream b up" and "distinct ns"
    and "set ns \<inter> set (dkeys (b_satellites b)) = {}"
  shows "\<exists>b'. add_satellites su up k ns b = (Inr (), b') \<and> reaches fresh_step b b'
    \<and> b_connections b' = b_connections b @ map (\<lambda>n. (n, hub_name b up, Some k)) ns
    \<and> dkeys (b_satellites b') = dkeys (b_satellites b) @ ns \<and> b_masters b' = b_masters b
    \<and> b_next_master b' = b_next_master b \<and> masters (b_hive b') = masters (b_hive b)
    \<and> b_relays b' = b_relays b"
  using assms(2-)
proof (induction ns arbitrary: b)
  case Nil
  then show ?case by (simp add: reaches_refl)
next
  case (Cons n ns)
  then have n: "n \<notin> set (dkeys (b_satellites b))" by simp
  obtain s b1 where b1: "add_satellite su n up False (Some k) b = (Inr s, b1)"
    "b_connections b1 = b_connections b @ [(n, hub_name b up, Some k)]"
    "dkeys (b_satellites b1) = dkeys (b_satellites b) @ [n]" "b_masters b1 = b_masters b"
    "b_next_master b1 = b_next_master b" "masters (b_hive b1) = masters (b_hive b)"
    "b_relays b1 = b_relays b"
    using add_satellite_adds [OF assms(1) n] by metis
  have step: "fresh_step b b1"
    using fs_satellite [OF Cons.prems(1) n, of su False "Some k"] b1(1) by simp
  have hub: "hub_name b1 up = hub_name b up" by (simp add: hub_name_def b1(6) split: sum.split)
  have "valid_upstream b1 up" using Cons.prems(1) b1(5) by (cases up) simp_all
  moreover have "set ns \<inter> set (dkeys (b_satellites b1)) = {}" using Cons.prems(2,3) b1(3) by auto
  ultimately obtain b' where "add_satellites su up k ns b1 = (Inr (), b')" "reaches fresh_step b1 b'"
    "b_connections b' = b_connections b1 @ map (\<lambda>n. (n, hub_name b1 up, Some k)) ns"
    "dkeys (b_satellites b') = dkeys (b_satellites b1) @ ns" "b_masters b' = b_masters b1"
    "b_next_master b' = b_next_master b1" "masters (b_hive b') = masters (b_hive b1)"
    "b_relays b' = b_relays b1"
    using Cons.IH [of b1] Cons.prems(2) by auto
  with b1 hub reaches_trans [OF _ reaches_one [of fresh_step, OF step]] show ?case by simp
qed

text \<open>A fresh builder with one hub.\<close>

definition hub_built :: "'t hive \<Rightarrow> 't builder \<Rightarrow> bool" where
  "hub_built w b \<longleftrightarrow> reaches fresh_step (new_builder w) b
    \<and> b_connections b = [] \<and> dkeys (b_satellites b) = [] \<and> dkeys (b_masters b) = [''M0'']
    \<and> b_next_master b = 1 \<and> m_name (masters (b_hive b) 0) = ''M0''"

lemma add_hub:
  assumes "set (ma_keywords k) \<subseteq> set master_keywords"
  shows "\<exists>b. add_master ''M0'' k (new_builder w) = (Inr 0, b) \<and> hub_built w b"
proof -
  have "fresh_step (new_builder w) (snd (add_master ''M0'' k (new_builder w)))"
    by (rule fs_master) (simp add: new_builder_def dkeys_def)
  then show ?thesis
    using assms
    by (auto simp: hub_built_def add_master_def new_builder_def master_create_def put_master_def
        dkeys_def dset_def subset_iff intro: reaches_one)
qed

lemma start_hub_new: "\<exists>b. start_hub (new_builder w) = (Inr 0, b) \<and> hub_built w b"
  unfolding start_hub_def by (rule add_hub) (simp add: no_master_args_def)

lemma distinct_sat_names [simp]: "distinct (sat_names n)"
  by (auto simp: sat_names_def distinct_map inj_on_def)

lemma length_sat_names [simp]: "length (sat_names n) = n"
  by (simp add: sat_names_def)

text \<open>The entries of a chain of relays under the listener \<open>p\<close>, and its last listener.\<close>

definition relay_sat :: "nat \<Rightarrow> string" where
  "relay_sat l = ''R'' @ nat_str l @ ''_sat''"

definition relay_master :: "nat \<Rightarrow> string" where
  "relay_master l = ''R'' @ nat_str l @ ''_master''"

fun chain_links :: "string \<Rightarrow> nat list \<Rightarrow> link list" where
  "chain_links p [] = []"
| "chain_links p (l # ls) = (relay_sat l, p, Some default_args) # chain_links (relay_master l) ls"

fun chain_end :: "string \<Rightarrow> nat list \<Rightarrow> string" where
  "chain_end p [] = p"
| "chain_end p (l # ls) = chain_end (relay_master l) ls"

lemma relay_names [simp]:
  "relay_sat l = relay_sat l' \<longleftrightarrow> l = l'" "relay_master l = relay_master l' \<longleftrightarrow> l = l'"
  by (simp_all add: relay_sat_def relay_master_def)

lemma length_chain_links [simp]: "length (chain_links p ls) = length ls"
  by (induction ls arbitrary: p) auto

lemma chain_links_known: "(sn, mn, kw) \<in> set (chain_links p ls) \<Longrightarrow> kw \<noteq> None"
  by (induction ls arbitrary: p) auto

lemma add_relay_adds:
  assumes "is_node up" and "n @ ''_sat'' \<notin> set (dkeys (b_satellites b))"
    and "n @ ''_master'' \<notin> set (dkeys (b_masters b))"
  shows "\<exists>r b'. add_relay su n up kw b = (Inr r, b')
    \<and> b_connections b' = b_connections b @ [(n @ ''_sat'', hub_name b up, kw)]
    \<and> dkeys (b_satellites b') = dkeys (b_satellites b) @ [n @ ''_sat'']
    \<and> dkeys (b_masters b') = dkeys (b_masters b) @ [n @ ''_master'']
    \<and> hub_name b' (UpRelay r) = n @ ''_master'' \<and> valid_upstream b' (UpRelay r)"
  using is_node_listener [OF assms(1)] assms(2,3)
  by (auto simp: add_relay_def Let_def hub_name_def dict_simps bind_upstream_def resolve_listener_def)

lemma relay_chain_adds:
  assumes "is_node up" and "valid_upstream b up" and "distinct ls"
    and "\<forall>l \<in> set ls. relay_sat l \<notin> set (dkeys (b_satellites b)) \<and> relay_master l \<notin> set (dkeys (b_masters b))"
  shows "\<exists>up' b'. relay_chain su ls up b = (Inr up', b') \<and> reaches fresh_step b b'
    \<and> is_node up' \<and> valid_upstream b' up' \<and> hub_name b' up' = chain_end (hub_name b up) ls
    \<and> b_connections b' = b_connections b @ chain_links (hub_name b up) ls
    \<and> dkeys (b_satellites b') = dkeys (b_satellites b) @ map relay_sat ls
    \<and> dkeys (b_masters b') = dkeys (b_masters b) @ map relay_master ls"
  using assms
proof (induction ls arbitrary: b up)
  case Nil
  then show ?case by (simp add: reaches_refl)
next
  case (Cons l ls)
  let ?n = "''R'' @ nat_str l"
  have n: "?n @ ''_sat'' \<notin> set (dkeys (b_satellites b))" "?n @ ''_master'' \<notin> set (dkeys (b_masters b))"
    using Cons.prems(4) by (simp_all add: relay_sat_def relay_master_def)
  obtain r b1 where b1: "add_relay su ?n up (Some default_args) b = (Inr r, b1)"
    "b_connections b1 = b_connections b @ [(relay_sat l, hub_name b up, Some default_args)]"
    "dkeys (b_satellites b1) = dkeys (b_satellites b) @ [relay_sat l]"
    "dkeys (b_masters b1) = dkeys (b_masters b) @ [relay_master l]"
    "hub_name b1 (UpRelay r) = relay_master l" "valid_upstream b1 (UpRelay r)"
    using add_relay_adds [OF Cons.prems(1) n, of su "Some default_args"]
    by (auto simp: relay_sat_def relay_master_def)
  have step: "fresh_step b b1"
    using fs_relay [OF Cons.prems(2) n, of su "Some default_args"] b1(1) by simp
  have "\<forall>k \<in> set ls. relay_sat k \<notin> set (dkeys (b_satellites b1)) \<and> relay_master k \<notin> set (dkeys (b_masters b1))"
    using Cons.prems(3,4) b1(3,4) by auto
  with Cons.IH [of "UpRelay r" b1] b1(6) Cons.prems(3) obtain up' b' where
    "relay_chain su ls (UpRelay r) b1 = (Inr up', b')" "reaches fresh_step b1 b'" "is_node up'"
    "valid_upstream b' up'" "hub_name b' up' = chain_end (relay_master l) ls"
    "b_connections b' = b_connections b1 @ chain_links (relay_master l) ls"
    "dkeys (b_satellites b') = dkeys (b_satellites b1) @ map relay_sat ls"
    "dkeys (b_masters b') = dkeys (b_masters b1) @ map relay_master ls"
    unfolding b1(5) by auto
  with b1(1-4) reaches_trans [OF _ reaches_one [of fresh_step, OF step]] show ?case by auto
qed

section \<open>The shape of every preset\<close>

text \<open>The presets with their arguments, as one type.\<close>

datatype preset =
    Single "string list option" | Admin "string list option" | Three | With_Relay | Chain
  | Star nat | Acl | Hubs nat nat | Agents "nat option"

fun build_preset :: "node_supply \<Rightarrow> preset \<Rightarrow> 't builder \<Rightarrow> unit result \<times> 't builder" where
  "build_preset su (Single ts) b = single_satellite su ts b"
| "build_preset su (Admin ts) b = admin_satellite su ts b"
| "build_preset su Three b = three_satellites su b"
| "build_preset su With_Relay b = with_relay su b"
| "build_preset su Chain b = chain_topology su b"
| "build_preset su (Star n) b = star_topology su n b"
| "build_preset su Acl b = with_acl_enforcement su b"
| "build_preset su (Hubs l n) b = hierarchical_hubs su l n b"
| "build_preset su (Agents a) b = with_multiple_agent_protocols su a b"

text \<open>What each preset is to contain, written down independently of the builder: its
  connections in order, and the names of its masters.\<close>

fun preset_links :: "preset \<Rightarrow> link list" where
  "preset_links (Single ts) = [(''S0'', ''M0'', Some (default_args\<lparr>k_allowed_types := ts\<rparr>))]"
| "preset_links (Admin ts) = [(''S0'', ''M0'', Some (default_args\<lparr>k_is_admin := True, k_allowed_types := ts\<rparr>))]"
| "preset_links Three = map (\<lambda>n. (n, ''M0'', Some default_args)) [''S0'', ''S1'', ''S2'']"
| "preset_links With_Relay = [(''R0_sat'', ''M0'', Some default_args),
     (''S0'', ''R0_master'', Some default_args), (''S1'', ''R0_master'', Some default_args)]"
| "preset_links Chain = [(''R0_sat'', ''M0'', Some default_args), (''S0'', ''R0_master'', Some default_args)]"
| "preset_links (Star n) = map (\<lambda>n. (n, ''M0'', Some default_args)) (sat_names n)"
| "preset_links Acl = [(''S_ADMIN'', ''M0'', Some acl_admin),
     (''S_RESTRICTED_TYPE'', ''M0'', Some acl_restricted_type),
     (''S_RESTRICTED_SKILL'', ''M0'', Some acl_restricted_skill)]"
| "preset_links (Hubs l n) = chain_links ''M0'' [1..<l] @
     map (\<lambda>s. (s, chain_end ''M0'' [1..<l], Some default_args)) (sat_names n)"
| "preset_links (Agents a) = [(''S0'', ''M0'', Some default_args)]"

fun preset_masters :: "preset \<Rightarrow> string list" where
  "preset_masters With_Relay = [''M0'', ''R0_master'']"
| "preset_masters Chain = [''M0'', ''R0_master'']"
| "preset_masters (Hubs l n) = ''M0'' # map relay_master [1..<l]"
| "preset_masters p = [''M0'']"

definition preset_built :: "'t hive \<Rightarrow> link list \<Rightarrow> string list \<Rightarrow> unit result \<times> 't builder \<Rightarrow> bool" where
  "preset_built w ls ms r \<longleftrightarrow> (\<exists>b. r = (Inr (), b) \<and> reaches fresh_step (new_builder w) b
     \<and> b_connections b = ls \<and> dkeys (b_satellites b) = map fst ls \<and> dkeys (b_masters b) = ms)"

lemma hub_satellites:
  assumes "hub_built w b" and "distinct ns"
  shows "preset_built w (map (\<lambda>n. (n, ''M0'', Some k)) ns) [''M0''] (add_satellites su (UpMaster 0) k ns b)"
proof -
  obtain b' where "add_satellites su (UpMaster 0) k ns b = (Inr (), b')" "reaches fresh_step b b'"
    "b_connections b' = map (\<lambda>n. (n, ''M0'', Some k)) ns" "dkeys (b_satellites b') = ns"
    "b_masters b' = b_masters b"
    using add_satellites_adds [of "UpMaster 0" b ns su k] assms
    by (auto simp: hub_built_def hub_name_def resolve_listener_def)
  with assms(1) show ?thesis
    by (auto simp: preset_built_def hub_built_def comp_def intro: reaches_trans)
qed

text \<open>Relays under the hub, then satellites under the last listener.\<close>

lemma relay_satellites:
  assumes "reaches fresh_step (new_builder w) b" and "is_node up" and "valid_upstream b up"
    and "b_connections b = ls" and "dkeys (b_satellites b) = map fst ls" and "hub_name b up = h"
    and "distinct ns" and "set ns \<inter> fst ` set ls = {}"
  shows "preset_built w (ls @ map (\<lambda>n. (n, h, Some k)) ns) (dkeys (b_masters b)) (add_satellites su up k ns b)"
proof -
  have "set ns \<inter> set (dkeys (b_satellites b)) = {}" using assms(5,8) by simp
  from add_satellites_adds [OF assms(2,3,7) this, of su k] obtain b' where
    "add_satellites su up k ns b = (Inr (), b')" "reaches fresh_step b b'"
    "b_connections b' = ls @ map (\<lambda>n. (n, h, Some k)) ns"
    "dkeys (b_satellites b') = map fst ls @ ns" "b_masters b' = b_masters b"
    using assms(4-6) by auto
  with assms(1) show ?thesis
    by (auto simp: preset_built_def comp_def intro: reaches_trans)
qed

lemma one_relay:
  assumes "hub_built w b" and "distinct ns" and "''R0_sat'' \<notin> set ns"
  shows "preset_built w ((''R0_sat'', ''M0'', Some default_args) # map (\<lambda>n. (n, ''R0_master'', Some k)) ns)
    [''M0'', ''R0_master'']
    (then_build (add_relay su ''R0'' (UpMaster 0) (Some default_args) b) (\<lambda>r. add_satellites su (UpRelay r) k ns))"
proof -
  have f: "''R0'' @ ''_sat'' \<notin> set (dkeys (b_satellites b))" "''R0'' @ ''_master'' \<notin> set (dkeys (b_masters b))"
    using assms(1) by (simp_all add: hub_built_def)
  from add_relay_adds [OF _ f, of "UpMaster 0" su "Some default_args"] obtain r b1 where
    b1: "add_relay su ''R0'' (UpMaster 0) (Some default_args) b = (Inr r, b1)"
    "b_connections b1 = [(''R0_sat'', ''M0'', Some default_args)]"
    "dkeys (b_satellites b1) = [''R0_sat'']" "dkeys (b_masters b1) = [''M0'', ''R0_master'']"
    "hub_name b1 (UpRelay r) = ''R0_master''" "valid_upstream b1 (UpRelay r)"
    using assms(1) by (auto simp: hub_built_def hub_name_def resolve_listener_def)
  have "valid_upstream b (UpMaster 0)" using assms(1) by (simp add: hub_built_def)
  from fs_relay [OF this f, of su "Some default_args"] b1(1) have "fresh_step b b1" by simp
  then have "reaches fresh_step (new_builder w) b1"
    using assms(1) by (auto simp: hub_built_def intro: reaches_step)
  from relay_satellites [OF this _ b1(6) b1(2) _ b1(5) assms(2), of k su] assms(3) b1 show ?thesis
    by simp
qed

lemma hubs_built:
  assumes "hub_built w b"
  shows "preset_built w (preset_links (Hubs l n)) (preset_masters (Hubs l n))
    (then_build (relay_chain su [1..<l] (UpMaster 0) b) (\<lambda>prev. add_satellites su prev default_args (sat_names n)))"
proof -
  obtain up b1 where b1: "relay_chain su [1..<l] (UpMaster 0) b = (Inr up, b1)" "reaches fresh_step b b1"
    "is_node up" "valid_upstream b1 up" "hub_name b1 up = chain_end ''M0'' [1..<l]"
    "b_connections b1 = chain_links ''M0'' [1..<l]" "dkeys (b_satellites b1) = map relay_sat [1..<l]"
    "dkeys (b_masters b1) = ''M0'' # map relay_master [1..<l]"
    using relay_chain_adds [of "UpMaster 0" b "[1..<l]" su] assms
    by (auto simp: hub_built_def hub_name_def resolve_listener_def relay_master_def)
  have fst_links: "map fst (chain_links p ls) = map relay_sat ls" for p ls
    by (induction ls arbitrary: p) auto
  then have fst_set: "fst ` set (chain_links p ls) = relay_sat ` set ls" for p ls
    by (metis set_map)
  have "set (sat_names n) \<inter> fst ` set (chain_links ''M0'' [1..<l]) = {}"
    unfolding fst_set by (auto simp: sat_names_def relay_sat_def)
  moreover have "reaches fresh_step (new_builder w) b1"
    using assms b1(2) by (auto simp: hub_built_def intro: reaches_trans)
  ultimately show ?thesis
    using relay_satellites [of w b1 up "chain_links ''M0'' [1..<l]" "chain_end ''M0'' [1..<l]"
        "sat_names n" default_args su] b1 fst_links by simp
qed

text \<open>One more satellite under the hub, with arguments of its own.\<close>

definition hub_with :: "'t hive \<Rightarrow> link list \<Rightarrow> 't builder \<Rightarrow> bool" where
  "hub_with w ls b \<longleftrightarrow> reaches fresh_step (new_builder w) b \<and> b_connections b = ls
     \<and> dkeys (b_satellites b) = map fst ls \<and> dkeys (b_masters b) = [''M0'']
     \<and> b_next_master b = 1 \<and> m_name (masters (b_hive b) 0) = ''M0''"

lemma hub_with_more:
  assumes "hub_with w ls b" and "n \<notin> fst ` set ls"
  shows "\<exists>b'. add_satellites su (UpMaster 0) k [n] b = (Inr (), b')
    \<and> hub_with w (ls @ [(n, ''M0'', Some k)]) b'"
proof -
  have "set [n] \<inter> set (dkeys (b_satellites b)) = {}" "valid_upstream b (UpMaster 0)"
    using assms by (simp_all add: hub_with_def)
  from add_satellites_adds [OF _ this(2) _ this(1), of su k] obtain b' where
    "add_satellites su (UpMaster 0) k [n] b = (Inr (), b')" "reaches fresh_step b b'"
    "b_connections b' = b_connections b @ [(n, hub_name b (UpMaster 0), Some k)]"
    "dkeys (b_satellites b') = dkeys (b_satellites b) @ [n]" "b_masters b' = b_masters b"
    "b_next_master b' = b_next_master b" "masters (b_hive b') = masters (b_hive b)" by auto
  with assms(1) show ?thesis
    by (auto simp: hub_with_def hub_name_def resolve_listener_def intro: reaches_trans)
qed

lemma acl_built:
  assumes "hub_built w b"
  shows "preset_built w (preset_links Acl) [''M0'']
    (then_build (add_satellites su (UpMaster 0) acl_admin [''S_ADMIN''] b) (\<lambda>_ b2.
       then_build (add_satellites su (UpMaster 0) acl_restricted_type [''S_RESTRICTED_TYPE''] b2) (\<lambda>_.
         add_satellites su (UpMaster 0) acl_restricted_skill [''S_RESTRICTED_SKILL''])))"
proof -
  have "hub_with w [] b" using assms by (simp add: hub_built_def hub_with_def)
  from hub_with_more [OF this, of "''S_ADMIN''" su acl_admin] obtain b1 where
    b1: "add_satellites su (UpMaster 0) acl_admin [''S_ADMIN''] b = (Inr (), b1)"
    "hub_with w [(''S_ADMIN'', ''M0'', Some acl_admin)] b1" by auto
  from hub_with_more [OF b1(2), of "''S_RESTRICTED_TYPE''" su acl_restricted_type] obtain b2 where
    b2: "add_satellites su (UpMaster 0) acl_restricted_type [''S_RESTRICTED_TYPE''] b1 = (Inr (), b2)"
    "hub_with w [(''S_ADMIN'', ''M0'', Some acl_admin),
       (''S_RESTRICTED_TYPE'', ''M0'', Some acl_restricted_type)] b2" by auto
  from hub_with_more [OF b2(2), of "''S_RESTRICTED_SKILL''" su acl_restricted_skill] obtain b3 where
    b3: "add_satellites su (UpMaster 0) acl_restricted_skill [''S_RESTRICTED_SKILL''] b2 = (Inr (), b3)"
    "hub_with w (preset_links Acl) b3" by auto
  from b1(1) b2(1) b3 show ?thesis
    by (simp del: add_satellites.simps add: preset_built_def hub_with_def)
qed

lemma preset_shape:
  "preset_built w (preset_links p) (preset_masters p) (build_preset su p (new_builder w))"
proof -
  obtain b where b: "start_hub (new_builder w) = (Inr 0, b)" "hub_built w b"
    using start_hub_new by blast
  note hub = hub_satellites [OF b(2)] and relay = one_relay [OF b(2)]
  show ?thesis
  proof (cases p)
    case (Single ts)
    with b(1) hub [of "[''S0'']"] show ?thesis
      by (simp add: single_satellite_def del: add_satellites.simps)
  next
    case (Admin ts)
    with b(1) hub [of "[''S0'']"] show ?thesis
      by (simp add: admin_satellite_def del: add_satellites.simps)
  next
    case Three
    have "sat_names 3 = [''S0'', ''S1'', ''S2'']"
      by code_simp
    with Three b(1) hub [of "[''S0'', ''S1'', ''S2'']" default_args su] show ?thesis
      by (simp add: three_satellites_def del: add_satellites.simps)
  next
    case With_Relay
    with b(1) relay [of "[''S0'', ''S1'']" default_args su] show ?thesis
      by (simp add: with_relay_def del: add_satellites.simps)
  next
    case Chain
    with b(1) relay [of "[''S0'']" default_args su] show ?thesis
      by (simp add: chain_topology_def del: add_satellites.simps)
  next
    case (Star n)
    with b(1) hub [of "sat_names n" default_args su] show ?thesis
      by (simp add: star_topology_def del: add_satellites.simps)
  next
    case Acl
    with b(1) acl_built [OF b(2), of su] show ?thesis
      by (simp add: with_acl_enforcement_def del: add_satellites.simps)
  next
    case (Hubs l n)
    with b(1) hubs_built [OF b(2), of l n su] show ?thesis
      by (simp add: hierarchical_hubs_def del: add_satellites.simps)
  next
    case (Agents a)
    obtain c where "add_master ''M0'' (no_master_args\<lparr>ma_keywords := [''agent_protocol''], ma_agent := a\<rparr>)
        (new_builder w) = (Inr 0, c)" "hub_built w c"
      using add_hub [of "no_master_args\<lparr>ma_keywords := [''agent_protocol''], ma_agent := a\<rparr>" w]
      by (auto simp: master_keywords_def)
    with Agents hub_satellites [of w c "[''S0'']" default_args su] show ?thesis
      by (simp add: with_multiple_agent_protocols_def del: add_satellites.simps)
  qed
qed

lemma preset_links_known: "(sn, mn, kw) \<in> set (preset_links p) \<Longrightarrow> kw \<noteq> None"
  by (cases p) (auto dest: chain_links_known)

text \<open>No preset asks for a loopback master.\<close>

lemma local_then_build:
  "local_masters (snd r) \<Longrightarrow> (\<And>x b. local_masters b \<Longrightarrow> local_masters (snd (f x b)))
     \<Longrightarrow> local_masters (snd (then_build r f))"
  by (cases "(r, f)" rule: then_build.cases) auto

lemma local_satellites: "local_masters b \<Longrightarrow> local_masters (snd (add_satellites su up k ns b))"
  by (induction ns arbitrary: b) (auto intro!: local_then_build intro: local_satellite)

lemma local_chain: "local_masters b \<Longrightarrow> local_masters (snd (relay_chain su ls up b))"
  by (induction ls arbitrary: b up) (auto intro!: local_then_build intro: local_relay)

lemma local_hub: "local_masters b \<Longrightarrow> local_masters (snd (start_hub b))"
  unfolding start_hub_def by (rule local_master) (simp_all add: no_master_args_def)

lemmas local_steps = local_then_build local_satellites local_chain local_hub local_relay local_master

lemma presets_local: "local_masters b \<Longrightarrow> local_masters (snd (build_preset su p b))"
  by (cases p)
    (auto simp: single_satellite_def admin_satellite_def three_satellites_def with_relay_def
      chain_topology_def star_topology_def with_acl_enforcement_def hierarchical_hubs_def
      with_multiple_agent_protocols_def no_master_args_def
      simp del: add_satellites.simps intro!: local_steps)

section \<open>Properties\<close>

text \<open>Every preset builds exactly the topology its documentation draws: the call never
  fails, the connections are the ones of \<open>preset_links\<close> in that order with those arguments, the
  masters are those of \<open>preset_masters\<close>, and every name is used once.\<close>

theorem presets_build_their_links:
  "\<exists>b. build_preset su p (new_builder w) = (Inr (), b) \<and> b_connections b = preset_links p
    \<and> dkeys (b_masters b) = preset_masters p \<and> dkeys (b_satellites b) = map fst (preset_links p)
    \<and> distinct (map fst (preset_links p)) \<and> length (all_satellites b) = length (preset_links p)"
proof -
  obtain b where b: "build_preset su p (new_builder w) = (Inr (), b)" "reaches fresh_step (new_builder w) b"
    "b_connections b = preset_links p" "dkeys (b_satellites b) = map fst (preset_links p)"
    "dkeys (b_masters b) = preset_masters p"
    using preset_shape unfolding preset_built_def by blast
  have "builder_inv b" using bi.inv_reachable fresh_step_builder [OF b(2)] by blast
  then have "distinct (dkeys (b_satellites b))" by (simp add: builder_inv_def pd.distinct_keys)
  moreover have "length (all_satellites b) = length (dkeys (b_satellites b))"
    by (simp add: all_satellites_def dvals_def dkeys_def)
  ultimately show ?thesis using b by auto
qed



end
