(* ===== verification/Agent_Protocol.thy ===== *)
theory Agent_Protocol
  imports Node_Core
begin

text \<open>
  \<open>TestAgentProtocol\<close> of \<open>hivescope/plugins/agent.py\<close> and \<open>TestBinaryProtocol\<close> of
  \<open>hivescope/plugins/binary.py\<close>: the recording wrapper around a bus's \<open>emit\<close> and its removal,
  the reverse routing from the agent bus to the satellites, the query seam, and the recorded
  binary calls.

  The bus itself is \<open>FakeBus\<close> of ovos-utils: here its \<open>emit\<close> attribute, its handler
  registrations, and the list of what reached its original \<open>emit\<close>. Functions of the OVOS
  libraries (\<open>Message.deserialize\<close>, \<open>Message.forward\<close>, the \<open>HiveMessage\<close> constructor) are
  arguments.
\<close>

section \<open>The recording wrapper\<close>

text \<open>The callables that can be a bus's \<open>emit\<close>: the bus's own, or the wrapper that protocol
  \<open>p\<close> put around another. A protocol makes one wrapper, so \<open>is\<close> on wrappers is equality.\<close>

datatype emitter = Base_Emit | Wrapper nat emitter

datatype bus_handler = On_Send nat | On_Message nat

record agent_bus =
  ab_emit :: emitter
  ab_handlers :: "(string \<times> bus_handler) list"
  ab_out :: "pyval list"
  ag_injected :: "nat \<Rightarrow> pyval list"
  ag_orig :: "nat \<Rightarrow> emitter option"
  ag_wrapper :: "nat \<Rightarrow> emitter option"

definition register_bus_handlers :: "nat \<Rightarrow> agent_bus \<Rightarrow> agent_bus" where
  "register_bus_handlers p w = w\<lparr>ab_handlers := ab_handlers w @
     [(''hive.send.downstream'', On_Send p), (''message'', On_Message p)]\<rparr>"

definition post_init :: "nat \<Rightarrow> agent_bus \<Rightarrow> agent_bus" where
  "post_init p w =
     (let orig = ab_emit w; wrapper = Wrapper p orig in
      register_bus_handlers p (w\<lparr>ag_orig := (ag_orig w)(p := Some orig), ab_emit := wrapper,
        ag_wrapper := (ag_wrapper w)(p := Some wrapper)\<rparr>))"

text \<open>\<open>_recording_emit\<close> of the wrappers from the outside in. A string that deserializes goes on
  as the \<open>Message\<close>; one that does not goes on untouched.\<close>

fun run_emit :: "(string \<Rightarrow> pyval result) \<Rightarrow> emitter \<Rightarrow> pyval \<Rightarrow> agent_bus \<Rightarrow> agent_bus" where
  "run_emit des Base_Emit msg w = w\<lparr>ab_out := ab_out w @ [msg]\<rparr>"
| "run_emit des (Wrapper p e) msg w =
     (let msg' = (case msg of PStr s \<Rightarrow> (case des s of Inl _ \<Rightarrow> msg | Inr m \<Rightarrow> m) | _ \<Rightarrow> msg) in
      run_emit des e msg'
        (case msg' of
           PMsg t d c \<Rightarrow> w\<lparr>ag_injected := (ag_injected w)(p := ag_injected w p @ [msg'])\<rparr>
         | _ \<Rightarrow> w))"

text \<open>\<open>bus.emit(msg)\<close>.\<close>

definition bus_emit :: "(string \<Rightarrow> pyval result) \<Rightarrow> pyval \<Rightarrow> agent_bus \<Rightarrow> agent_bus" where
  "bus_emit des msg w = run_emit des (ab_emit w) msg w"

text \<open>\<open>shutdown\<close>: a handler that is not registered makes \<open>remove\<close> raise, which is logged.\<close>

definition agent_shutdown :: "nat \<Rightarrow> agent_bus \<Rightarrow> agent_bus" where
  "agent_shutdown p w =
     (let hs = remove1 (''message'', On_Message p)
                 (remove1 (''hive.send.downstream'', On_Send p) (ab_handlers w));
          e = (case (ag_wrapper w p, ag_orig w p) of
                 (Some wrapper, Some orig) \<Rightarrow> (if ab_emit w = wrapper then orig else ab_emit w)
               | _ \<Rightarrow> ab_emit w) in
      w\<lparr>ab_handlers := hs, ab_emit := e, ag_wrapper := (ag_wrapper w)(p := None),
        ag_orig := (ag_orig w)(p := None)\<rparr>)"

definition of_type :: "string \<Rightarrow> pyval \<Rightarrow> bool" where
  "of_type mt m \<longleftrightarrow> (case m of PMsg t d c \<Rightarrow> t = mt | _ \<Rightarrow> False)"

definition last_injected :: "nat \<Rightarrow> string \<Rightarrow> agent_bus \<Rightarrow> pyval option" where
  "last_injected p mt w = last_opt (filter (of_type mt) (ag_injected w p))"

definition assert_injected :: "nat \<Rightarrow> string \<Rightarrow> nat \<Rightarrow> agent_bus \<Rightarrow> unit result" where
  "assert_injected p mt n w = require (length (filter (of_type mt) (ag_injected w p)) = n)"

definition assert_not_injected :: "nat \<Rightarrow> string \<Rightarrow> agent_bus \<Rightarrow> unit result" where
  "assert_not_injected p mt w = require (filter (of_type mt) (ag_injected w p) = [])"

definition clear_injected :: "nat \<Rightarrow> agent_bus \<Rightarrow> agent_bus" where
  "clear_injected p w = w\<lparr>ag_injected := (ag_injected w)(p := [])\<rparr>"

section \<open>Reverse routing\<close>

text \<open>What a routing handler does, in order: send a message on a client's connection, or emit
  one on the bus. The clients are those at the start of the handler; a send that changes
  \<open>clients\<close> under a running loop is outside the model.\<close>

datatype agent_act = Send_On nat hive_message | Emit_Bus pyval

definition is_type :: "pyval \<Rightarrow> hive_type list \<Rightarrow> bool" where
  "is_type mt ts \<longleftrightarrow> (\<exists>t \<in> set ts. py_eq (PStr (hive_value t)) mt)"

text \<open>\<open>peer in self.clients\<close>: looking up a list or a dictionary raises \<open>TypeError\<close>.\<close>

fun client_of :: "(string, nat) pydict \<Rightarrow> pyval \<Rightarrow> nat option result" where
  "client_of cs (PStr p) = Inr (dget cs p)"
| "client_of cs (PList xs) = Inl TypeError"
| "client_of cs (PDict d) = Inl TypeError"
| "client_of cs v = Inr None"

fun dict_index :: "pyval \<Rightarrow> string \<Rightarrow> pyval result" where
  "dict_index (PDict d) k = (case dget d k of None \<Rightarrow> Inl KeyError | Some v \<Rightarrow> Inr v)"
| "dict_index _ k = Inl TypeError"

text \<open>\<open>mk msg_type payload\<close> is the \<open>HiveMessage\<close>; \<open>fwd message type data\<close> is \<open>message.forward\<close>.\<close>

definition send_actions ::
    "(pyval \<Rightarrow> pyval \<Rightarrow> hive_message result) \<Rightarrow> (pyval \<Rightarrow> string \<Rightarrow> pyval \<Rightarrow> pyval) \<Rightarrow>
     (string, nat) pydict \<Rightarrow> pyval \<Rightarrow> agent_act list result" where
  "send_actions mk fwd cs message =
     rbind (py_get (msg_data message) ''payload'') (\<lambda>payload.
     rbind (py_get (msg_data message) ''peer'') (\<lambda>pr.
     rbind (dict_index (msg_data message) ''msg_type'') (\<lambda>mt.
     rbind (mk mt payload) (\<lambda>hm.
       if is_type mt [PROPAGATE, BROADCAST] then Inr (map (\<lambda>c. Send_On c hm) (dvals cs))
       else if is_type mt [ESCALATE] then Inr []
       else if truthy pr then
         rbind (client_of cs pr) (\<lambda>found. case found of
             Some c \<Rightarrow> Inr [Send_On c hm]
           | None \<Rightarrow> Inr [Emit_Bus (fwd message ''hive.client.send.error''
               (PDict [(''error'', PStr ''That client is not connected''), (''peer'', pr)]))])
       else Inr []))))"

definition act_prog :: "'t core \<Rightarrow> nat \<Rightarrow> agent_act \<Rightarrow> 't hive prog" where
  "act_prog co m a =
     (case a of Send_On c hm \<Rightarrow> conn_send co m c hm | Emit_Bus v \<Rightarrow> core_bus_emit co m v)"

definition handle_send ::
    "'t core \<Rightarrow> (pyval \<Rightarrow> pyval \<Rightarrow> hive_message result) \<Rightarrow> (pyval \<Rightarrow> string \<Rightarrow> pyval \<Rightarrow> pyval) \<Rightarrow>
     nat \<Rightarrow> pyval \<Rightarrow> 't hive prog" where
  "handle_send co mk fwd m message = Dyn (\<lambda>w.
     case send_actions mk fwd (m_clients (masters w m)) message of
       Inl e \<Rightarrow> Throw e
     | Inr acts \<Rightarrow> pfor acts (act_prog co m))"

text \<open>\<open>destination\<close> as a list of peers.\<close>

definition target_peers :: "pyval \<Rightarrow> pyval list" where
  "target_peers v = (case py_or v (PList []) of PList xs \<Rightarrow> xs | x \<Rightarrow> [x])"

fun set_source :: "pyval \<Rightarrow> pyval" where
  "set_source (PMsg t d (PDict c)) = PMsg t d (PDict (dset ''source'' (PStr ''hive'') c))"
| "set_source v = v"

definition internal_actions ::
    "(string \<Rightarrow> pyval result) \<Rightarrow> (pyval \<Rightarrow> pyval) \<Rightarrow> (string, nat) pydict \<Rightarrow> string \<Rightarrow>
     agent_act list result" where
  "internal_actions des payload_of cs raw =
     rbind (des raw) (\<lambda>message.
     rbind (py_get (msg_context message) ''destination'') (\<lambda>v.
       let targets = target_peers v in
       if targets = [] then Inr []
       else Inr (map (\<lambda>(p, c). Send_On c (hive_value BUS, payload_of (set_source message)))
                  (filter (\<lambda>(p, c). \<exists>t \<in> set targets. py_eq (PStr p) t) cs))))"

definition handle_internal_mycroft ::
    "'t core \<Rightarrow> (string \<Rightarrow> pyval result) \<Rightarrow> nat \<Rightarrow> string \<Rightarrow> 't hive prog" where
  "handle_internal_mycroft co des m raw = Dyn (\<lambda>w.
     case internal_actions des (core_bus_payload co) (m_clients (masters w m)) raw of
       Inl e \<Rightarrow> Throw e
     | Inr acts \<Rightarrow> pfor acts (act_prog co m))"

section \<open>The query seam\<close>

text \<open>What happens while \<open>natural_language_query\<close> waits: an emission on \<open>speak\<close> or on
  \<open>ovos.utterance.handled\<close>, or \<open>q.get\<close> finding nothing within the timeout. The queue is first
  in first out, so the generator's output depends only on the order of these.\<close>

datatype nlq_event = Spoke pyval | Handled pyval | Timed_Out

text \<open>The generator's yields, and how it ends: exhausted, with an exception, or still waiting.\<close>

datatype nlq_end = Finished | Raised py_exn | Waiting

definition as_message :: "(string \<Rightarrow> pyval result) \<Rightarrow> pyval \<Rightarrow> pyval option" where
  "as_message des v = (case v of
     PStr s \<Rightarrow> (case des s of Inl _ \<Rightarrow> None | Inr m \<Rightarrow> Some m)
   | _ \<Rightarrow> Some v)"

definition for_query :: "string \<Rightarrow> pyval \<Rightarrow> bool" where
  "for_query qid m \<longleftrightarrow> py_get (msg_context m) ''query_id'' = Inr (PStr qid)"

text \<open>\<open>_on_speak\<close> and \<open>_on_done\<close>: the chunk they put on the queue, if any.\<close>

definition on_speak :: "(string \<Rightarrow> pyval result) \<Rightarrow> string \<Rightarrow> pyval \<Rightarrow> pyval option" where
  "on_speak des qid v = (case as_message des v of
     None \<Rightarrow> None
   | Some m \<Rightarrow> (if of_type ''speak'' m \<and> for_query qid m
                then Some (case msg_data m of
                             PDict d \<Rightarrow> (case dget d ''utterance'' of None \<Rightarrow> PStr [] | Some u \<Rightarrow> u)
                           | _ \<Rightarrow> PStr [])
                else None))"

definition on_done :: "(string \<Rightarrow> pyval result) \<Rightarrow> string \<Rightarrow> pyval \<Rightarrow> bool" where
  "on_done des qid v = (case as_message des v of None \<Rightarrow> False | Some m \<Rightarrow> for_query qid m)"

fun nlq :: "(string \<Rightarrow> pyval result) \<Rightarrow> string \<Rightarrow> bool \<Rightarrow> nlq_event list \<Rightarrow> pyval list \<times> nlq_end" where
  "nlq des qid rt [] = ([], Waiting)"
| "nlq des qid rt (Spoke v # es) =
     (case on_speak des qid v of
        None \<Rightarrow> nlq des qid rt es
      | Some chunk \<Rightarrow>
          (if chunk = PNone then ([PNone], Finished)
           else (case nlq des qid rt es of (ys, r) \<Rightarrow> (chunk # ys, r))))"
| "nlq des qid rt (Handled v # es) =
     (if on_done des qid v then ([PNone], Finished) else nlq des qid rt es)"
| "nlq des qid rt (Timed_Out # es) =
     (if rt then ([], Raised TimeoutError) else ([PNone], Finished))"

section \<open>Binary calls\<close>

record binary_call =
  bc_handler :: string
  bc_data :: string
  bc_meta :: "(string, pyval) pydict"
  bc_type :: "string option"

datatype binary_input =
    Microphone_Input pyval pyval
  | Stt_Transcribe pyval pyval pyval
  | Stt_Handle pyval pyval pyval
  | Numpy_Image pyval
  | Receive_Tts pyval pyval pyval
  | Receive_File pyval

text \<open>The six handlers: the call each one records for the data and the client's peer.\<close>

fun binary_call_of :: "binary_input \<Rightarrow> string \<Rightarrow> string \<Rightarrow> binary_call" where
  "binary_call_of (Microphone_Input rate width) dat pr =
     \<lparr>bc_handler = ''microphone_input'', bc_data = dat,
      bc_meta = [(''sample_rate'', rate), (''sample_width'', width), (''peer'', PStr pr)],
      bc_type = Some ''RAW_AUDIO''\<rparr>"
| "binary_call_of (Stt_Transcribe rate width lang) dat pr =
     \<lparr>bc_handler = ''stt_transcribe'', bc_data = dat,
      bc_meta = [(''lang'', lang), (''sample_rate'', rate), (''sample_width'', width), (''peer'', PStr pr)],
      bc_type = Some ''STT_AUDIO_TRANSCRIBE''\<rparr>"
| "binary_call_of (Stt_Handle rate width lang) dat pr =
     \<lparr>bc_handler = ''stt_handle'', bc_data = dat,
      bc_meta = [(''lang'', lang), (''sample_rate'', rate), (''sample_width'', width), (''peer'', PStr pr)],
      bc_type = Some ''STT_AUDIO_HANDLE''\<rparr>"
| "binary_call_of (Numpy_Image cam) dat pr =
     \<lparr>bc_handler = ''numpy_image'', bc_data = dat,
      bc_meta = [(''camera_id'', cam), (''peer'', PStr pr)], bc_type = None\<rparr>"
| "binary_call_of (Receive_Tts utterance lang file) dat pr =
     \<lparr>bc_handler = ''receive_tts'', bc_data = dat,
      bc_meta = [(''utterance'', utterance), (''lang'', lang), (''file_name'', file), (''peer'', PStr pr)],
      bc_type = None\<rparr>"
| "binary_call_of (Receive_File file) dat pr =
     \<lparr>bc_handler = ''receive_file'', bc_data = dat,
      bc_meta = [(''file_name'', file), (''peer'', PStr pr)], bc_type = None\<rparr>"

definition handle_binary ::
    "binary_input \<Rightarrow> string \<Rightarrow> string \<Rightarrow> binary_call list \<Rightarrow> binary_call list" where
  "handle_binary i dat pr cs = cs @ [binary_call_of i dat pr]"

definition calls_to :: "string \<Rightarrow> binary_call list \<Rightarrow> binary_call list" where
  "calls_to h cs = filter (\<lambda>c. bc_handler c = h) cs"

definition assert_called :: "string \<Rightarrow> nat \<Rightarrow> binary_call list \<Rightarrow> unit result" where
  "assert_called h n cs = require (length (calls_to h cs) = n)"

definition assert_not_called :: "string \<Rightarrow> binary_call list \<Rightarrow> unit result" where
  "assert_not_called h cs = require (calls_to h cs = [])"

definition last_call :: "string \<Rightarrow> binary_call list \<Rightarrow> binary_call option" where
  "last_call h cs = last_opt (calls_to h cs)"

definition clear_calls :: "binary_call list \<Rightarrow> binary_call list" where
  "clear_calls cs = []"

section \<open>Lemmas\<close>

fun layers :: "emitter \<Rightarrow> nat list" where
  "layers Base_Emit = []"
| "layers (Wrapper p e) = p # layers e"

lemma count_distinct: "distinct xs \<Longrightarrow> count_list xs x = (if x \<in> set xs then 1 else 0)"
  by (induction xs) auto

lemma run_emit_other [simp]:
  "ab_emit (run_emit des e msg w) = ab_emit w" "ab_handlers (run_emit des e msg w) = ab_handlers w"
  by (induction des e msg w rule: run_emit.induct) (auto simp: Let_def split: pyval.split)

lemma run_emit_message:
  "ab_out (run_emit des e (PMsg t d c) w) = ab_out w @ [PMsg t d c]
   \<and> ag_injected (run_emit des e (PMsg t d c) w) p
      = ag_injected w p @ replicate (count_list (layers e) p) (PMsg t d c)"
proof (induction e arbitrary: w)
  case (Wrapper q e)
  let ?w = "w\<lparr>ag_injected := (ag_injected w)(q := ag_injected w q @ [PMsg t d c])\<rparr>"
  from Wrapper.IH [of ?w] show ?case by (auto simp: Let_def replicate_append_same [symmetric])
qed simp

lemma run_emit_opaque:
  assumes "case v of PMsg t d c \<Rightarrow> False | PStr s \<Rightarrow> (\<exists>x. des s = Inl x) | _ \<Rightarrow> True"
  shows "ab_out (run_emit des e v w) = ab_out w @ [v] \<and> ag_injected (run_emit des e v w) = ag_injected w"
  using assms
proof (induction e arbitrary: w)
  case (Wrapper q e)
  then show ?case by (cases v) (auto simp: Let_def)
qed simp

text \<open>What \<open>post_init\<close> and \<open>agent_shutdown\<close> of one protocol leave alone for another.\<close>

lemma post_init_sel [simp]:
  "ab_emit (post_init p w) = Wrapper p (ab_emit w)"
  "ag_orig (post_init p w) = (ag_orig w)(p := Some (ab_emit w))"
  "ag_wrapper (post_init p w) = (ag_wrapper w)(p := Some (Wrapper p (ab_emit w)))"
  "ab_handlers (post_init p w) = ab_handlers w @
     [(''hive.send.downstream'', On_Send p), (''message'', On_Message p)]"
  "ag_injected (post_init p w) = ag_injected w" "ab_out (post_init p w) = ab_out w"
  by (simp_all add: post_init_def register_bus_handlers_def Let_def)

lemma shutdown_sel [simp]:
  "ag_orig (agent_shutdown p w) = (ag_orig w)(p := None)"
  "ag_wrapper (agent_shutdown p w) = (ag_wrapper w)(p := None)"
  "ab_handlers (agent_shutdown p w) = remove1 (''message'', On_Message p)
     (remove1 (''hive.send.downstream'', On_Send p) (ab_handlers w))"
  "ag_injected (agent_shutdown p w) = ag_injected w" "ab_out (agent_shutdown p w) = ab_out w"
  by (simp_all add: agent_shutdown_def Let_def)

lemma shutdown_emit:
  "ab_emit (agent_shutdown p w) = (case (ag_wrapper w p, ag_orig w p) of
     (Some wrapper, Some orig) \<Rightarrow> (if ab_emit w = wrapper then orig else ab_emit w)
   | _ \<Rightarrow> ab_emit w)"
  by (simp add: agent_shutdown_def Let_def)

definition handlers_of :: "nat \<Rightarrow> (string \<times> bus_handler) set" where
  "handlers_of p = {(''hive.send.downstream'', On_Send p), (''message'', On_Message p)}"

lemma nested_sel:
  assumes "p \<notin> set ps"
  shows "ag_orig (fold post_init ps w) p = ag_orig w p \<and> ag_wrapper (fold post_init ps w) p = ag_wrapper w p"
  using assms by (induction ps arbitrary: w) auto

lemma unwound_sel:
  assumes "p \<notin> set ps"
  shows "ag_orig (fold agent_shutdown ps w) p = ag_orig w p
    \<and> ag_wrapper (fold agent_shutdown ps w) p = ag_wrapper w p"
  using assms by (induction ps arbitrary: w) auto

lemma nested_shutdown:
  assumes "distinct ps" and "\<forall>p \<in> set ps. handlers_of p \<inter> set (ab_handlers w) = {}"
  shows "ab_emit (fold agent_shutdown (rev ps) (fold post_init ps w)) = ab_emit w
    \<and> ab_handlers (fold agent_shutdown (rev ps) (fold post_init ps w)) = ab_handlers w"
  using assms
proof (induction ps arbitrary: w)
  case (Cons p ps)
  let ?w = "post_init p w" and ?v = "fold agent_shutdown (rev ps) (fold post_init ps (post_init p w))"
  have "\<forall>q \<in> set ps. handlers_of q \<inter> set (ab_handlers ?w) = {}"
    using Cons.prems by (auto simp: handlers_of_def)
  with Cons.IH [of ?w] Cons.prems(1) have v: "ab_emit ?v = ab_emit ?w" "ab_handlers ?v = ab_handlers ?w"
    by simp_all
  have "ag_orig ?v p = ag_orig ?w p" "ag_wrapper ?v p = ag_wrapper ?w p"
    using Cons.prems(1) unwound_sel [of p "rev ps"] nested_sel [of p ps ?w] by auto
  with v Cons.prems(2) show ?case
    by (simp add: shutdown_emit handlers_of_def remove1_append)
qed simp

lemma sends_only [simp]: "Send_On c h \<in> set (map (\<lambda>(p, c). Send_On c (f p)) cs) \<longleftrightarrow>
    (\<exists>p. (p, c) \<in> set cs \<and> h = f p)"
  by force

section \<open>Properties\<close>

text \<open>Recording is transparent and complete. A \<open>Message\<close> emitted on the agent bus reaches the
  bus's own \<open>emit\<close> exactly once and unchanged, is recorded exactly once by every protocol whose
  wrapper is installed and by no other; a string is deserialized first, and one that does not
  deserialize passes through untouched and unrecorded.\<close>

theorem emit_records_once_per_wrapper:
  assumes "distinct (layers (ab_emit w))"
  shows "(\<forall>t d c. let w' = bus_emit des (PMsg t d c) w in
       ab_out w' = ab_out w @ [PMsg t d c]
       \<and> (\<forall>p. ag_injected w' p = ag_injected w p @ (if p \<in> set (layers (ab_emit w)) then [PMsg t d c] else [])))
    \<and> (\<forall>s x. des s = Inl x \<longrightarrow> ab_out (bus_emit des (PStr s) w) = ab_out w @ [PStr s]
       \<and> ag_injected (bus_emit des (PStr s) w) = ag_injected w)
    \<and> (\<forall>s t d c. des s = Inr (PMsg t d c) \<longrightarrow> ab_emit w \<noteq> Base_Emit \<longrightarrow>
         bus_emit des (PStr s) w = bus_emit des (PMsg t d c) w)"
proof (intro conjI allI impI)
  fix t d c
  have "count_list (layers (ab_emit w)) p = (if p \<in> set (layers (ab_emit w)) then 1 else 0)" for p
    using assms by (simp add: count_distinct)
  then show "let w' = bus_emit des (PMsg t d c) w in ab_out w' = ab_out w @ [PMsg t d c]
       \<and> (\<forall>p. ag_injected w' p = ag_injected w p @ (if p \<in> set (layers (ab_emit w)) then [PMsg t d c] else []))"
    using run_emit_message [of des "ab_emit w" t d c w] by (simp add: bus_emit_def Let_def)
next
  fix s t d c
  assume "des s = Inr (PMsg t d c)" "ab_emit w \<noteq> Base_Emit"
  then show "bus_emit des (PStr s) w = bus_emit des (PMsg t d c) w"
    by (cases "ab_emit w") (simp_all add: bus_emit_def Let_def)
qed (simp_all add: bus_emit_def run_emit_opaque)

definition bare_bus :: agent_bus where
  "bare_bus = \<lparr>ab_emit = Base_Emit, ab_handlers = [], ab_out = [], ag_injected = (\<lambda>_. []),
     ag_orig = (\<lambda>_. None), ag_wrapper = (\<lambda>_. None)\<rparr>"

theorem emit_records_once_per_wrapper_witness:
  "ag_injected (bus_emit (\<lambda>s. Inl ValueError) (PMsg ''speak'' (PDict []) (PDict []))
     (post_init 1 (post_init 0 bare_bus))) 0 = [PMsg ''speak'' (PDict []) (PDict [])]"
proof -
  have "distinct (layers (ab_emit (post_init 1 (post_init 0 bare_bus))))"
    by (simp add: bare_bus_def)
  from emit_records_once_per_wrapper [OF this, of "\<lambda>s. Inl ValueError"] show ?thesis
    by (simp add: Let_def bare_bus_def)
qed

text \<open>C26: Shutting protocols down in the reverse order of their creation undoes everything: the
  bus has its original \<open>emit\<close> and exactly its original handlers again, for any number of
  protocols on one bus.\<close>

theorem reverse_shutdown_restores_bus:
  assumes "distinct ps" and "\<forall>p \<in> set ps. handlers_of p \<inter> set (ab_handlers w) = {}"
  shows "ab_emit (fold agent_shutdown (rev ps) (fold post_init ps w)) = ab_emit w
    \<and> ab_handlers (fold agent_shutdown (rev ps) (fold post_init ps w)) = ab_handlers w"
  using nested_shutdown [OF assms] .

theorem reverse_shutdown_restores_bus_witness:
  "ab_emit (fold agent_shutdown [2, 1, 0] (fold post_init [0, 1, 2] bare_bus)) = Base_Emit"
  using reverse_shutdown_restores_bus [of "[0, 1, 2]" bare_bus] by (simp add: bare_bus_def)

text \<open>Shutting two protocols of one bus down in the order of their creation, which is the
  order of \<open>stop_all\<close>, does not: the first one's wrapper stays installed for good, keeps
  recording every message into the dead protocol, and no later shutdown can remove it.\<close>

theorem forward_shutdown_leaves_dead_wrapper:
  assumes "p \<noteq> q" and "\<forall>r e. ag_wrapper w r = Some e \<longrightarrow> (\<exists>e'. e = Wrapper r e')"
  shows "let w' = agent_shutdown q (agent_shutdown p (post_init q (post_init p w))) in
    ab_emit w' = Wrapper p (ab_emit w) \<and> ag_wrapper w' p = None
    \<and> (\<forall>r. ab_emit (agent_shutdown r w') = ab_emit w')
    \<and> ag_injected (bus_emit des (PMsg t d c) w') p
        = ag_injected w p @ replicate (Suc (count_list (layers (ab_emit w)) p)) (PMsg t d c)"
proof -
  define w' where "w' = agent_shutdown q (agent_shutdown p (post_init q (post_init p w)))"
  have e: "ab_emit w' = Wrapper p (ab_emit w)" "ag_wrapper w' = (ag_wrapper w)(p := None, q := None)"
    "ag_injected w' = ag_injected w"
    using assms(1) by (auto simp: w'_def shutdown_emit)
  have "ab_emit (agent_shutdown r w') = ab_emit w'" for r
    using assms(2) by (auto simp: shutdown_emit e split: option.split)
  moreover have "ag_injected (bus_emit des (PMsg t d c) w') p
      = ag_injected w p @ replicate (Suc (count_list (layers (ab_emit w)) p)) (PMsg t d c)"
    using run_emit_message [of des "ab_emit w'" t d c w' p] unfolding bus_emit_def by (simp add: e)
  ultimately show ?thesis using e assms(1) unfolding w'_def [symmetric] Let_def by simp
qed

theorem forward_shutdown_leaves_dead_wrapper_witness:
  "ab_emit (agent_shutdown 1 (agent_shutdown 0 (post_init 1 (post_init 0 bare_bus)))) = Wrapper 0 Base_Emit"
  using forward_shutdown_leaves_dead_wrapper [of 0 1 bare_bus] by (simp add: Let_def bare_bus_def)

text \<open>\<open>handle_send\<close> reaches exactly the clients its rules name, each once, all with the one
  message it built: PROPAGATE and BROADCAST every client in order; ESCALATE nobody; every other
  type, QUERY and CASCADE included, at most the requested peer, and when that peer is not
  connected one error message on the bus instead.\<close>

theorem handle_send_targets:
  assumes "msg_data message = PDict d" and "dget d ''msg_type'' = Some (PStr t)"
    and "send_actions mk fwd cs message = Inr acts"
  defines "hm \<equiv> mk (PStr t) (case dget d ''payload'' of None \<Rightarrow> PNone | Some x \<Rightarrow> x)"
  shows "(\<forall>c h. Send_On c h \<in> set acts \<longrightarrow> hm = Inr h)
    \<and> (if t = hive_value PROPAGATE \<or> t = hive_value BROADCAST
       then (\<exists>h. acts = map (\<lambda>c. Send_On c h) (dvals cs))
       else length acts \<le> 1 \<and> (\<forall>c h. Send_On c h \<in> set acts \<longrightarrow>
              (\<exists>p. dget d ''peer'' = Some (PStr p) \<and> dget cs p = Some c)))
    \<and> (t = hive_value ESCALATE \<longrightarrow> acts = [])
    \<and> (\<forall>p. t \<notin> {hive_value PROPAGATE, hive_value BROADCAST, hive_value ESCALATE} \<longrightarrow> p \<noteq> [] \<longrightarrow>
         dget d ''peer'' = Some (PStr p) \<longrightarrow>
         (case dget cs p of Some c \<Rightarrow> \<exists>h. acts = [Send_On c h] | None \<Rightarrow> \<exists>v. acts = [Emit_Bus v]))"
proof -
  obtain h where h: "hm = Inr h"
    using assms(1-3) by (cases hm) (auto simp: send_actions_def hm_def)
  have peers: "client_of cs v = Inr (Some c) \<Longrightarrow> \<exists>p. v = PStr p \<and> dget cs p = Some c" for v c
    by (cases v) auto
  consider (fan) "t = hive_value PROPAGATE \<or> t = hive_value BROADCAST" | (esc) "t = hive_value ESCALATE"
    | (other) "t \<notin> {hive_value PROPAGATE, hive_value BROADCAST, hive_value ESCALATE}" by blast
  then show ?thesis
  proof cases
    case fan
    with assms(1-3) h have "acts = map (\<lambda>c. Send_On c h) (dvals cs)"
      by (auto simp: send_actions_def is_type_def hm_def)
    with fan h show ?thesis by auto
  next
    case esc
    with assms(1-3) h have "acts = []"
      by (auto simp: send_actions_def is_type_def hm_def)
    with esc h show ?thesis by simp
  next
    case other
    with assms(1-3) h show ?thesis
      by (auto simp: send_actions_def is_type_def hm_def dest: peers
          split: if_splits option.splits)
  qed
qed

theorem handle_send_targets_witness:
  "send_actions (\<lambda>t p. Inr (''query'', p)) (\<lambda>m t d. d) [(''a'', 7), (''b'', 8)]
     (PMsg ''hive.send.downstream'' (PDict [(''msg_type'', PStr ''query''), (''peer'', PStr ''b'')]) (PDict []))
   = Inr [Send_On 8 (''query'', PNone)]"
proof -
  let ?m = "PMsg ''hive.send.downstream''
    (PDict [(''msg_type'', PStr ''query''), (''peer'', PStr ''b'')]) (PDict [])"
  let ?d = "[(''msg_type'', PStr ''query''), (''peer'', PStr ''b'')]"
  let ?acts = "send_actions (\<lambda>t p. Inr (''query'', p)) (\<lambda>m t d. d) [(''a'', 7), (''b'', 8)] ?m"
  obtain acts where acts: "?acts = Inr acts"
    by (simp add: send_actions_def is_type_def dget_def)
  have d: "msg_data ?m = PDict ?d" "dget ?d ''msg_type'' = Some (PStr ''query'')"
    "dget ?d ''peer'' = Some (PStr ''b'')" "dget ?d ''payload'' = None"
    by (simp_all add: dget_def)
  have cs: "dget [(''a'', 7), (''b'', 8 :: nat)] ''b'' = Some 8" by (simp add: dget_def)
  obtain h where "acts = [Send_On 8 h]"
    using handle_send_targets [OF d(1,2) acts] d(3) cs by fastforce
  moreover from this handle_send_targets [OF d(1,2) acts] d(4) have "h = (''query'', PNone)" by auto
  ultimately show ?thesis using acts by simp
qed

text \<open>C24: Reverse routing isolates the clients. A message on the agent bus is sent to exactly the
  connected peers that its \<open>destination\<close> names, at most once each and in the order of the
  clients; a message without a destination goes to nobody; and what is sent has \<open>hive\<close> as its
  source.\<close>

theorem reverse_routing_isolates_clients:
  assumes "internal_actions des payload_of cs raw = Inr acts" and "dict_ok cs"
    and "des raw = Inr (PMsg t d (PDict ctx))"
  shows "(\<forall>c h. Send_On c h \<in> set acts \<longleftrightarrow>
       h = (hive_value BUS, payload_of (PMsg t d (PDict (dset ''source'' (PStr ''hive'') ctx))))
       \<and> (\<exists>p v. dget cs p = Some c \<and> dget ctx ''destination'' = Some v \<and> PStr p \<in> set (target_peers v)))
    \<and> (\<forall>v. Emit_Bus v \<notin> set acts)
    \<and> (distinct (dvals cs) \<longrightarrow> distinct acts)
    \<and> (dget ctx ''destination'' = None \<longrightarrow> acts = [])"
proof -
  let ?v = "case dget ctx ''destination'' of None \<Rightarrow> PNone | Some x \<Rightarrow> x"
  let ?h = "(hive_value BUS, payload_of (PMsg t d (PDict (dset ''source'' (PStr ''hive'') ctx))))"
  have acts: "acts = map (\<lambda>(p, c). Send_On c ?h) (filter (\<lambda>(p, c). PStr p \<in> set (target_peers ?v)) cs)"
    using assms(1,3) by (auto simp: internal_actions_def Let_def split: if_splits)
  have none: "target_peers PNone = []" by (simp add: target_peers_def py_or_def)
  have look: "(p, c) \<in> set cs \<longleftrightarrow> dget cs p = Some c" for p c
    using assms(2) by (simp add: dict_ok_def dget_def map_of_eq_Some_iff)
  have "distinct acts" if "distinct (dvals cs)"
  proof -
    have "distinct (map snd (filter (\<lambda>(p, c). PStr p \<in> set (target_peers ?v)) cs))"
      using that by (simp add: dvals_def distinct_map_filter)
    then show ?thesis
      unfolding acts by (auto simp: distinct_map inj_on_def split: prod.splits)
  qed
  moreover have "Send_On c h \<in> set acts \<longleftrightarrow> h = ?h
       \<and> (\<exists>p v. dget cs p = Some c \<and> dget ctx ''destination'' = Some v \<and> PStr p \<in> set (target_peers v))" for c h
    unfolding acts by (cases "dget ctx ''destination''") (auto simp: none look)
  moreover have "Emit_Bus v \<notin> set acts" for v unfolding acts by auto
  moreover have "dget ctx ''destination'' = None \<longrightarrow> acts = []" unfolding acts by (simp add: none)
  ultimately show ?thesis by blast
qed

theorem reverse_routing_isolates_clients_witness:
  "\<exists>acts. internal_actions (\<lambda>s. Inr (PMsg s (PDict []) (PDict [(''destination'', PStr ''b'')]))) (\<lambda>v. v)
       [(''a'', 7), (''b'', 8)] ''speak'' = Inr acts
     \<and> (\<forall>c h. Send_On c h \<in> set acts \<longrightarrow> c = 8)"
proof -
  let ?des = "\<lambda>s. Inr (PMsg s (PDict []) (PDict [(''destination'', PStr ''b'')]))"
  obtain acts where acts: "internal_actions ?des (\<lambda>v. v) [(''a'', 7), (''b'', 8)] ''speak'' = Inr acts"
    by (simp add: internal_actions_def Let_def dget_def target_peers_def py_or_def)
  have "dict_ok [(''a'', 7), (''b'', 8 :: nat)]" by (simp add: dict_ok_def)
  from reverse_routing_isolates_clients [OF acts this refl] acts show ?thesis
    by (auto simp: dget_def target_peers_def py_or_def split: if_splits)
qed



text \<open>Every binary message is recorded once, under its own handler, with the sender's peer:
  the last call of that handler is this one, the number of its calls grows by one, and the calls
  of the other handlers stay as they were.\<close>

theorem binary_call_recorded_once:
  "let c = binary_call_of i dat pr; cs' = handle_binary i dat pr cs; h = bc_handler c in
     last_call h cs' = Some c \<and> bc_data c = dat \<and> dget (bc_meta c) ''peer'' = Some (PStr pr)
     \<and> (assert_called h (Suc n) cs' = Inr () \<longleftrightarrow> assert_called h n cs = Inr ())
     \<and> assert_not_called h cs' = Inl AssertionError
     \<and> (\<forall>g. g \<noteq> h \<longrightarrow> calls_to g cs' = calls_to g cs)"
  by (cases i) (auto simp: Let_def handle_binary_def last_call_def calls_to_def assert_called_def
      assert_not_called_def require_def dget_def)

end
