(* ===== verification/Delivery_Assertions.thy ===== *)
theory Delivery_Assertions
  imports Agent_Protocol
begin

text \<open>
  The delivery and admission helpers of \<open>hivescope/assertions.py\<close> (its first half): each one
  reads recorder snapshots and returns or raises. A node is represented by the snapshot that the
  helper takes of its recorder; helpers that wait are functions of the readings they make.
  \<open>AssertionError\<close> stands for the error with its diagnostic text.
\<close>

section \<open>Reading records\<close>

definition find_records :: "string \<Rightarrow> string option \<Rightarrow> records \<Rightarrow> records" where
  "find_records mt dir rs =
     filter (\<lambda>r. msg_type r = mt \<and> (case dir of None \<Rightarrow> True | Some d \<Rightarrow> direction r = d)) rs"

lemma find_records_all: "find_records mt dir rs = find_all mt dir rs"
  by (cases dir) (auto simp: find_records_def find_all_def rec_matches_def intro!: filter_cong)

text \<open>\<open>payload.get(k) == s\<close> for a payload that is a dictionary.\<close>

fun field_is :: "pyval \<Rightarrow> string \<Rightarrow> string \<Rightarrow> bool" where
  "field_is (PDict d) k s = (dget d k = Some (PStr s))"
| "field_is _ k s = False"

definition find_broadcast_inner :: "string \<Rightarrow> records \<Rightarrow> records" where
  "find_broadcast_inner inner rs = filter (\<lambda>r. direction r = ''in'' \<and>
     (msg_type r = inner \<or>
      msg_type r = hive_value BROADCAST \<and> field_is (payload r) ''msg_type'' inner)) rs"

definition non_payload_types :: "string list" where
  "non_payload_types = [hive_value HANDSHAKE, hive_value HELLO, hive_value PING]"

definition inner_payload :: "recorded_message \<Rightarrow> pyval" where
  "inner_payload r = as_dict (payload r)"

definition is_policy_denied :: "recorded_message \<Rightarrow> bool" where
  "is_policy_denied r = field_is (inner_payload r) ''type'' ''hive.policy.denied''"

section \<open>Policy denials\<close>

datatype denial = Typed | Untyped | No_Denial

text \<open>How \<open>_denied_records\<close> sorts one record.\<close>

definition denial_kind :: "string option \<Rightarrow> recorded_message \<Rightarrow> denial result" where
  "denial_kind mt r =
     (if direction r \<noteq> ''in'' \<or> msg_type r \<noteq> hive_value BUS \<or> \<not> is_policy_denied r then Inr No_Denial
      else case mt of None \<Rightarrow> Inr Typed
      | Some t \<Rightarrow>
          rbind (py_get (inner_payload r) ''data'') (\<lambda>v.
          let dat = py_or v (PDict []) in
          rbind (py_get dat ''denied_type'') (\<lambda>a.
          rbind (py_get dat ''msg_type'') (\<lambda>b.
          rbind (py_get dat ''type'') (\<lambda>c.
            let reported = py_or (py_or a b) c in
            Inr (if reported = PNone then Untyped
                 else if py_eq (PStr t) reported then Typed else No_Denial))))))"

definition denied_records :: "string option \<Rightarrow> bool \<Rightarrow> records \<Rightarrow> records result" where
  "denied_records mt strict rs =
     (if (case mt of None \<Rightarrow> False | Some t \<Rightarrow> t \<in> hive_value ` set hive_types) then Inl ValueError
      else rbind (rmap (denial_kind mt) rs) (\<lambda>ks.
        let typed = map snd (filter (\<lambda>(k, r). k = Typed) (zip ks rs));
            untyped = map snd (filter (\<lambda>(k, r). k = Untyped) (zip ks rs)) in
        if typed \<noteq> [] \<or> mt = None \<or> strict then Inr typed else Inr untyped))"

section \<open>Handshake, encryption, and counted deliveries\<close>

definition assert_handshake_complete :: "nat \<Rightarrow> nat \<Rightarrow> 't hive \<Rightarrow> unit result" where
  "assert_handshake_complete m s w = require (s_noise (sats w s) \<noteq> None \<and> s_handshake (sats w s)
     \<and> (case sat_peer s w of None \<Rightarrow> False | Some p \<Rightarrow> p \<in> set (connected_peers m w)))"

text \<open>The cipher and encoding of a connection and of the shim are the libraries'.\<close>

definition assert_encryption_match ::
    "(nat \<Rightarrow> string \<times> string) \<Rightarrow> string \<times> string \<Rightarrow> nat \<Rightarrow> nat \<Rightarrow> 't hive \<Rightarrow> unit result" where
  "assert_encryption_match crypto shim m s w =
     (case List.find (\<lambda>c. Some (c_peer (conns w c)) = sat_peer s w) (dvals (m_clients (masters w m))) of
        None \<Rightarrow> Inl AssertionError
      | Some c \<Rightarrow> require (crypto c = shim))"

definition count_is :: "string \<Rightarrow> string option \<Rightarrow> nat \<Rightarrow> records \<Rightarrow> bool" where
  "count_is mt dir n rs \<longleftrightarrow> length (find_records mt dir rs) = n"

definition assert_hello_received :: "nat \<Rightarrow> records \<Rightarrow> unit result" where
  "assert_hello_received n rs = require (count_is (hive_value HELLO) (Some ''in'') n rs)"

definition assert_bus_message_routed :: "nat \<Rightarrow> records \<Rightarrow> unit result" where
  "assert_bus_message_routed n rs = require (count_is (hive_value BUS) (Some ''in'') n rs)"

definition assert_shared_bus_received :: "nat \<Rightarrow> string option \<Rightarrow> records \<Rightarrow> unit result" where
  "assert_shared_bus_received n dir rs = require (count_is (hive_value SHARED_BUS) dir n rs)"

definition broadcast_matches :: "string option \<Rightarrow> records \<Rightarrow> records" where
  "broadcast_matches inner rs = (case inner of
     Some (c # t) \<Rightarrow> find_broadcast_inner (c # t) rs
   | _ \<Rightarrow> filter (\<lambda>r. direction r = ''in'' \<and> msg_type r \<notin> set non_payload_types
            \<and> \<not> is_policy_denied r) rs)"

definition assert_broadcast_delivered :: "nat \<Rightarrow> string option \<Rightarrow> records list \<Rightarrow> unit result" where
  "assert_broadcast_delivered n inner nodes =
     require (\<forall>rs \<in> set nodes. length (broadcast_matches inner rs) = n)"

definition assert_broadcast_blocked :: "records \<Rightarrow> unit result" where
  "assert_broadcast_blocked rs = require (find_records (hive_value BROADCAST) (Some ''in'') rs = [])"

definition assert_propagate_delivered :: "nat \<Rightarrow> records list \<Rightarrow> unit result" where
  "assert_propagate_delivered n nodes =
     require (\<forall>rs \<in> set nodes. count_is (hive_value PROPAGATE) (Some ''in'') n rs)"

definition assert_escalate_delivered :: "nat \<Rightarrow> records \<Rightarrow> unit result" where
  "assert_escalate_delivered n rs = require (count_is (hive_value ESCALATE) (Some ''in'') n rs)"

definition assert_intercom_delivered :: "nat \<Rightarrow> records \<Rightarrow> unit result" where
  "assert_intercom_delivered n rs = require (count_is (hive_value INTERCOM) (Some ''in'') n rs)"

definition assert_binary_delivered ::
    "string option \<Rightarrow> nat \<Rightarrow> records \<Rightarrow> binary_call list \<Rightarrow> unit result" where
  "assert_binary_delivered expected n rs cs =
     (let found = find_records (hive_value BINARY) (Some ''in'') rs in
      rbind (require (length found = n)) (\<lambda>_.
        case expected of None \<Rightarrow> Inr ()
        | Some b \<Rightarrow> require ((\<exists>c \<in> set cs. bc_data c = b) \<or> (\<exists>r \<in> set found. payload r = PBytes b))))"

definition assert_cascade_routed :: "nat \<Rightarrow> records list \<Rightarrow> unit result" where
  "assert_cascade_routed n nodes = require (\<forall>rs \<in> set nodes. count_is (hive_value CASCADE) None n rs)"

definition assert_rendezvous_handled :: "nat \<Rightarrow> records \<Rightarrow> unit result" where
  "assert_rendezvous_handled n rs = require (count_is (hive_value RENDEZVOUS) None n rs)"

definition assert_passthrough_message_delivered ::
    "hive_type \<Rightarrow> nat \<Rightarrow> string option \<Rightarrow> records \<Rightarrow> unit result" where
  "assert_passthrough_message_delivered t n dir rs = require (count_is (hive_value t) dir n rs)"

definition assert_client_registered :: "string \<Rightarrow> nat \<Rightarrow> 't hive \<Rightarrow> unit result" where
  "assert_client_registered p m w = require (p \<in> set (connected_peers m w))"

definition assert_client_not_registered :: "string \<Rightarrow> nat \<Rightarrow> 't hive \<Rightarrow> unit result" where
  "assert_client_not_registered p m w = require (p \<notin> set (connected_peers m w))"

section \<open>Admission\<close>

text \<open>The bus injections of a message type, from one peer or, when the satellite has none, from
  any.\<close>

definition injections :: "string \<Rightarrow> string option \<Rightarrow> records \<Rightarrow> records" where
  "injections mt pr rs = filter (\<lambda>r. direction r = ''bus_inject'' \<and> msg_type r = mt
     \<and> (case pr of None \<Rightarrow> True | Some p \<Rightarrow> peer r = p)) rs"

definition assert_acl_enforced ::
    "string \<Rightarrow> bool \<Rightarrow> bool \<Rightarrow> string option \<Rightarrow> records \<Rightarrow> records \<Rightarrow> unit result" where
  "assert_acl_enforced mt allowed strict pr master_rs sat_rs =
     rbind (denied_records (Some mt) strict sat_rs) (\<lambda>denied.
       if allowed then rbind (require (denied = [])) (\<lambda>_. require (injections mt pr master_rs \<noteq> []))
       else require (denied \<noteq> []))"

text \<open>\<open>str(data.get("code", ""))\<close>. A code that is a container is never one of the stable codes, so
  its text is not spelled out.\<close>

definition code_is :: "string \<Rightarrow> pyval \<Rightarrow> bool" where
  "code_is code v \<longleftrightarrow> (case v of
     PStr s \<Rightarrow> s = code
   | PNone \<Rightarrow> code = ''None''
   | PBool b \<Rightarrow> code = (if b then ''True'' else ''False'')
   | PInt i \<Rightarrow> code = int_str i
   | _ \<Rightarrow> False)"

text \<open>\<open>payload.get("data", {})\<close>, then its \<open>code\<close>: the loop stops at the first match.\<close>

fun code_found :: "string \<Rightarrow> records \<Rightarrow> bool result" where
  "code_found code [] = Inr False"
| "code_found code (r # rs) =
     (case inner_payload r of
        PDict d \<Rightarrow>
          (case (case dget d ''data'' of None \<Rightarrow> PDict [] | Some v \<Rightarrow> v) of
             PDict e \<Rightarrow> (if code_is code (case dget e ''code'' of None \<Rightarrow> PStr [] | Some v \<Rightarrow> v) then Inr True
                          else code_found code rs)
           | _ \<Rightarrow> Inl AttributeError)
      | _ \<Rightarrow> Inl AttributeError)"

definition assert_policy_denied ::
    "string \<Rightarrow> string option \<Rightarrow> bool \<Rightarrow> records \<Rightarrow> unit result" where
  "assert_policy_denied mt code strict sat_rs =
     rbind (denied_records (Some mt) strict sat_rs) (\<lambda>denied.
     rbind (require (denied \<noteq> [])) (\<lambda>_.
       case code of None \<Rightarrow> Inr ()
       | Some k \<Rightarrow> rbind (code_found k denied) (\<lambda>b. require b)))"

text \<open>\<open>list(x or [])\<close>.\<close>

fun py_list :: "pyval \<Rightarrow> pyval list result" where
  "py_list (PList xs) = Inr xs"
| "py_list (PStr s) = Inr (map (\<lambda>c. PStr [c]) s)"
| "py_list (PBytes b) = Inr (map (\<lambda>c. PInt (of_char c)) b)"
| "py_list (PDict d) = Inr (map (\<lambda>(k, v). PStr k) d)"
| "py_list _ = Inl TypeError"

text \<open>\<open>[s for s in expected if s not in actual]\<close> is empty, for a non-empty \<open>expected\<close>.\<close>

definition all_listed :: "string list \<Rightarrow> string \<Rightarrow> pyval \<Rightarrow> bool result" where
  "all_listed expected field session =
     (if expected = [] then Inr True
      else rbind (py_get session field) (\<lambda>v.
           rbind (py_list (py_or v (PList []))) (\<lambda>actual.
             Inr (\<forall>s \<in> set expected. PStr s \<in> set actual))))"

definition payload_session :: "pyval \<Rightarrow> pyval result" where
  "payload_session m = (case m of
     PMsg t d (PDict c) \<Rightarrow> rbind (py_get (PDict c) ''session'') (\<lambda>v. Inr (py_or v (PDict [])))
   | _ \<Rightarrow> Inr (PDict []))"

text \<open>\<open>None\<close> for an expectation is the empty list: both are falsy.\<close>

definition assert_session_blacklists_injected ::
    "string \<Rightarrow> string list \<Rightarrow> string list \<Rightarrow> string option \<Rightarrow> records \<Rightarrow> unit result" where
  "assert_session_blacklists_injected mt skills intents pr master_rs =
     (case pr of
        None \<Rightarrow> Inl AssertionError
      | Some p \<Rightarrow>
          (case last_opt (injections mt (Some p) master_rs) of
             None \<Rightarrow> Inl AssertionError
           | Some r \<Rightarrow>
               rbind (payload_session (payload r)) (\<lambda>session.
               rbind (all_listed skills ''blacklisted_skills'' session) (\<lambda>a.
               rbind (all_listed intents ''blacklisted_intents'' session) (\<lambda>b.
                 require (a \<and> b))))))"

section \<open>Helpers that wait\<close>

definition since_mark :: "int option \<Rightarrow> records \<Rightarrow> records" where
  "since_mark since rs = (case since of None \<Rightarrow> rs | Some t \<Rightarrow> filter (\<lambda>r. t \<le> timestamp r) rs)"

definition query_answer_types :: "string list" where
  "query_answer_types = [''speak'', ''hive.query.complete'', ''hive.query.timeout'']"

text \<open>An inner \<open>type\<close> that is a list or a dictionary, on which the source's set lookup raises, counts as
  no answer here; the wire format has a string there.\<close>

definition is_answer :: "recorded_message \<Rightarrow> bool" where
  "is_answer r \<longleftrightarrow> direction r = ''in'' \<and> msg_type r = hive_value QUERY \<and>
     (case payload r of
        PDict d \<Rightarrow> (case dget d ''payload'' of
            Some (PDict b) \<Rightarrow> (\<exists>t \<in> set query_answer_types. dget b ''type'' = Some (PStr t))
          | _ \<Rightarrow> False)
      | _ \<Rightarrow> False)"

definition query_answers :: "int option \<Rightarrow> records \<Rightarrow> records" where
  "query_answers since rs = filter is_answer (since_mark since rs)"

text \<open>\<open>None\<close>: the call has not returned after these readings.\<close>

definition assert_query_routed ::
    "nat \<Rightarrow> int option \<Rightarrow> int \<Rightarrow> records \<Rightarrow> (int \<times> records) list \<Rightarrow> unit result option" where
  "assert_query_routed n since deadline master_rs polls =
     (if length (since_mark since (find_records (hive_value QUERY) (Some ''in'') master_rs)) \<noteq> n
      then Some (Inl AssertionError)
      else map_option require
             (poll_until (\<lambda>rs. n \<le> length (query_answers since rs)) deadline polls))"

fun flood_id :: "pyval \<Rightarrow> pyval" where
  "flood_id (PDict d) = (case dget d ''flood_id'' of
     Some v \<Rightarrow> v
   | None \<Rightarrow> (case dget d ''payload'' of
       Some (PDict e) \<Rightarrow> (case dget e ''flood_id'' of Some v \<Rightarrow> v | None \<Rightarrow> PNone)
     | _ \<Rightarrow> PNone))"
| "flood_id _ = PNone"

definition pings :: "string \<Rightarrow> int option \<Rightarrow> records \<Rightarrow> records" where
  "pings dir since rs = since_mark since (filter (\<lambda>r. direction r = dir \<and>
     (msg_type r = hive_value PING \<or> msg_type r = hive_value PROPAGATE)) rs)"

definition ping_responses :: "int option \<Rightarrow> pyval \<Rightarrow> records \<Rightarrow> records" where
  "ping_responses since fid rs =
     (if fid = PNone then pings ''in'' since rs
      else filter (\<lambda>r. py_eq (flood_id (payload r)) fid) (pings ''in'' since rs))"

definition assert_ping_responded ::
    "int option \<Rightarrow> int \<Rightarrow> records \<Rightarrow> records \<Rightarrow> (int \<times> records) list \<Rightarrow> unit result option" where
  "assert_ping_responded since deadline sat_rs master_rs polls =
     (case pings ''out'' since sat_rs of
        [] \<Rightarrow> Some (Inl AssertionError)
      | r # _ \<Rightarrow>
          (if pings ''in'' since master_rs = [] then Some (Inl AssertionError)
           else map_option require
             (poll_until (\<lambda>rs. ping_responses since (flood_id (payload r)) rs \<noteq> []) deadline polls)))"

text \<open>The verdict of \<open>assert_message_routed\<close> on the snapshot taken after its wait.\<close>

definition assert_message_routed :: "string \<Rightarrow> nat \<Rightarrow> string option \<Rightarrow> records \<Rightarrow> unit result" where
  "assert_message_routed mt n dir rs =
     (let ms = (case dir of Some (c # d) \<Rightarrow> filter (\<lambda>r. direction r = c # d) rs | _ \<Rightarrow> rs) in
      require (length (filter (\<lambda>r. msg_type r = mt) ms) = n))"

text \<open>The whole helper: it polls until the count is reached or the timeout is over, then judges a snapshot
  taken afterwards. \<open>None\<close> while it still waits.\<close>

definition message_routed_wait ::
    "string \<Rightarrow> nat \<Rightarrow> string option \<Rightarrow> int \<Rightarrow> (int \<times> records) list \<Rightarrow> records \<Rightarrow> unit result option" where
  "message_routed_wait mt n dir deadline polls final =
     map_option (\<lambda>_. assert_message_routed mt n dir final)
       (poll_until (\<lambda>rs. n \<le> length (find_all mt dir rs)) deadline polls)"

definition assert_message_received_by :: "string \<Rightarrow> nat \<Rightarrow> records \<Rightarrow> unit result" where
  "assert_message_received_by mt n rs = assert_message_routed mt n (Some ''in'') rs"

definition assert_message_sent_by :: "string \<Rightarrow> nat \<Rightarrow> records \<Rightarrow> unit result" where
  "assert_message_sent_by mt n rs = assert_message_routed mt n (Some ''out'') rs"

section \<open>Lemmas\<close>

text \<open>The type a denial reports.\<close>

definition reported_type :: "(string \<times> pyval) list \<Rightarrow> pyval" where
  "reported_type e = (let f = \<lambda>k. (case dget e k of None \<Rightarrow> PNone | Some v \<Rightarrow> v) in
     py_or (py_or (f ''denied_type'') (f ''msg_type'')) (f ''type''))"

lemma policy_denied_iff: "is_policy_denied r \<longleftrightarrow>
    (\<exists>d. payload r = PDict d \<and> dget d ''type'' = Some (PStr ''hive.policy.denied''))"
  by (cases "payload r") (simp_all add: is_policy_denied_def inner_payload_def as_dict_def dict_simps)

lemma reported_nil [simp]: "reported_type [] = PNone"
  by (simp add: reported_type_def Let_def py_or_def dict_simps)

lemma denial_kind_dict:
  assumes "direction r = ''in''" and "msg_type r = hive_value BUS" and "payload r = PDict d"
    and "dget d ''type'' = Some (PStr ''hive.policy.denied'')"
    and "py_or (case dget d ''data'' of None \<Rightarrow> PNone | Some v \<Rightarrow> v) (PDict []) = PDict e"
  shows "denial_kind (Some t) r = Inr (if reported_type e = PNone then Untyped
    else if reported_type e = PStr t then Typed else No_Denial)"
proof -
  have "is_policy_denied r" using assms(3,4) by (auto simp: policy_denied_iff)
  moreover have "inner_payload r = PDict d" using assms(3) by (simp add: inner_payload_def as_dict_def)
  ultimately show ?thesis
    using assms(1,2,5) by (simp add: denial_kind_def Let_def reported_type_def)
qed

lemma denial_kind_Typed:
  "denial_kind (Some t) r = Inr Typed \<longleftrightarrow> direction r = ''in'' \<and> msg_type r = hive_value BUS
    \<and> (\<exists>d e. payload r = PDict d \<and> dget d ''type'' = Some (PStr ''hive.policy.denied'')
         \<and> dget d ''data'' = Some (PDict e) \<and> reported_type e = PStr t)"
proof (cases "direction r = ''in'' \<and> msg_type r = hive_value BUS \<and> is_policy_denied r")
  case False
  then show ?thesis by (auto simp: denial_kind_def policy_denied_iff)
next
  case True
  then obtain d where d: "direction r = ''in''" "msg_type r = hive_value BUS" "payload r = PDict d"
    "dget d ''type'' = Some (PStr ''hive.policy.denied'')"
    by (auto simp: policy_denied_iff)
  let ?v = "case dget d ''data'' of None \<Rightarrow> PNone | Some v \<Rightarrow> v"
  show ?thesis
  proof (cases "\<exists>e. py_or ?v (PDict []) = PDict e")
    case True
    then obtain e where e: "py_or ?v (PDict []) = PDict e" by blast
    then have "dget d ''data'' = Some (PDict e) \<or> e = [] \<and> (\<forall>e'. dget d ''data'' = Some (PDict e') \<longrightarrow> e' = [])"
      by (auto simp: py_or_def split: if_splits option.splits)
    with denial_kind_dict [OF d e, of t] d show ?thesis by auto
  next
    case False
    then have "\<forall>e'. dget d ''data'' \<noteq> Some (PDict e')" by (auto simp: py_or_def split: if_splits)
    moreover have "py_get (py_or ?v (PDict [])) k = Inl AttributeError" for k
      using False by (cases "py_or ?v (PDict [])") auto
    then have "denial_kind (Some t) r \<noteq> Inr Typed"
      using True d by (simp add: denial_kind_def inner_payload_def as_dict_def Let_def)
    ultimately show ?thesis using d by auto
  qed
qed

lemma denied_records_strict:
  assumes "denied_records (Some t) strict rs = Inr ds"
  defines "typed \<equiv> filter (\<lambda>r. denial_kind (Some t) r = Inr Typed) rs"
  shows "t \<notin> hive_value ` set hive_types
    \<and> ds = (if typed \<noteq> [] \<or> strict then typed else filter (\<lambda>r. denial_kind (Some t) r = Inr Untyped) rs)"
proof -
  obtain ks where ks: "rmap (denial_kind (Some t)) rs = Inr ks"
    using assms(1) by (cases "rmap (denial_kind (Some t)) rs") (auto simp: denied_records_def split: if_splits)
  then have "map snd (filter (\<lambda>(k, r). k = K) (zip ks rs)) = filter (\<lambda>r. denial_kind (Some t) r = Inr K) rs" for K
    unfolding rmap_Inr by (induction rule: list_all2_induct) auto
  moreover from this have "filter (\<lambda>(k, r). k = Typed) (zip ks rs) = [] \<longleftrightarrow> typed = []"
    unfolding typed_def by (metis list.map_disc_iff)
  ultimately show ?thesis
    using ks assms(1) unfolding typed_def by (auto simp: denied_records_def Let_def split: if_splits)
qed

section \<open>Properties\<close>

definition denial_record :: "pyval \<Rightarrow> recorded_message" where
  "denial_record dat = mk_record ''in'' ''bus''
     (PDict [(''type'', PStr ''hive.policy.denied''), (''data'', dat)]) ''hub'' 0"

text \<open>A typed denial lookup returns only denials of that type. In strict mode the records
  found are exactly the inbound BUS records whose payload is a \<open>hive.policy.denied\<close> message that
  reports the type asked for; without strict mode anything else is returned only when there is
  no such record; and asking for an envelope type raises instead of never matching.\<close>

theorem denied_records_exact:
  assumes "denied_records (Some t) strict rs = Inr ds"
  defines "hit \<equiv> \<lambda>r. r \<in> set rs \<and> direction r = ''in'' \<and> msg_type r = ''bus''
    \<and> (\<exists>d e. payload r = PDict d \<and> dget d ''type'' = Some (PStr ''hive.policy.denied'')
         \<and> dget d ''data'' = Some (PDict e) \<and> reported_type e = PStr t)"
  shows "(strict \<longrightarrow> (\<forall>r. r \<in> set ds \<longleftrightarrow> hit r)) \<and> ((\<exists>r. hit r) \<longrightarrow> (\<forall>r. r \<in> set ds \<longleftrightarrow> hit r))
    \<and> t \<notin> hive_value ` set hive_types"
proof -
  have "hit r \<longleftrightarrow> r \<in> set (filter (\<lambda>r. denial_kind (Some t) r = Inr Typed) rs)" for r
    by (auto simp: hit_def denial_kind_Typed)
  with denied_records_strict [OF assms(1)] show ?thesis by (auto simp: filter_empty_conv)
qed

theorem denied_records_exact_witness:
  "\<exists>ds. denied_records (Some ''speak'') False
      [denial_record (PDict []), denial_record (PDict [(''denied_type'', PStr ''speak'')])] = Inr ds
    \<and> denial_record (PDict []) \<notin> set ds"
proof -
  let ?rs = "[denial_record (PDict []), denial_record (PDict [(''denied_type'', PStr ''speak'')])]"
  have ds: "denied_records (Some ''speak'') False ?rs
      = Inr [denial_record (PDict [(''denied_type'', PStr ''speak'')])]"
    by code_simp
  have "dget [(''denied_type'', PStr ''speak'')] ''denied_type'' = Some (PStr ''speak'')"
    by (simp add: dget_def)
  then have "denial_record (PDict []) \<notin> set [denial_record (PDict [(''denied_type'', PStr ''speak'')])]"
    using denied_records_exact [OF ds] by (auto simp: denial_record_def mk_record_def)
  with ds show ?thesis by blast
qed

text \<open>The two verdicts on admission exclude each other: on the same records a message type
  cannot be asserted both allowed and denied. Allowed means that a bus injection of the type from
  this satellite is on record and no denial of it; denied looks at the denials alone.\<close>

theorem acl_verdicts_exclude_each_other:
  assumes "assert_acl_enforced mt True strict (Some p) master_rs sat_rs = Inr ()"
  shows "assert_acl_enforced mt False strict q master_rs' sat_rs = Inl AssertionError
    \<and> assert_policy_denied mt code strict sat_rs = Inl AssertionError
    \<and> (\<exists>r \<in> set master_rs. direction r = ''bus_inject'' \<and> msg_type r = mt \<and> peer r = p)"
proof -
  have d: "denied_records (Some mt) strict sat_rs = Inr []" and "injections mt (Some p) master_rs \<noteq> []"
    using assms by (auto simp: assert_acl_enforced_def)
  then have "\<exists>r \<in> set master_rs. direction r = ''bus_inject'' \<and> msg_type r = mt \<and> peer r = p"
    by (auto simp: injections_def filter_empty_conv)
  with d show ?thesis by (simp add: assert_acl_enforced_def assert_policy_denied_def require_def)
qed

theorem acl_verdicts_exclude_each_other_witness:
  "assert_acl_enforced ''speak'' False True None [] [] = Inl AssertionError"
proof -
  have "assert_acl_enforced ''speak'' True True (Some ''sat'')
      [mk_record ''bus_inject'' ''speak'' PNone ''sat'' 0] [] = Inr ()"
    by (simp add: assert_acl_enforced_def denied_records_def hive_types_def injections_def mk_record_def
        require_def)
  from acl_verdicts_exclude_each_other [OF this] show ?thesis by blast
qed

text \<open>The denied verdict holds whatever was injected, although its documentation says that it
  also verifies that the message never reached the bus.\<close>

theorem acl_denied_ignores_injections:
  "assert_acl_enforced mt False strict pr master_rs sat_rs = assert_acl_enforced mt False strict pr' master_rs' sat_rs"
  by (simp add: assert_acl_enforced_def)

text \<open>A loose lookup accepts a denial whose \<open>data\<close> is \<open>None\<close>; asking for its code then raises an
  \<open>AttributeError\<close> instead of failing the assertion.\<close>

theorem denial_without_data_crashes:
  "assert_policy_denied ''speak'' (Some k) False [denial_record PNone] = Inl AttributeError"
  by (simp add: assert_policy_denied_def denied_records_def denial_record_def denial_kind_def mk_record_def
      is_policy_denied_def inner_payload_def as_dict_def dget_def py_or_def hive_types_def Let_def require_def)

text \<open>Waiting for query answers decides correctly. Once a reading of the clock has reached the
  deadline the call has returned; it passes exactly when the master recorded the requests and
  some reading, with only readings before the deadline in front of it, held enough answers; an
  answer is an inbound QUERY record at or after the mark that carries one of the answer types.\<close>

theorem query_wait_decides:
  assumes "\<exists>(t, rs) \<in> set polls. deadline \<le> t"
  shows "\<exists>r. assert_query_routed n since deadline master_rs polls = Some r
    \<and> (r = Inr () \<longleftrightarrow>
        length (since_mark since (find_records (hive_value QUERY) (Some ''in'') master_rs)) = n
        \<and> (\<exists>before t rs after. polls = before @ (t, rs) # after \<and> (\<forall>(u, qs) \<in> set before. u < deadline)
             \<and> n \<le> length (query_answers since rs)))"
proof -
  obtain b where b: "poll_until (\<lambda>rs. n \<le> length (query_answers since rs)) deadline polls = Some b"
    using poll_until_decides [OF assms] by blast
  moreover have "b \<longleftrightarrow> (\<exists>before t rs after. polls = before @ (t, rs) # after
      \<and> (\<forall>(u, qs) \<in> set before. u < deadline) \<and> n \<le> length (query_answers since rs))"
    using b poll_until_True [of "\<lambda>rs. n \<le> length (query_answers since rs)" deadline polls] by auto
  ultimately show ?thesis by (auto simp: assert_query_routed_def require_def)
qed

theorem query_wait_decides_witness:
  "\<exists>r. assert_query_routed 1 None 5 [] [(0, []), (7, [])] = Some r \<and> r \<noteq> Inr ()"
  using query_wait_decides [of "[(0, []), (7, [])]" 5 1 None "[]"]
  by (auto simp: since_mark_def find_records_def)

text \<open>The wait of \<open>assert_message_routed\<close> ends by its deadline, and at once when no message is expected; what
  counts is the snapshot after it: the call passes exactly when that holds exactly \<open>n\<close> records of the type and
  direction, so a message too many fails like a message too few.\<close>

theorem message_routed_wait_exact:
  assumes "dir \<noteq> Some []"
  shows "((\<exists>(t, rs) \<in> set polls. deadline \<le> t) \<or> n = 0 \<and> polls \<noteq> [] \<longrightarrow>
      (\<exists>r. message_routed_wait mt n dir deadline polls final = Some r))
    \<and> (\<forall>r. message_routed_wait mt n dir deadline polls final = Some r \<longrightarrow>
        (r = Inr () \<longleftrightarrow> length (find_all mt dir final) = n) \<and> (r = Inr () \<or> r = Inl AssertionError))"
proof -
  have "length (filter (\<lambda>r. msg_type r = mt) (case dir of Some (c # d) \<Rightarrow> filter (\<lambda>r. direction r = c # d) final | _ \<Rightarrow> final))
      = length (find_all mt dir final)"
    using assms by (auto simp: find_all_def rec_matches_def [abs_def] eq_commute intro!: arg_cong [where f = length]
        filter_cong split: option.splits list.splits)
  then have verdict: "assert_message_routed mt n dir final = require (length (find_all mt dir final) = n)"
    by (simp add: assert_message_routed_def)
  have "poll_until (\<lambda>rs. n \<le> length (find_all mt dir rs)) deadline polls \<noteq> None"
    if "(\<exists>(t, rs) \<in> set polls. deadline \<le> t) \<or> n = 0 \<and> polls \<noteq> []"
    using that unfolding poll_until_None by (cases polls) fastforce+
  then show ?thesis by (auto simp: message_routed_wait_def verdict require_def)
qed

text \<open>The documentation also offers the name of a type, \<open>BUS\<close> for \<open>bus\<close>; records carry values, so a name
  matches none of them, and such an assertion fails unless it expects nothing.\<close>

theorem type_name_never_routed:
  assumes "\<forall>r \<in> set rs. \<exists>t. msg_type r = hive_value t"
  shows "assert_message_routed ''BUS'' n dir rs = require (n = 0)"
proof -
  have "hive_value t \<noteq> ''BUS''" for t by (cases t) simp_all
  with assms have "\<forall>r \<in> set rs. msg_type r \<noteq> ''BUS''" by metis
  then have "filter (\<lambda>r. msg_type r = ''BUS'') (filter P rs) = []" for P by (auto simp: filter_empty_conv)
  from this [of "\<lambda>_. True"] this show ?thesis
    by (auto simp: assert_message_routed_def split: option.split list.split)
qed

end
