(* ===== verification/Py_Text.thy ===== *)
theory Py_Text
  imports Hive_Prelude
begin

text \<open>
  Python's string and path operations as the source uses them: \<open>strip\<close>, \<open>lower\<close>, \<open>endswith\<close>, \<open>split\<close>,
  and \<open>os.path.join\<close>, \<open>normpath\<close>, \<open>abspath\<close> of a POSIX system. Strings are sequences of the characters
  below code point 256.
\<close>

section \<open>Strings\<close>

text \<open>The whitespace that \<open>str.strip\<close> removes, and lower-casing. A letter outside ASCII never
  becomes an ASCII one, and the source compares with ASCII words only.\<close>

definition is_space :: "char \<Rightarrow> bool" where
  "is_space c \<longleftrightarrow> (let n = of_char c :: nat in 9 \<le> n \<and> n \<le> 13 \<or> 28 \<le> n \<and> n \<le> 32 \<or> n = 133 \<or> n = 160)"

definition strip :: "string \<Rightarrow> string" where
  "strip s = rev (dropWhile is_space (rev (dropWhile is_space s)))"

definition lower :: "string \<Rightarrow> string" where
  "lower s = map (\<lambda>c. let n = of_char c :: nat in if 65 \<le> n \<and> n \<le> 90 then char_of (n + 32) else c) s"

definition ends_with :: "string \<Rightarrow> string \<Rightarrow> bool" where
  "ends_with suf s \<longleftrightarrow> length suf \<le> length s \<and> drop (length s - length suf) s = suf"

lemma ends_with_append: "ends_with suf s \<longleftrightarrow> (\<exists>p. s = p @ suf)"
proof
  assume "ends_with suf s"
  then have "s = take (length s - length suf) s @ suf"
    unfolding ends_with_def by (metis append_take_drop_id)
  then show "\<exists>p. s = p @ suf" by blast
qed (auto simp: ends_with_def)

text \<open>\<open>s[:-n]\<close> of a string with at least \<open>n\<close> characters.\<close>

definition drop_last :: "nat \<Rightarrow> string \<Rightarrow> string" where
  "drop_last n s = take (length s - n) s"

lemma drop_last_append [simp]: "n = length t \<Longrightarrow> drop_last n (s @ t) = s"
  by (simp add: drop_last_def)

text \<open>\<open>s.split(c)\<close> and \<open>c.join(xs)\<close>.\<close>

fun split_on :: "char \<Rightarrow> string \<Rightarrow> string list" where
  "split_on c [] = [[]]"
| "split_on c (x # xs) =
     (if x = c then [] # split_on c xs
      else case split_on c xs of [] \<Rightarrow> [[x]] | y # ys \<Rightarrow> (x # y) # ys)"

fun join_on :: "char \<Rightarrow> string list \<Rightarrow> string" where
  "join_on c [] = []"
| "join_on c [x] = x"
| "join_on c (x # y # ys) = x @ c # join_on c (y # ys)"

text \<open>\<open>s.split(c, 1)\<close>: the parts before and after the first \<open>c\<close>.\<close>

fun split_once :: "char \<Rightarrow> string \<Rightarrow> (string \<times> string) option" where
  "split_once c [] = None"
| "split_once c (x # xs) =
     (if x = c then Some ([], xs)
      else case split_once c xs of None \<Rightarrow> None | Some (a, b) \<Rightarrow> Some (x # a, b))"

lemma split_once_append: "c \<notin> set a \<Longrightarrow> split_once c (a @ c # b) = Some (a, b)"
  by (induction a) auto

lemma split_once_SomeD: "split_once c s = Some (a, b) \<Longrightarrow> s = a @ c # b \<and> c \<notin> set a"
  by (induction s arbitrary: a) (auto split: if_splits option.splits)

lemma split_once_None: "split_once c s = None \<longleftrightarrow> c \<notin> set s"
  by (induction s) (auto split: option.splits)

lemma split_on_ne [simp]: "split_on c s \<noteq> []"
  by (induction s) (auto split: list.split)

lemma split_on_one: "c \<notin> set s \<Longrightarrow> split_on c s = [s]"
  by (induction s) auto

lemma split_on_cons: "c \<notin> set a \<Longrightarrow> split_on c (a @ c # s) = a # split_on c s"
  by (induction a) auto

lemma split_on_append: "split_on c (s @ c # t) = split_on c s @ split_on c t"
proof (induction s)
  case (Cons x s)
  then show ?case by (cases "split_on c s") auto
qed simp

lemma join_on_snoc: "xs \<noteq> [] \<Longrightarrow> join_on c (xs @ [x]) = join_on c xs @ c # x"
  by (induction xs rule: join_on.induct) auto

section \<open>Paths\<close>

definition path_join :: "string \<Rightarrow> string \<Rightarrow> string" where
  "path_join a b =
     (if b \<noteq> [] \<and> hd b = CHR ''/'' then b
      else if a = [] \<or> last a = CHR ''/'' then a @ b
      else a @ ''/'' @ b)"

text \<open>The loop of \<open>normpath\<close>: \<open>n\<close> initial slashes, the components kept so far.\<close>

definition norm_comp :: "nat \<Rightarrow> string \<Rightarrow> string list \<Rightarrow> string list" where
  "norm_comp n part kept =
     (if part = [] \<or> part = ''.'' then kept
      else if part \<noteq> ''..'' \<or> (n = 0 \<and> kept = []) \<or> (kept \<noteq> [] \<and> last kept = ''..'') then kept @ [part]
      else butlast kept)"

definition initial_slashes :: "string \<Rightarrow> nat" where
  "initial_slashes p =
     (case takeWhile (\<lambda>c. c = CHR ''/'') p of [] \<Rightarrow> 0 | [_, _] \<Rightarrow> 2 | _ \<Rightarrow> 1)"

definition normpath :: "string \<Rightarrow> string" where
  "normpath p =
     (if p = [] then ''.''
      else let n = initial_slashes p;
               q = replicate n (CHR ''/'') @ join_on (CHR ''/'') (fold (norm_comp n) (split_on (CHR ''/'') p) [])
           in if q = [] then ''.'' else q)"

definition abspath :: "string \<Rightarrow> string \<Rightarrow> string" where
  "abspath cwd p = normpath (if p \<noteq> [] \<and> hd p = CHR ''/'' then p else path_join cwd p)"

text \<open>An absolute path stays absolute, and a last component that is an ordinary name stays last.\<close>

lemma initial_slashes_pos: "p \<noteq> [] \<Longrightarrow> hd p = CHR ''/'' \<Longrightarrow> 0 < initial_slashes p"
  by (cases p) (auto simp: initial_slashes_def split: list.split)

lemma normpath_absolute:
  assumes "p \<noteq> []" and "hd p = CHR ''/''"
  shows "normpath p \<noteq> [] \<and> hd (normpath p) = CHR ''/''"
proof -
  obtain k where "initial_slashes p = Suc k" using initial_slashes_pos [OF assms] gr0_implies_Suc by blast
  with assms(1) show ?thesis by (simp add: normpath_def Let_def)
qed

lemma abspath_absolute:
  assumes "cwd \<noteq> []" and "hd cwd = CHR ''/''"
  shows "abspath cwd p \<noteq> [] \<and> hd (abspath cwd p) = CHR ''/''"
  using assms unfolding abspath_def by (intro normpath_absolute) (auto simp: path_join_def)

definition plain_name :: "string \<Rightarrow> bool" where
  "plain_name s \<longleftrightarrow> CHR ''/'' \<notin> set s \<and> s \<noteq> [] \<and> s \<noteq> ''.'' \<and> s \<noteq> ''..''"

lemma last_component: "\<exists>pre x. s = pre @ x \<and> CHR ''/'' \<notin> set x \<and> (pre = [] \<or> last pre = CHR ''/'')"
proof (induction s rule: rev_induct)
  case (snoc c s)
  then obtain pre x where s: "s = pre @ x" "CHR ''/'' \<notin> set x" "pre = [] \<or> last pre = CHR ''/''" by blast
  show ?case
  proof (cases "c = CHR ''/''")
    case True
    then show ?thesis by (intro exI [of _ "s @ [c]"] exI [of _ "[]"]) simp
  next
    case False
    with s show ?thesis by (intro exI [of _ pre] exI [of _ "x @ [c]"]) auto
  qed
qed simp

lemma normpath_keeps_name:
  assumes "plain_name x" and "pre = [] \<or> last pre = CHR ''/''"
  shows "ends_with x (normpath (pre @ x))"
proof -
  let ?n = "initial_slashes (pre @ x)"
  obtain cs where cs: "split_on (CHR ''/'') (pre @ x) = cs @ [x]"
  proof (cases "pre = []")
    case True
    with assms that [of "[]"] show ?thesis by (simp add: split_on_one plain_name_def)
  next
    case False
    with assms(2) obtain q where "pre = q @ [CHR ''/'']" by (metis append_butlast_last_id)
    with assms(1) that [of "split_on (CHR ''/'') q"] show ?thesis
      by (simp add: split_on_append split_on_one plain_name_def)
  qed
  let ?kept = "fold (norm_comp ?n) cs []"
  have kept: "norm_comp ?n x k = k @ [x]" for k
    using assms(1) by (simp add: norm_comp_def plain_name_def)
  have "ends_with x (join_on (CHR ''/'') (?kept @ [x]))"
    unfolding ends_with_append by (cases "?kept = []") (auto simp: join_on_snoc intro: exI [of _ "_ @ [_]"])
  then obtain q where "join_on (CHR ''/'') (?kept @ [x]) = q @ x" unfolding ends_with_append by blast
  then have "normpath (pre @ x) = replicate ?n (CHR ''/'') @ q @ x"
    using assms(1) by (simp add: normpath_def cs kept Let_def plain_name_def)
  then show ?thesis unfolding ends_with_append by (metis append_assoc)
qed

text \<open>A suffix without a slash that makes the last component ordinary survives \<open>abspath\<close>.\<close>

lemma abspath_suffix:
  assumes "CHR ''/'' \<notin> set suf" and "2 < length suf"
  shows "ends_with suf (abspath cwd (p @ suf))"
proof -
  have *: "ends_with suf (normpath (q @ suf))" for q
  proof -
    obtain pre x where q: "q = pre @ x" "CHR ''/'' \<notin> set x" "pre = [] \<or> last pre = CHR ''/''"
      using last_component by blast
    have "2 < length (x @ suf)" using assms(2) by simp
    then have "x @ suf \<noteq> []" "x @ suf \<noteq> ''.''" "x @ suf \<noteq> ''..''" by fastforce+
    with q(2) assms(1) have "plain_name (x @ suf)" by (simp add: plain_name_def)
    from normpath_keeps_name [OF this q(3)] show ?thesis
      unfolding q(1) ends_with_append by (metis append_assoc)
  qed
  have "\<exists>q. path_join cwd (p @ suf) = q @ suf" unfolding path_join_def by auto
  with * show ?thesis unfolding abspath_def by auto
qed

end
