(* ===== verification/Bridge_Assertions.thy ===== *)
theory Bridge_Assertions
  imports Delivery_Assertions Py_Text
begin

text \<open>
  The bridge-conformance helpers of \<open>hivescope/assertions.py\<close> (its second half): envelopes,
  source stamping, destination routing, session fidelity and ordering, read off the
  \<open>bus_inject\<close> records of a master or the inbound records of a satellite. A satellite appears as
  its \<open>peer\<close>; \<open>recv\<close> is what \<open>wait_for\<close> returned.
\<close>

section \<open>Reading injected messages\<close>

text \<open>\<open>getattr(msg, "context", {}) or {}\<close>, and likewise for \<open>data\<close>.\<close>

definition payload_context :: "pyval \<Rightarrow> pyval" where
  "payload_context p = py_or (msg_context p) (PDict [])"

definition payload_data :: "pyval \<Rightarrow> pyval" where
  "payload_data p = py_or (msg_data p) (PDict [])"

definition session_of :: "pyval \<Rightarrow> pyval result" where
  "session_of p = rbind (py_get (payload_context p) ''session'') (\<lambda>v. Inr (py_or v (PDict [])))"

definition from_peer :: "string option \<Rightarrow> records \<Rightarrow> records" where
  "from_peer pr rs = filter (\<lambda>r. direction r = ''bus_inject'' \<and> Some (peer r) = pr) rs"

text \<open>Every expected field is present in the session and equal.\<close>

definition fields_match ::
    "(string \<Rightarrow> pyval \<Rightarrow> pyval \<Rightarrow> bool) \<Rightarrow> (string, pyval) pydict \<Rightarrow> pyval \<Rightarrow> bool result" where
  "fields_match same expected session =
     rbind (rmap (\<lambda>(k, v). rbind (py_get session k) (\<lambda>a. Inr (same k a v))) expected)
       (\<lambda>bs. Inr (\<forall>b \<in> set bs. b))"

section \<open>Envelope and source\<close>

definition msg1_ok :: "pyval \<Rightarrow> bool" where
  "msg1_ok p \<longleftrightarrow> (case p of PMsg t d c \<Rightarrow> t \<noteq> [] \<and> is_dict c | _ \<Rightarrow> False)"

definition assert_msg1_envelope :: "string \<Rightarrow> nat \<Rightarrow> records \<Rightarrow> unit result" where
  "assert_msg1_envelope mt n rs =
     (let inj = injections mt None rs in
      require (n \<le> length inj \<and> (\<forall>r \<in> set inj. msg1_ok (payload r))))"

fun hashable :: "pyval \<Rightarrow> bool" where
  "hashable (PList xs) = False"
| "hashable (PDict d) = False"
| "hashable _ = True"

text \<open>\<open>context.source\<close> of a record; a set of sources takes hashable values only.\<close>

definition source_of :: "recorded_message \<Rightarrow> pyval result" where
  "source_of r = py_get (payload_context (payload r)) ''source''"

definition own_source :: "recorded_message \<Rightarrow> pyval result" where
  "own_source r = rbind (source_of r) (\<lambda>v.
     if truthy v \<and> \<not> hashable v then Inl TypeError else Inr v)"

fun source_clash :: "pyval \<Rightarrow> records \<Rightarrow> bool result" where
  "source_clash mine [] = Inr False"
| "source_clash mine (r # rs) = rbind (source_of r) (\<lambda>v.
     if truthy v \<and> py_eq v mine then Inr True else source_clash mine rs)"

definition assert_source_stamped :: "string option \<Rightarrow> string option list \<Rightarrow> records \<Rightarrow> unit result" where
  "assert_source_stamped pr others rs =
     (case from_peer pr rs of
        [] \<Rightarrow> Inl AssertionError
      | r # mine \<Rightarrow>
          rbind (rmap own_source (r # mine)) (\<lambda>vs.
          rbind (require ((\<forall>v \<in> set vs. truthy v) \<and> (\<forall>v \<in> set vs. py_eq (hd vs) v))) (\<lambda>_.
          rbind (rmap (\<lambda>other. source_clash (hd vs) (from_peer other rs)) others) (\<lambda>bs.
            require (\<forall>b \<in> set bs. \<not> b)))))"

section \<open>Destination\<close>

definition assert_destination_routed ::
    "recorded_message option \<Rightarrow> records list \<Rightarrow> string \<Rightarrow> int \<Rightarrow> int option \<Rightarrow> unit result" where
  "assert_destination_routed recv others mt window since =
     (case recv of
        None \<Rightarrow> Inl AssertionError
      | Some r \<Rightarrow>
          (let start = (case since of Some t \<Rightarrow> t | None \<Rightarrow> timestamp r - max window 0) in
           require (\<forall>rs \<in> set others. \<not> (\<exists>q \<in> set rs. direction q = ''in'' \<and> msg_type q = mt
             \<and> start \<le> timestamp q))))"

section \<open>Sessions\<close>

definition assert_session_inbound_preserved ::
    "(string, pyval) pydict \<Rightarrow> string option \<Rightarrow> records \<Rightarrow> unit result" where
  "assert_session_inbound_preserved expected pr rs =
     (if ''session_id'' \<in> set (dkeys expected) then Inl ValueError
      else case last_opt (from_peer pr rs) of
             None \<Rightarrow> Inl AssertionError
           | Some r \<Rightarrow> rbind (session_of (payload r)) (\<lambda>s.
               rbind (fields_match (\<lambda>_. py_eq) expected s) (\<lambda>b. require b)))"

text \<open>\<open>namespace\<close> gives the \<open>session_namespace\<close> that hivemind-core keeps for a connection.\<close>

definition assert_session_id_natted ::
    "string \<Rightarrow> bool \<Rightarrow> (nat \<Rightarrow> string) \<Rightarrow> (string, nat) pydict \<Rightarrow> string option \<Rightarrow> records \<Rightarrow> unit result" where
  "assert_session_id_natted declared admin namespace clients pr rs =
     (case pr of
        None \<Rightarrow> Inl AssertionError
      | Some p \<Rightarrow>
          (case last_opt (from_peer pr rs) of
             None \<Rightarrow> Inl AssertionError
           | Some r \<Rightarrow>
               rbind (session_of (payload r)) (\<lambda>s.
               rbind (py_get s ''session_id'') (\<lambda>actual.
                 if admin then require (py_eq actual (PStr declared))
                 else case dget clients p of
                        None \<Rightarrow> Inl AssertionError
                      | Some c \<Rightarrow> require (py_eq actual (PStr (namespace c @ '':'' @ declared)))))))"

text \<open>\<open>(session.get("session_id") or "")\<close>, on which \<open>endswith\<close> needs a string.\<close>

definition layer1_id :: "recorded_message \<Rightarrow> string result" where
  "layer1_id r = rbind (session_of (payload r)) (\<lambda>s. rbind (py_get s ''session_id'') (\<lambda>v.
     case py_or v (PStr []) of PStr i \<Rightarrow> Inr i | _ \<Rightarrow> Inl AttributeError))"

text \<open>The first record whose id ends in \<open>:declared\<close>.\<close>

fun first_suffix :: "string \<Rightarrow> records \<Rightarrow> string option result" where
  "first_suffix suf [] = Inr None"
| "first_suffix suf (r # rs) = rbind (layer1_id r) (\<lambda>i.
     if ends_with suf i then Inr (Some i) else first_suffix suf rs)"

fun layer1_ids ::
    "records \<Rightarrow> string list \<Rightarrow> (string, string) pydict \<Rightarrow> (string, string) pydict result" where
  "layer1_ids rs [] acc = Inr acc"
| "layer1_ids rs (d # ds) acc = rbind (first_suffix ('':'' @ d) rs) (\<lambda>found. case found of
       None \<Rightarrow> Inl AssertionError
     | Some i \<Rightarrow> layer1_ids rs ds (dset d i acc))"

definition nonce_prefix :: "string \<Rightarrow> string" where
  "nonce_prefix i = takeWhile (\<lambda>c. c \<noteq> CHR '':'') i"

definition assert_sessions_isolated :: "string list \<Rightarrow> string option \<Rightarrow> records \<Rightarrow> unit result" where
  "assert_sessions_isolated declared pr rs =
     rbind (layer1_ids (from_peer pr rs) declared []) (\<lambda>found.
     rbind (require (card (set (dvals found)) = length declared)) (\<lambda>_.
       require (card (nonce_prefix ` set (dvals found)) = 1)))"

text \<open>\<open>_location_signature\<close> reads a location through the library's \<open>Session\<close>: \<open>sig\<close>.\<close>

definition assert_session_contents_merged_over_baseline ::
    "(pyval \<Rightarrow> pyval) \<Rightarrow> (string, pyval) pydict \<Rightarrow> string option \<Rightarrow> records \<Rightarrow> unit result" where
  "assert_session_contents_merged_over_baseline sig expected pr rs =
     (if ''session_id'' \<in> set (dkeys expected) then Inl ValueError
      else case last_opt (from_peer pr rs) of
             None \<Rightarrow> Inl AssertionError
           | Some r \<Rightarrow> rbind (session_of (payload r)) (\<lambda>s.
               rbind (fields_match (\<lambda>k a v. if k = ''location'' then py_eq (sig a) (sig v) else py_eq a v)
                        expected s) (\<lambda>b. require b)))"

text \<open>A key of a received payload that is a dictionary: \<open>payload.get(k) or {}\<close>.\<close>

definition received_context :: "recorded_message \<Rightarrow> pyval result" where
  "received_context r = rbind (py_get (as_dict (payload r)) ''context'') (\<lambda>v. Inr (py_or v (PDict [])))"

definition assert_session_outbound_preserved ::
    "(string, pyval) pydict \<Rightarrow> recorded_message option \<Rightarrow> unit result" where
  "assert_session_outbound_preserved expected recv =
     (case recv of
        None \<Rightarrow> Inl AssertionError
      | Some r \<Rightarrow>
          rbind (received_context r) (\<lambda>c.
          rbind (py_get c ''session'') (\<lambda>v.
          rbind (fields_match (\<lambda>_. py_eq) expected (py_or v (PDict []))) (\<lambda>b. require b))))"

definition assert_source_hidden :: "string \<Rightarrow> recorded_message option \<Rightarrow> unit result" where
  "assert_source_hidden generic recv =
     (case recv of
        None \<Rightarrow> Inl AssertionError
      | Some r \<Rightarrow>
          rbind (received_context r) (\<lambda>c.
          rbind (py_get c ''source'') (\<lambda>v. require (py_eq v (PStr generic)))))"

definition assert_session_propagated_unchanged ::
    "string \<Rightarrow> pyval \<Rightarrow> string option \<Rightarrow> records \<Rightarrow> unit result" where
  "assert_session_propagated_unchanged field value mt rs =
     (let found = filter (\<lambda>r. direction r = ''bus_inject''
                    \<and> (case mt of None \<Rightarrow> True | Some t \<Rightarrow> msg_type r = t)) rs in
      rbind (require (found \<noteq> [])) (\<lambda>_.
      rbind (rmap (\<lambda>r. rbind (session_of (payload r)) (\<lambda>s. py_get s field)) found) (\<lambda>vs.
        require (\<forall>v \<in> set vs. py_eq v value))))"

section \<open>Order\<close>

fun str_le :: "string \<Rightarrow> string \<Rightarrow> bool" where
  "str_le [] ys = True"
| "str_le (x # xs) [] = False"
| "str_le (x # xs) (y # ys) = (if x = y then str_le xs ys else (of_char x :: nat) < of_char y)"

text \<open>\<open>a <= b\<close>: numbers, strings, byte strings, and lists element by element; a comparison of other
  values raises \<open>TypeError\<close>.\<close>

fun num_of :: "pyval \<Rightarrow> int option" where
  "num_of (PInt i) = Some i"
| "num_of (PBool b) = Some (if b then 1 else 0)"
| "num_of _ = None"

fun py_le :: "pyval \<Rightarrow> pyval \<Rightarrow> bool result" where
  "py_le (PStr a) (PStr b) = Inr (str_le a b)"
| "py_le (PBytes a) (PBytes b) = Inr (str_le a b)"
| "py_le (PList []) (PList ys) = Inr True"
| "py_le (PList (x # xs)) (PList []) = Inr False"
| "py_le (PList (x # xs)) (PList (y # ys)) =
     (if py_eq x y then py_le (PList xs) (PList ys) else py_le x y)"
| "py_le a b = (case (num_of a, num_of b) of (Some i, Some j) \<Rightarrow> Inr (i \<le> j) | _ \<Rightarrow> Inl TypeError)"

text \<open>No element is \<open><=\<close> its predecessor; the first comparison that raises ends the loop.\<close>

fun increasing :: "pyval list \<Rightarrow> bool result" where
  "increasing (a # b # xs) = rbind (py_le b a) (\<lambda>bad. rbind (increasing (b # xs)) (\<lambda>ok. Inr (\<not> bad \<and> ok)))"
| "increasing xs = Inr True"

definition fifo_records :: "string \<Rightarrow> string option \<Rightarrow> records \<Rightarrow> records" where
  "fifo_records mt pr rs = filter (\<lambda>r. msg_type r = mt) (from_peer pr rs)"

definition fifo_seq :: "recorded_message \<Rightarrow> pyval result" where
  "fifo_seq r = py_get (payload_data (payload r)) ''_fifo_seq''"

text \<open>The verdict on the snapshot taken after the wait; \<open>[-count:]\<close> for \<open>count = 0\<close> is all of it.\<close>

definition fifo_verdict :: "string \<Rightarrow> nat \<Rightarrow> string option \<Rightarrow> records \<Rightarrow> unit result" where
  "fifo_verdict mt n pr rs =
     (let batch = slice_last n (fifo_records mt pr rs) in
      rbind (require (n \<le> length batch)) (\<lambda>_.
      rbind (rmap fifo_seq batch) (\<lambda>seqs.
        if \<forall>s \<in> set seqs. s \<noteq> PNone then rbind (increasing seqs) (\<lambda>ok. require ok)
        else Inl AssertionError)))"

definition assert_fifo_order ::
    "string \<Rightarrow> nat \<Rightarrow> string option \<Rightarrow> int \<Rightarrow> (int \<times> records) list \<Rightarrow> records \<Rightarrow> unit result option" where
  "assert_fifo_order mt n pr deadline polls final =
     map_option (\<lambda>_. fifo_verdict mt n pr final)
       (poll_until (\<lambda>rs. n \<le> length (fifo_records mt pr rs)) deadline polls)"

section \<open>Lemmas\<close>

lemma from_peer_set: "r \<in> set (from_peer pr rs)
    \<longleftrightarrow> r \<in> set rs \<and> direction r = ''bus_inject'' \<and> Some (peer r) = pr"
  by (auto simp: from_peer_def)

lemma increasing_ints: "increasing (map PInt is) = Inr (sorted_wrt (<) is)"
proof (induction "is" rule: induct_list012)
  case (3 i j js)
  then show ?case by (auto simp: not_le dest: order.strict_trans)
qed simp_all

lemma first_suffix_found:
  "first_suffix suf rs = Inr (Some i) \<Longrightarrow> \<exists>r \<in> set rs. layer1_id r = Inr i \<and> ends_with suf i"
  by (induction suf rs rule: first_suffix.induct) (auto split: if_splits)

lemma layer1_ids_look:
  assumes "layer1_ids rs ds acc = Inr found" and "dict_ok acc"
  shows "dict_ok found
    \<and> (\<forall>k \<in> set ds. \<exists>i. first_suffix (CHR '':'' # k) rs = Inr (Some i) \<and> dget found k = Some i)
    \<and> (\<forall>k. k \<notin> set ds \<longrightarrow> dget found k = dget acc k)"
  using assms
proof (induction rs ds acc rule: layer1_ids.induct)
  case (2 rs d ds acc)
  then obtain i where i: "first_suffix (CHR '':'' # d) rs = Inr (Some i)"
    and rest: "layer1_ids rs ds (dset d i acc) = Inr found"
    by (auto split: option.splits)
  have "dict_ok (dset d i acc)" using 2(3) by (rule pd.good_store)
  with 2(1) [of i] i rest have ih: "dict_ok found
    \<and> (\<forall>k \<in> set ds. \<exists>i. first_suffix (CHR '':'' # k) rs = Inr (Some i) \<and> dget found k = Some i)
    \<and> (\<forall>k. k \<notin> set ds \<longrightarrow> dget found k = dget (dset d i acc) k)" by simp
  with i show ?case by (cases "d \<in> set ds") (auto simp: pd.look_store)
qed simp

text \<open>The dictionary of the ids found, as a function of the declared id.\<close>

lemma layer1_ids_fun:
  assumes "layer1_ids rs ds [] = Inr found"
  obtains f where "set (dvals found) = f ` set ds"
    and "\<And>d. d \<in> set ds \<Longrightarrow> \<exists>r \<in> set rs. layer1_id r = Inr (f d) \<and> ends_with ('':'' @ d) (f d)"
proof
  let ?f = "\<lambda>d. the (dget found d)"
  note look = layer1_ids_look [OF assms pd.good_empty, unfolded pd.look_empty]
  have dom: "dget found k = Some v \<longleftrightarrow> k \<in> set ds \<and> v = ?f k" for k v
    using look by (cases "k \<in> set ds") auto
  show "set (dvals found) = ?f ` set ds"
    unfolding pd.vals_ran [OF look [THEN conjunct1]] using dom by auto
  fix d
  assume "d \<in> set ds"
  with look obtain i where "first_suffix ('':'' @ d) rs = Inr (Some i)" "dget found d = Some i" by auto
  then show "\<exists>r \<in> set rs. layer1_id r = Inr (?f d) \<and> ends_with ('':'' @ d) (?f d)"
    using first_suffix_found by fastforce
qed

section \<open>Properties\<close>

text \<open>C27: The FIFO verdict is exact. For a positive count and integer markers, it accepts exactly
  when at least that many records of the type arrived from the satellite and the markers of the
  latest such records strictly increase, so no reordering inside the batch is missed and none is
  invented.\<close>

theorem fifo_verdict_exact:
  assumes "0 < n"
    and "map fifo_seq (slice_last n (fifo_records mt pr rs)) = map Inr (map PInt ms)"
  shows "fifo_verdict mt n pr rs = Inr () \<longleftrightarrow> n \<le> length (fifo_records mt pr rs) \<and> sorted_wrt (<) ms"
  using slice_last_length [OF assms(1), of "fifo_records mt pr rs"] rmap_all [OF assms(2)] increasing_ints [of ms]
  by (auto simp: fifo_verdict_def Let_def)

theorem fifo_verdict_exact_witness:
  "fifo_verdict ''speak'' 2 (Some ''sat'')
     [mk_record ''bus_inject'' ''speak'' (PMsg ''speak'' (PDict [(''_fifo_seq'', PInt 9)]) PNone) ''sat'' 0,
      mk_record ''bus_inject'' ''speak'' (PMsg ''speak'' (PDict [(''_fifo_seq'', PInt 1)]) PNone) ''sat'' 0,
      mk_record ''bus_inject'' ''speak'' (PMsg ''speak'' (PDict [(''_fifo_seq'', PInt 2)]) PNone) ''sat'' 1]
   = Inr ()"
  (is "fifo_verdict _ _ _ ?rs = _")
proof -
  have "map fifo_seq (slice_last 2 (fifo_records ''speak'' (Some ''sat'') ?rs)) = map Inr (map PInt [1, 2])"
    by (simp add: fifo_records_def from_peer_def mk_record_def slice_last_def fifo_seq_def payload_data_def
        py_or_def dget_def)
  from fifo_verdict_exact [OF _ this] show ?thesis
    by (simp add: fifo_records_def from_peer_def mk_record_def)
qed

text \<open>C28: A passing isolation check is sound: the declared ids are pairwise different, each has an
  injected record of this satellite whose session id ends in \<open>:\<close> and the declared id, different
  declared ids were found on different session ids, and all of those share one prefix.\<close>

theorem sessions_isolated_sound:
  assumes "assert_sessions_isolated ds pr rs = Inr ()"
  shows "distinct ds \<and> (\<exists>f p. inj_on f (set ds) \<and> (\<forall>d \<in> set ds. nonce_prefix (f d) = p
    \<and> (\<exists>r \<in> set (from_peer pr rs). layer1_id r = Inr (f d) \<and> ends_with ('':'' @ d) (f d))))"
proof -
  from assms obtain found where found: "layer1_ids (from_peer pr rs) ds [] = Inr found"
    and n: "card (set (dvals found)) = length ds" and one: "card (nonce_prefix ` set (dvals found)) = 1"
    by (auto simp: assert_sessions_isolated_def)
  from layer1_ids_fun [OF found] obtain f where f: "set (dvals found) = f ` set ds"
    and rec: "\<And>d. d \<in> set ds \<Longrightarrow> \<exists>r \<in> set (from_peer pr rs). layer1_id r = Inr (f d) \<and> ends_with ('':'' @ d) (f d)"
    by blast
  have "card (f ` set ds) \<le> card (set ds)" by (simp add: card_image_le)
  with n f card_length [of ds] have c: "card (set ds) = length ds" "card (f ` set ds) = card (set ds)" by auto
  obtain p where "nonce_prefix ` f ` set ds = {p}" using one f by (auto simp: card_1_singleton_iff)
  then have "\<forall>d \<in> set ds. nonce_prefix (f d) = p" by auto
  with rec card_distinct [OF c(1)] eq_card_imp_inj_on [OF _ c(2)] show ?thesis by blast
qed

definition session_record :: "string \<Rightarrow> recorded_message" where
  "session_record i = mk_record ''bus_inject'' ''speak''
     (PMsg ''speak'' PNone (PDict [(''session'', PDict [(''session_id'', PStr i)])])) ''sat'' 0"

lemma session_record_id [simp]: "layer1_id (session_record i) = Inr i"
  by (cases i) (simp_all add: layer1_id_def session_of_def payload_context_def session_record_def mk_record_def py_or_def dget_def)

lemma session_record_peer [simp]:
  "from_peer (Some ''sat'') (session_record i # rs) = session_record i # from_peer (Some ''sat'') rs"
  by (simp add: from_peer_def session_record_def mk_record_def)

lemma session_record_none [simp]: "from_peer pr [] = []"
  by (simp add: from_peer_def)

lemmas isolation_simps = assert_sessions_isolated_def ends_with_def nonce_prefix_def dset_def dvals_def require_def

theorem sessions_isolated_sound_witness:
  "\<exists>f :: string \<Rightarrow> string. f ''a'' \<noteq> f ''b'' \<and> ends_with '':a'' (f ''a'')"
proof -
  have "assert_sessions_isolated [''a'', ''b''] (Some ''sat'') [session_record ''n:b'', session_record ''n:a''] = Inr ()"
    by (simp add: isolation_simps)
  from sessions_isolated_sound [OF this] show ?thesis by (auto simp: inj_on_def)
qed

text \<open>The suffix is not anchored at the namespace: the session declared as \<open>a:b\<close> is taken for the one
  declared as \<open>b\<close>.\<close>

theorem isolation_accepts_other_session:
  "assert_sessions_isolated [''b''] (Some ''sat'') [session_record ''n:a:b''] = Inr ()"
  by (simp add: isolation_simps)

text \<open>With \<open>count = 0\<close> the slice is the whole history, so stale traffic can fail the check.\<close>

theorem fifo_of_none_reads_everything: "fifo_verdict mt 0 pr rs =
    rbind (rmap fifo_seq (fifo_records mt pr rs)) (\<lambda>seqs.
      if \<forall>s \<in> set seqs. s \<noteq> PNone then rbind (increasing seqs) require else Inl AssertionError)"
  by (simp add: fifo_verdict_def slice_last_def require_def)

text \<open>The \<open>since\<close> mark bounds the cross-talk window only: a receipt that \<open>wait_for\<close> finds in the
  earlier history passes for a delivery that never happened.\<close>

theorem stale_receipt_passes:
  assumes "direction r = ''in''" and "msg_type r = mt" and "timestamp r < t"
  shows "assert_destination_routed (find_last mt (Some ''in'') [r]) [[]] mt window (Some t) = Inr ()"
  using assms by (simp add: assert_destination_routed_def find_last_def find_all_def rec_matches_def last_opt_def require_def)

lemma hashable_eq_refl: "hashable v \<Longrightarrow> py_eq v v"
  by (cases v) simp_all

lemma source_clash_False: "source_clash mine rs = Inr False
    \<longleftrightarrow> (\<forall>r \<in> set rs. \<exists>v. source_of r = Inr v \<and> \<not> (truthy v \<and> py_eq v mine))"
  by (induction mine rs rule: source_clash.induct) auto

lemma own_source_Inr: "own_source r = Inr v \<longleftrightarrow> source_of r = Inr v \<and> (truthy v \<longrightarrow> hashable v)"
  by (auto simp: own_source_def)

text \<open>A passing stamping check is sound: every record injected for the satellite carries one
  and the same non-empty source, no record of the other satellites carries an equal one, and the
  satellite itself is not among those others.\<close>

theorem source_stamped_sound:
  assumes "assert_source_stamped pr others rs = Inr ()"
  shows "\<exists>s. truthy s
    \<and> (\<forall>r \<in> set (from_peer pr rs). \<exists>v. source_of r = Inr v \<and> truthy v \<and> py_eq s v)
    \<and> (\<forall>q \<in> set others. \<forall>r \<in> set (from_peer q rs). \<exists>v. source_of r = Inr v \<and> \<not> (truthy v \<and> py_eq v s))
    \<and> pr \<notin> set others"
proof -
  from assms obtain r mine vs bs where rs: "from_peer pr rs = r # mine"
    and vs: "rmap own_source (r # mine) = Inr vs" "\<forall>v \<in> set vs. truthy v \<and> py_eq (hd vs) v"
    and bs: "rmap (\<lambda>q. source_clash (hd vs) (from_peer q rs)) others = Inr bs" "\<forall>b \<in> set bs. \<not> b"
    by (auto simp: assert_source_stamped_def simp del: rmap.simps split: list.splits)
  from vs(1) obtain s ws where s: "vs = s # ws" "own_source r = Inr s" by auto
  have mine: "\<forall>x \<in> set (r # mine). \<exists>v \<in> set vs. own_source x = Inr v"
    using rmap_in [OF vs(1)] by blast
  have "\<forall>q \<in> set others. source_clash s (from_peer q rs) = Inr False"
    using rmap_in [OF bs(1)] bs(2) s by fastforce
  then have others: "\<forall>q \<in> set others. \<forall>x \<in> set (from_peer q rs). \<exists>v. source_of x = Inr v \<and> \<not> (truthy v \<and> py_eq v s)"
    by (simp add: source_clash_False)
  have "source_of r = Inr s" "truthy s" "py_eq s s"
    using s vs(2) hashable_eq_refl by (auto simp: own_source_Inr)
  with others rs have "pr \<notin> set others" by force
  with others mine vs(2) s rs show ?thesis by (force simp: own_source_Inr)
qed

theorem source_stamped_sound_witness:
  "\<exists>s. truthy s \<and> \<not> (truthy (PStr ''B'') \<and> py_eq (PStr ''B'') s)"
proof -
  let ?rec = "\<lambda>p s. mk_record ''bus_inject'' ''speak'' (PMsg ''speak'' PNone (PDict [(''source'', PStr s)])) p 0"
  let ?rs = "[?rec ''a'' ''A'', ?rec ''b'' ''B'', ?rec ''a'' ''A'']"
  have "assert_source_stamped (Some ''a'') [Some ''b''] ?rs = Inr ()"
    by (simp add: assert_source_stamped_def from_peer_def mk_record_def own_source_def source_of_def
        payload_context_def py_or_def dget_def require_def)
  then obtain s where "truthy s" and "\<forall>r \<in> set (from_peer (Some ''b'') ?rs).
      \<exists>v. source_of r = Inr v \<and> \<not> (truthy v \<and> py_eq v s)"
    using source_stamped_sound [of "Some ''a''" "[Some ''b'']" ?rs] by auto
  then show ?thesis
    by (auto simp: from_peer_def mk_record_def source_of_def payload_context_def py_or_def dget_def)
qed

end
