(* ===== verification/Node_Waits.thy ===== *)
theory Node_Waits
  imports Topology_Builder
begin

text \<open>
  The rest of \<open>hivescope/node.py\<close>: the shim's message calls and the waits of a satellite, on the handshake
  event and on its internal bus, and what a \<open>connect\<close> that returns has checked.

  The internal bus is \<open>FakeBus\<close> of ovos-utils. As far as \<open>wait_for_bus\<close> uses it, it is a list of one-shot
  listeners: an emitted message reaches, and takes off the list, every listener of its type; removing a
  listener that is not there raises.
\<close>

section \<open>The shim\<close>

text \<open>\<open>InProcessHiveShim.emit\<close> wraps a \<open>Message\<close> before \<open>send\<close> sees it.\<close>

definition shim_wrap :: "'t core \<Rightarrow> outgoing \<Rightarrow> outgoing" where
  "shim_wrap co out = (case out of Hive m \<Rightarrow> Hive m
     | Ovos t d ctx \<Rightarrow> Hive (hive_value BUS, core_bus_payload co (PMsg t d ctx)))"

definition shim_emit :: "'t core \<Rightarrow> nat \<Rightarrow> outgoing \<Rightarrow> 't hive prog" where
  "shim_emit co s out = sat_send co s (shim_wrap co out)"

text \<open>The attributes that the slave protocol reads off the shim are those of the satellite's identity, which
  \<open>site_id\<close> can also change.\<close>

definition shim_useragent :: "nat \<Rightarrow> 't hive \<Rightarrow> string" where
  "shim_useragent s w = s_name (sats w s)"

definition shim_session_id :: "nat \<Rightarrow> 't hive \<Rightarrow> string" where
  "shim_session_id s w = s_session_id (sats w s)"

definition shim_password :: "nat \<Rightarrow> 't hive \<Rightarrow> string option" where
  "shim_password s w = s_password (sats w s)"

definition shim_key :: "nat \<Rightarrow> 't hive \<Rightarrow> string" where
  "shim_key s w = s_access_key (sats w s)"

definition shim_site_id :: "nat \<Rightarrow> 't hive \<Rightarrow> string" where
  "shim_site_id s w = s_site_id (sats w s)"

definition shim_set_site_id :: "nat \<Rightarrow> string \<Rightarrow> 't hive \<Rightarrow> 't hive" where
  "shim_set_site_id s v w = upd_sat s (\<lambda>x. x\<lparr>s_site_id := v\<rparr>) w"

section \<open>wait_for\<close>

text \<open>Both classes hand the call to their recorder. An argument that is not given (\<open>None\<close>) is any direction at a
  master, and \<open>in\<close> at a satellite.\<close>

definition given_or :: "'a option \<Rightarrow> 'a \<Rightarrow> 'a" where
  "given_or x d = (case x of None \<Rightarrow> d | Some y \<Rightarrow> y)"

definition master_wait_for :: "nat \<Rightarrow> string \<Rightarrow> string option option \<Rightarrow> int \<Rightarrow> recorder \<Rightarrow> recorder" where
  "master_wait_for i mt dir timeout rc = wf_register i mt (given_or dir None) timeout rc"

definition satellite_wait_for :: "nat \<Rightarrow> string \<Rightarrow> string option option \<Rightarrow> int \<Rightarrow> recorder \<Rightarrow> recorder" where
  "satellite_wait_for i mt dir timeout rc = wf_register i mt (given_or dir (Some ''in'')) timeout rc"

section \<open>One-shot listeners and wait_for_bus\<close>

record 'm once_bus =
  ob_listeners :: "(nat \<times> string) list"
  ob_heard :: "nat \<Rightarrow> 'm list"

text \<open>\<open>once\<close> with a fresh handler, whose \<open>result\<close> list is empty.\<close>

definition ob_once :: "nat \<Rightarrow> string \<Rightarrow> 'm once_bus \<Rightarrow> 'm once_bus" where
  "ob_once h t b = b\<lparr>ob_listeners := ob_listeners b @ [(h, t)], ob_heard := (ob_heard b)(h := [])\<rparr>"

definition ob_emit :: "string \<times> 'm \<Rightarrow> 'm once_bus \<Rightarrow> 'm once_bus" where
  "ob_emit msg b = (case msg of (t, m) \<Rightarrow>
     b\<lparr>ob_listeners := filter (\<lambda>(h, u). u \<noteq> t) (ob_listeners b),
       ob_heard := (\<lambda>h. if (h, t) \<in> set (ob_listeners b) then ob_heard b h @ [m] else ob_heard b h)\<rparr>)"

definition ob_remove :: "nat \<Rightarrow> string \<Rightarrow> 'm once_bus \<Rightarrow> 'm once_bus result" where
  "ob_remove h t b = (if (h, t) \<in> set (ob_listeners b)
     then Inr (b\<lparr>ob_listeners := remove1 (h, t) (ob_listeners b)\<rparr>) else Inl KeyError)"

text \<open>\<open>wait_for_bus\<close>: \<open>arrived\<close> are the messages emitted on the bus between \<open>once\<close> and \<open>remove\<close>.\<close>

definition wait_for_bus :: "nat \<Rightarrow> string \<Rightarrow> (string \<times> 'm) list \<Rightarrow> 'm once_bus \<Rightarrow> 'm option \<times> 'm once_bus" where
  "wait_for_bus h t arrived b =
     (let b1 = fold ob_emit arrived (ob_once h t b);
          b2 = (case ob_remove h t b1 of Inl _ \<Rightarrow> b1 | Inr b2 \<Rightarrow> b2) in
      (case ob_heard b2 h of [] \<Rightarrow> None | m # _ \<Rightarrow> Some m, b2))"

text \<open>\<open>event.wait(timeout)\<close>: true when the event is set, or is set in time.\<close>

definition wait_for_handshake :: "bool \<Rightarrow> nat \<Rightarrow> 't hive \<Rightarrow> bool" where
  "wait_for_handshake set_in_time s w \<longleftrightarrow> s_handshake (sats w s) \<or> set_in_time"

section \<open>What the waits return\<close>

text \<open>A satellite's wait is not met by what the satellite sends, although the master's is.\<close>

lemma wait_defaults:
  "wf_lookup i (satellite_wait_for i mt None tmo rc) = find_last mt (Some ''in'') (records rc)"
  "wf_lookup i (master_wait_for i mt None tmo rc) = find_last mt None (records rc)"
  by (simp_all add: wf_lookup_def satellite_wait_for_def master_wait_for_def given_or_def wf_register_def)

text \<open>\<open>connect\<close> registers the satellite under the credentials that its shim reports.\<close>

lemma registered_credentials:
  "a_key (register_args (shim_key s w) (shim_password s w) k) = s_access_key (sats w s)"
  "a_password (register_args (shim_key s w) (shim_password s w) k) = s_password (sats w s)"
  by (simp_all add: register_args_def shim_key_def shim_password_def)

lemma ob_emit_sel [simp]:
  "ob_listeners (ob_emit (t, m) b) = filter (\<lambda>(h, u). u \<noteq> t) (ob_listeners b)"
  "ob_heard (ob_emit (t, m) b) h = (if (h, t) \<in> set (ob_listeners b) then ob_heard b h @ [m] else ob_heard b h)"
  by (simp_all add: ob_emit_def)

lemma not_listening: "\<forall>u. (h, u) \<notin> set (ob_listeners b) \<Longrightarrow> ob_heard (fold ob_emit arrived b) h = ob_heard b h"
proof (induction arrived arbitrary: b)
  case (Cons msg arrived)
  then show ?case by (cases msg) simp
qed simp

lemma emitted_listeners:
  "ob_listeners (fold ob_emit arrived b) = filter (\<lambda>(h, u). u \<notin> fst ` set arrived) (ob_listeners b)"
  by (induction arrived arbitrary: b) (auto simp: ob_emit_def filter_empty_conv intro!: filter_cong split: prod.splits)

lemma heard_once:
  assumes "\<forall>u. (h, u) \<in> set (ob_listeners b) \<longleftrightarrow> u = t" and "ob_heard b h = []"
  shows "ob_heard (fold ob_emit arrived b) h = map snd (take 1 (filter (\<lambda>(u, m). u = t) arrived))"
  using assms
proof (induction arrived arbitrary: b)
  case (Cons msg arrived)
  obtain u m where msg: "msg = (u, m)" by (cases msg)
  show ?case
  proof (cases "u = t")
    case True
    with Cons.prems show ?thesis by (simp add: msg not_listening)
  next
    case False
    with Cons.prems show ?thesis using Cons.IH [of "ob_emit msg b"] by (auto simp: msg)
  qed
qed simp

text \<open>\<open>wait_for_bus\<close> returns the first message of its type that was emitted while it waited, or \<open>None\<close> when
  there was none; its handler, which is its own, is registered no longer in either case; of the
  other listeners exactly those whose type was emitted have fired.\<close>

theorem bus_wait_returns_first:
  assumes "\<forall>u. (h, u) \<notin> set (ob_listeners b)"
  shows "fst (wait_for_bus h t arrived b) = map_option snd (List.find (\<lambda>(u, m). u = t) arrived)
    \<and> ob_listeners (snd (wait_for_bus h t arrived b)) = filter (\<lambda>(k, u). u \<notin> fst ` set arrived) (ob_listeners b)"
proof -
  let ?b1 = "fold ob_emit arrived (ob_once h t b)"
  have heard: "ob_heard ?b1 h = map snd (take 1 (filter (\<lambda>(u, m). u = t) arrived))"
    using assms by (intro heard_once) (auto simp: ob_once_def)
  have find: "(case map snd (take (Suc 0) (filter P xs)) of [] \<Rightarrow> None | m # _ \<Rightarrow> Some m) = map_option snd (List.find P xs)"
    for P and xs :: "(string \<times> 'a) list" by (induction xs) auto
  have "ob_heard (case ob_remove h t ?b1 of Inl _ \<Rightarrow> ?b1 | Inr b2 \<Rightarrow> b2) h = ob_heard ?b1 h"
    by (simp add: ob_remove_def)
  moreover have "ob_listeners (case ob_remove h t ?b1 of Inl _ \<Rightarrow> ?b1 | Inr b2 \<Rightarrow> b2)
      = filter (\<lambda>(k, u). u \<notin> fst ` set arrived) (ob_listeners b)"
    using assms by (auto simp: ob_remove_def emitted_listeners ob_once_def remove1_append)
  ultimately show ?thesis
    by (simp add: wait_for_bus_def Let_def heard find)
qed

end
