(* ===== verification/Pytest_Fixtures.thy ===== *)
theory Pytest_Fixtures
  imports Node_Waits
begin

text \<open>
  The pytest fixtures of \<open>hivescope/pytest_fixtures.py\<close>, each as its code up to its \<open>yield\<close>: the builder calls,
  and the program the test thread runs on the delivery pump. The hive of the builder is the world of the
  pump at the call. pytest itself, which sets fixtures up in the order of their parameters and runs the
  code after a \<open>yield\<close> when the test is over, is not modelled.
\<close>

section \<open>The fixtures\<close>

datatype sat_fixture = Satellite_Node | Admin_Satellite | Restricted_Satellite

fun fixture_name :: "sat_fixture \<Rightarrow> string" where
  "fixture_name Satellite_Node = ''S0''"
| "fixture_name Admin_Satellite = ''S_ADMIN''"
| "fixture_name Restricted_Satellite = ''S_RESTRICTED''"

fun fixture_args :: "sat_fixture \<Rightarrow> connect_args" where
  "fixture_args Satellite_Node = default_args"
| "fixture_args Admin_Satellite =
     default_args\<lparr>k_is_admin := True, k_can_propagate := True, k_can_broadcast := True\<rparr>"
| "fixture_args Restricted_Satellite =
     default_args\<lparr>k_is_admin := False, k_can_propagate := False, k_can_escalate := False,
       k_allowed_types := Some [''recognizer_loop:utterance'']\<rparr>"

text \<open>\<open>topology\<close>: a fresh builder, and its teardown.\<close>

definition topology_teardown :: "'t core \<Rightarrow> 't builder \<Rightarrow> 't hive prog" where
  "topology_teardown co b = attempt (stop_all co b)"

text \<open>\<open>master_node\<close>: the master, and \<open>start_all\<close>.\<close>

definition master_fixture :: "'t core \<Rightarrow> 't builder \<Rightarrow> nat result \<times> 't builder \<times> 't hive prog" where
  "master_fixture co b = (let (r, b1) = add_master ''M0'' no_master_args b in (r, b1, start_all co b1))"

text \<open>The satellite fixtures: the satellite, \<open>start_all\<close>, and the wait for the handshake.\<close>

definition await_handshake :: "bool \<Rightarrow> nat \<Rightarrow> 't hive prog" where
  "await_handshake set_in_time s =
     Dyn (\<lambda>w. if wait_for_handshake set_in_time s w then Ret else Throw AssertionError)"

definition satellite_fixture ::
    "'t core \<Rightarrow> node_supply \<Rightarrow> bool \<Rightarrow> sat_fixture \<Rightarrow> nat \<Rightarrow> 't builder \<Rightarrow>
     nat result \<times> 't builder \<times> 't hive prog" where
  "satellite_fixture co su set_in_time fx m b =
     (let (r, b1) = add_satellite su (fixture_name fx) (UpMaster m) False (Some (fixture_args fx)) b in
      (r, b1, pseq (start_all co b1)
         (case r of Inl e \<Rightarrow> Throw e | Inr s \<Rightarrow> await_handshake set_in_time s)))"

section \<open>What a connect that returns has checked\<close>

lemma connect_returns_handshaken:
  assumes "leads_to (call (sat_connect co s m k) c) d" and "stack d = []" and "raising d = None"
  shows "s_handshake (sats (world d) s)"
  by (rule returns_checked [OF assms(1) _ assms(2,3), where P = "\<lambda>w. s_handshake (sats w s)"])
    (auto simp: sat_connect_def intro!: checks_pseq)

lemma start_new_satellite:
  assumes "builder_inv b" and "get_master mn b = Inr m" and "name \<notin> set (dkeys (b_satellites b))"
    and "m_name (masters (b_hive b) m) = mn"
    and "\<forall>n s. get_satellite n b = Inr s \<longrightarrow> s_conn (sats (b_hive b) s) \<noteq> None"
    and "add_satellite su name (UpMaster m) sh (Some k) b = (r, b1)"
    and "idle c" and "queue c = []" and "world c = b_hive b1" and "raising c = None" and "connects_ok co"
    and "networks (b_hive b) m = In_Process" and "servers_up co (all_masters b1) (world c) = (Inr (), w1)"
  shows "r = Inr (b_next_sat b) \<and> b_connections b1 = b_connections b @ [(name, mn, Some k)]
    \<and> (\<exists>d. leads_to (call (start_all co b1) c) d \<and> stack d = [] \<and> raising d = None
         \<and> linkage (world d) = (linkage (world c))(b_next_sat b := (True, Some m))
         \<and> s_handshake (sats (world d) (b_next_sat b)))"
proof -
  let ?s = "b_next_sat b" and ?l = "(name, mn, Some k)" and ?cs = "b_connections b"
  have b1: "r = Inr ?s" "b_connections b1 = ?cs @ [?l]" "dget (b_satellites b1) name = Some ?s"
    "b_masters b1 = b_masters b" "s_conn (sats (b_hive b1) ?s) = None"
    "\<And>n. n \<noteq> name \<Longrightarrow> dget (b_satellites b1) n = dget (b_satellites b) n"
    "\<And>t. t \<noteq> ?s \<Longrightarrow> sats (b_hive b1) t = sats (b_hive b) t" "masters (b_hive b1) = masters (b_hive b)"
    using assms(4,6) by (auto simp: add_satellite_def resolve_listener_def Let_def dict_simps)
  have "\<exists>t. dget (b_satellites b1) sn = Some t \<and> s_conn (sats (world c) t) \<noteq> None"
    if l: "(sn, m', kw) \<in> set ?cs" for sn m' kw
  proof -
    obtain t where t: "dget (b_satellites b) sn = Some t"
      using assms(1) l by (fastforce simp: builder_inv_def links_ok_def)
    then have "sn \<noteq> name" "t < ?s"
      using assms(1,3) by (auto simp: pd.in_keys_iff builder_inv_def sats_ok_def)
    moreover from t have "get_satellite sn b = Inr t" by (simp add: get_satellite_def)
    ultimately show ?thesis using t b1(6,7) assms(5,9) by (intro exI [of _ t]) fastforce
  qed
  then have skip: "settle (pfor ?cs (start_one co b1)) w1 = (Ret, w1)"
    using servers_up_nodes(1) [OF assms(13)] by (intro start_skips_connected) auto
  let ?c = "c\<lparr>world := w1\<rparr>"
  have "m_network (masters (world ?c) m) = In_Process"
    using servers_up_nodes(2) [OF assms(13)] assms(9,12) b1(8) by simp
  moreover have "idle ?c" "queue ?c = []" using assms(7,8) by (simp_all add: idle_def)
  moreover have same: "linkage (world ?c) = linkage (world c)" using servers_up_nodes(3) [OF assms(13)] by simp
  ultimately obtain d where d: "leads_to (call (sat_connect co ?s m k) ?c) d" "idle d" "raising d = None"
    "linkage (world d) = (linkage (world c))(?s := (True, Some m))"
    using assms(11) unfolding connects_ok_def by metis
  then have stack: "stack d = []" by (simp add: idle_def)
  have "start_one co b1 ?l = Dyn (\<lambda>w. if s_conn (sats w ?s) \<noteq> None then Ret else sat_connect co ?s m k)"
    using b1(3,4) assms(2) by (auto simp: start_one_def get_master_def split: option.splits)
  with d(1) b1(5) assms(9) have one: "leads_to (call (start_one co b1 ?l) ?c) d"
    using servers_up_nodes(1) [OF assms(13)] by (simp add: call_Dyn)
  have "settle (pseq (pfor (all_masters b1) (network_run co)) (pfor ?cs (start_one co b1))) (world c) = (Ret, w1)"
    using assms(13) skip by (simp add: settle_pseq_Ret settle_servers)
  from settled_first [OF this assms(10), of "start_one co b1 ?l"]
  have "leads_to (call (start_all co b1) c) (call (start_one co b1 ?l) ?c)"
    using assms(10) by (cases c) (simp add: start_all_def b1(2) pfor_append pseq_assoc call_def)
  then have "leads_to (call (start_all co b1) c) d" using one by (rule leads_trans)
  with d(3,4) stack same connect_returns_handshaken [OF d(1) stack d(3)] b1(1,2) show ?thesis by blast
qed

section \<open>Properties\<close>



text \<open>The teardown of \<open>topology\<close> never raises and releases everything the test built, whatever the stop
  methods of its masters raise.\<close>

theorem topology_teardown_releases:
  assumes "drop_ok co" and "stops_plain co" and "reaches builder_step (new_builder w0) b"
    and "\<forall>s \<in> set (all_satellites b). linked s w"
  shows "\<exists>w'. settle (topology_teardown co b) w = (Ret, w')
    \<and> (\<forall>s \<in> set (all_satellites b). s_conn (sats w' s) = None \<and> \<not> s_tmpdir (sats w' s))
    \<and> (\<forall>m \<in> set (all_masters b). \<not> m_tmpdir (masters w' m))"
proof -
  have "builder_inv b" using assms(3) by (blast intro: bi.inv_reachable)
  from stop_all_settles [OF assms(1,2,4) this]
  obtain w' where "settle (stop_all co b) w = (Ret, w')" "\<forall>s \<in> set (all_satellites b). stopped w w' s"
    "\<forall>m \<in> set (all_masters b). \<not> m_tmpdir (masters w' m)" by blast
  then show ?thesis
    by (intro exI [of _ w']) (simp add: topology_teardown_def attempt_def stopped_def)
qed

text \<open>The fixture with minimal permissions keeps the broadcast permission, the default of \<open>connect\<close>.\<close>

theorem restricted_fixture_may_broadcast:
  "k_can_broadcast (fixture_args Restricted_Satellite) \<and> \<not> k_can_propagate (fixture_args Restricted_Satellite)"
  by (simp add: default_args_def)

end
