(* ===== verification/Loopback_Thread.thy ===== *)
theory Loopback_Thread
  imports Loopback_Server
begin

text \<open>
  The server thread of \<open>LoopbackNetworkProtocol\<close> in \<open>hivescope/plugins/loopback.py\<close>, statement by statement:
  \<open>_run_server\<close>, \<open>_start_server\<close> and \<open>_shutdown_loop\<close>. \<open>Loopback_Server\<close> takes the start and the end of
  the thread as single steps (\<open>server_thread\<close>, \<open>bind\<close>, \<open>thread_dies\<close>); here those steps are shown to be what
  the code of the thread does, whatever asyncio and websockets raise, and the thread is shown to close what
  it opened.

  How each library call ends is an argument.
\<close>

section \<open>State\<close>

text \<open>The event loop: \<open>el_attached\<close>, \<open>el_server\<close> say that \<open>_loop\<close>, \<open>_server\<close> are not \<open>None\<close>;
  \<open>el_tasks\<close> are the tasks of the loop that are not done. History variables: \<open>el_listening\<close>, the sockets are
  open; \<open>el_cancelled\<close>, the tasks that were cancelled; \<open>el_closed\<close>, the loop was closed.\<close>

record event_loop =
  el_attached :: bool
  el_server :: bool
  el_listening :: bool
  el_tasks :: "nat set"
  el_cancelled :: "nat set"
  el_closed :: bool

text \<open>The exceptions that \<open>except Exception\<close> does not catch.\<close>

definition base_only :: "py_exn set" where
  "base_only = {OtherError ''CancelledError'', OtherError ''KeyboardInterrupt'', OtherError ''SystemExit''}"

definition caught :: "py_exn option \<Rightarrow> bool" where
  "caught r \<longleftrightarrow> (case r of None \<Rightarrow> True | Some e \<Rightarrow> e \<notin> base_only)"

text \<open>What the calls of \<open>_shutdown_loop\<close> raise, if they do: \<open>server.close()\<close>, waiting for it, waiting five
  seconds for the cancelled tasks, and \<open>loop.close()\<close>.\<close>

record shutdown_calls =
  sc_close :: "py_exn option"
  sc_closed :: "py_exn option"
  sc_drain :: "py_exn option"
  sc_loop :: "py_exn option"

section \<open>_shutdown_loop\<close>

text \<open>Each part returns the exception that leaves it.\<close>

definition close_server :: "shutdown_calls \<Rightarrow> event_loop \<Rightarrow> py_exn option \<times> event_loop" where
  "close_server sc l =
     (if \<not> el_server l then (None, l)
      else let l1 = l\<lparr>el_server := False\<rparr> in
           case sc_close sc of
             Some e \<Rightarrow> (if caught (Some e) then None else Some e, l1)
           | None \<Rightarrow> (if caught (sc_closed sc) then None else sc_closed sc, l1\<lparr>el_listening := False\<rparr>))"

definition drain_tasks :: "shutdown_calls \<Rightarrow> event_loop \<Rightarrow> py_exn option \<times> event_loop" where
  "drain_tasks sc l =
     (let l1 = l\<lparr>el_cancelled := el_cancelled l \<union> el_tasks l\<rparr> in
      if el_tasks l = {} then (None, l1)
      else case sc_drain sc of
             None \<Rightarrow> (None, l1\<lparr>el_tasks := {}\<rparr>)
           | Some e \<Rightarrow> (if e = TimeoutError \<or> e = OtherError ''CancelledError'' \<or> caught (Some e) then None else Some e, l1))"

definition close_loop :: "shutdown_calls \<Rightarrow> event_loop \<Rightarrow> py_exn option \<times> event_loop" where
  "close_loop sc l =
     (case sc_loop sc of
        None \<Rightarrow> (None, l\<lparr>el_closed := True, el_attached := False\<rparr>)
      | Some e \<Rightarrow> (if caught (Some e) then (None, l\<lparr>el_attached := False\<rparr>) else (Some e, l)))"

text \<open>The loop is closed in a \<open>finally\<close> of the second part only.\<close>

definition shutdown_loop :: "shutdown_calls \<Rightarrow> event_loop \<Rightarrow> py_exn option \<times> event_loop" where
  "shutdown_loop sc l =
     (case close_server sc l of
        (Some e, l1) \<Rightarrow> (Some e, l1)
      | (None, l1) \<Rightarrow>
          (case drain_tasks sc l1 of (e, l2) \<Rightarrow>
             (case close_loop sc l2 of (Some e', l3) \<Rightarrow> (Some e', l3) | (None, l3) \<Rightarrow> (e, l3))))"

section \<open>_run_server\<close>

text \<open>\<open>served\<close>: how \<open>websockets.asyncio.server.serve\<close> ends, the ports of its sockets or an exception.\<close>

definition start_server :: "nat list result \<Rightarrow> nat \<Rightarrow> net_world \<Rightarrow> unit result \<times> net_world" where
  "start_server served i w =
     (case served of
        Inl e \<Rightarrow> (Inl e, w)
      | Inr [] \<Rightarrow> (Inr (), w)
      | Inr (port # ports) \<Rightarrow> (Inr (), upd_server i (\<lambda>x. x\<lparr>sv_url := Some (url_of_port port)\<rparr>) w))"

definition new_loop :: event_loop where
  "new_loop = \<lparr>el_attached = True, el_server = False, el_listening = False, el_tasks = {}, el_cancelled = {}, el_closed = False\<rparr>"

definition fail_thread :: "py_exn \<Rightarrow> nat \<Rightarrow> net_world \<Rightarrow> net_world" where
  "fail_thread e i w = upd_server i (\<lambda>x. x\<lparr>sv_error := Some e, sv_ready := True\<rparr>) w"

text \<open>Up to \<open>run_forever\<close>.\<close>

definition begin_serving :: "nat list result \<Rightarrow> nat \<Rightarrow> net_world \<Rightarrow> unit result \<times> net_world \<times> event_loop" where
  "begin_serving served i w =
     (case start_server served i w of
        (Inl e, w1) \<Rightarrow> (Inl e, w1, new_loop)
      | (Inr _, w1) \<Rightarrow> (Inr (), upd_server i (\<lambda>x. x\<lparr>sv_ready := True\<rparr>) w1, new_loop\<lparr>el_server := True, el_listening := True\<rparr>))"

text \<open>After it: \<open>ended\<close> is the exception that ended the start or \<open>run_forever\<close>; \<open>None\<close>: \<open>stop\<close> stopped the
  loop. The result is the exception that ends the thread.\<close>

definition end_serving ::
    "py_exn option \<Rightarrow> shutdown_calls \<Rightarrow> nat \<Rightarrow> net_world \<Rightarrow> event_loop \<Rightarrow> py_exn option \<times> net_world \<times> event_loop" where
  "end_serving ended sc i w l =
     (let (escaped, w1) = (case ended of
            None \<Rightarrow> (None, w)
          | Some e \<Rightarrow> (if caught (Some e) then (None, fail_thread e i w) else (Some e, w)));
          (e, l1) = shutdown_loop sc l in
      (if e = None then escaped else e, w1, l1))"

text \<open>The whole thread; \<open>tasks\<close> are the handlers that are not done when \<open>run_forever\<close> returns.\<close>

definition run_server ::
    "nat list result \<Rightarrow> py_exn option \<Rightarrow> nat set \<Rightarrow> shutdown_calls \<Rightarrow> nat \<Rightarrow> net_world \<Rightarrow>
     py_exn option \<times> net_world \<times> event_loop" where
  "run_server served forever tasks sc i w =
     (case begin_serving served i w of
        (Inl e, w1, l) \<Rightarrow> end_serving (Some e) sc i w1 l
      | (Inr _, w1, l) \<Rightarrow> end_serving forever sc i w1 (l\<lparr>el_tasks := tasks\<rparr>))"

section \<open>The thread closes what it opened\<close>

definition all_caught :: "shutdown_calls \<Rightarrow> bool" where
  "all_caught sc \<longleftrightarrow> caught (sc_close sc) \<and> caught (sc_closed sc) \<and> caught (sc_loop sc)
     \<and> (caught (sc_drain sc) \<or> sc_drain sc = Some (OtherError ''CancelledError''))"

lemma caught_None [simp]: "caught None"
  by (simp add: caught_def)

lemma close_server_caught:
  assumes "caught (sc_close sc)" and "caught (sc_closed sc)"
  shows "fst (close_server sc l) = None"
  using assms by (auto simp: close_server_def Let_def split: option.split)

lemma close_server_frees:
  "\<not> el_server (snd (close_server sc l))" "el_tasks (snd (close_server sc l)) = el_tasks l"
  "el_attached (snd (close_server sc l)) = el_attached l" "el_closed (snd (close_server sc l)) = el_closed l"
  "el_cancelled (snd (close_server sc l)) = el_cancelled l"
  "el_listening (snd (close_server sc l)) \<longleftrightarrow> el_listening l \<and> (el_server l \<longrightarrow> sc_close sc \<noteq> None)"
  by (auto simp: close_server_def Let_def split: option.split)

lemma drain_tasks_keeps:
  "el_server (snd (drain_tasks sc l)) = el_server l" "el_listening (snd (drain_tasks sc l)) = el_listening l"
  "el_closed (snd (drain_tasks sc l)) = el_closed l"
  "el_cancelled (snd (drain_tasks sc l)) = el_cancelled l \<union> el_tasks l"
  by (auto simp: drain_tasks_def Let_def split: option.split)

lemma close_loop_keeps:
  "el_server (snd (close_loop sc l)) = el_server l" "el_listening (snd (close_loop sc l)) = el_listening l"
  "el_cancelled (snd (close_loop sc l)) = el_cancelled l"
  by (auto simp: close_loop_def split: option.split)

lemma close_loop_caught:
  assumes "caught (sc_loop sc)"
  shows "fst (close_loop sc l) = None \<and> \<not> el_attached (snd (close_loop sc l))
    \<and> (el_closed (snd (close_loop sc l)) \<longleftrightarrow> el_closed l \<or> sc_loop sc = None)"
  using assms by (cases "sc_loop sc") (simp_all add: close_loop_def)

lemma drain_tasks_caught:
  "caught (sc_drain sc) \<or> sc_drain sc = Some (OtherError ''CancelledError'') \<Longrightarrow> fst (drain_tasks sc l) = None"
  by (auto simp: drain_tasks_def Let_def split: option.split)

lemma shutdown_loop_releases:
  assumes "all_caught sc"
  shows "\<exists>l'. shutdown_loop sc l = (None, l') \<and> \<not> el_server l' \<and> \<not> el_attached l'
    \<and> el_cancelled l' = el_cancelled l \<union> el_tasks l
    \<and> (el_closed l' \<longleftrightarrow> el_closed l \<or> sc_loop sc = None)
    \<and> (el_listening l' \<longleftrightarrow> el_listening l \<and> (el_server l \<longrightarrow> sc_close sc \<noteq> None))"
proof -
  obtain e1 l1 where 1: "close_server sc l = (e1, l1)" by fastforce
  obtain e2 l2 where 2: "drain_tasks sc l1 = (e2, l2)" by fastforce
  obtain e3 l3 where 3: "close_loop sc l2 = (e3, l3)" by fastforce
  note [simp] = 1 2 3
  from assms have "e1 = None" "e2 = None" "e3 = None"
    using close_server_caught [of sc l] drain_tasks_caught [of sc l1] close_loop_caught [of sc l2]
    by (simp_all add: all_caught_def)
  then show ?thesis
    using assms close_server_frees [of sc l] drain_tasks_keeps [of sc l1] close_loop_keeps [of sc l2] close_loop_caught [of sc l2]
    by (simp add: shutdown_loop_def all_caught_def)
qed

section \<open>The steps of Loopback_Server are what the thread does\<close>

lemma begin_serving_binds: "begin_serving (Inr ports) i w = (Inr (), bind ports i w, new_loop\<lparr>el_server := True, el_listening := True\<rparr>)"
  by (cases ports) (simp_all add: begin_serving_def start_server_def bind_def upd_server_def)

lemma end_serving_caught:
  assumes "all_caught sc"
  shows "\<exists>l'. end_serving ended sc i w l = (case ended of
      None \<Rightarrow> (None, w, l')
    | Some e \<Rightarrow> if caught (Some e) then (None, fail_thread e i w, l') else (Some e, w, l'))
    \<and> shutdown_loop sc l = (None, l')"
  using shutdown_loop_releases [OF assms, of l] by (auto simp: end_serving_def split: option.split)

text \<open>C31: The server thread does what the model of \<open>run\<close> and \<open>stop\<close> takes as single steps, and closes what it opened.
  A start that raises leaves the exception and the ready event, a start that binds leaves the address and the ready event, and a loop that
  is ended by an exception leaves it, exactly as \<open>server_thread\<close> and \<open>thread_dies\<close> say; in every case, whatever exceptions closing the
  server, the handlers and the loop raise, the thread itself ends without one, \<open>_server\<close> and \<open>_loop\<close> are \<open>None\<close>, the sockets are
  closed unless \<open>close\<close> itself raised, every handler that was left is cancelled, and the loop is closed unless its \<open>close\<close> raised.\<close>

theorem server_thread_refined:
  assumes "all_caught sc" and "case served of Inl e \<Rightarrow> caught (Some e) | Inr _ \<Rightarrow> caught forever"
    and "run_server served forever tasks sc i w = (escaped, w', l)"
  shows "escaped = None \<and> \<not> el_server l \<and> \<not> el_attached l
    \<and> (el_closed l \<longleftrightarrow> sc_loop sc = None)
    \<and> (el_listening l \<longrightarrow> sc_close sc \<noteq> None)
    \<and> (case served of
         Inl e \<Rightarrow> w' = server_thread (Startup_Failed e) i w
       | Inr ports \<Rightarrow> el_cancelled l = tasks \<and>
           w'\<lparr>nw_alive := nw_alive w - {i}\<rparr> = (case forever of
               None \<Rightarrow> (server_thread (Bound ports) i w)\<lparr>nw_alive := nw_alive w - {i}\<rparr>
             | Some e \<Rightarrow> thread_dies e i (server_thread (Bound ports) i w)))"
proof (cases served)
  case (Inl e)
  obtain l' where "end_serving (Some e) sc i w new_loop = (None, fail_thread e i w, l')"
    and "shutdown_loop sc new_loop = (None, l')"
    using end_serving_caught [OF assms(1), of "Some e" i w new_loop] assms(2) by (auto simp: Inl)
  then show ?thesis
    using assms(3) shutdown_loop_releases [OF assms(1), of new_loop]
    by (auto simp: Inl run_server_def begin_serving_def start_server_def fail_thread_def new_loop_def)
next
  case (Inr ports)
  let ?l = "new_loop\<lparr>el_server := True, el_listening := True, el_tasks := tasks\<rparr>"
  obtain l' where "end_serving forever sc i (bind ports i w) ?l = (case forever of
      None \<Rightarrow> (None, bind ports i w, l') | Some e \<Rightarrow> (None, fail_thread e i (bind ports i w), l'))"
    and "shutdown_loop sc ?l = (None, l')"
    using end_serving_caught [OF assms(1), of forever i "bind ports i w" ?l] assms(2)
    by (cases forever) (auto simp: Inr)
  then show ?thesis
    using assms(3) shutdown_loop_releases [OF assms(1), of ?l]
    by (auto simp: Inr run_server_def begin_serving_binds fail_thread_def new_loop_def thread_dies_def upd_server_def bind_def
        split: option.splits)
qed

text \<open>A server whose \<open>run_forever\<close> ends with an exception, whose handlers do not end in time, and whose loop cannot be closed.\<close>

theorem server_thread_refined_witness:
  "\<exists>w' l. run_server (Inr [8080]) (Some ValueError) {1, 2}
      \<lparr>sc_close = None, sc_closed = Some RuntimeError, sc_drain = Some TimeoutError, sc_loop = Some RuntimeError\<rparr>
      0 (new_net (\<lambda>_. 1) None) = (None, w', l) \<and> el_cancelled l = {1, 2} \<and> \<not> el_listening l"
proof -
  let ?sc = "\<lparr>sc_close = None, sc_closed = Some RuntimeError, sc_drain = Some TimeoutError, sc_loop = Some RuntimeError\<rparr>"
  obtain e w' l where run: "run_server (Inr [8080]) (Some ValueError) {1, 2} ?sc 0 (new_net (\<lambda>_. 1) None) = (e, w', l)"
    by (metis prod_cases3)
  have "all_caught ?sc" and "case Inr [8080] of Inl e \<Rightarrow> caught (Some e) | Inr (_ :: nat list) \<Rightarrow> caught (Some ValueError)"
    by (simp_all add: all_caught_def caught_def base_only_def)
  from server_thread_refined [OF this run] run show ?thesis by auto
qed

end
