(* ===== verification/Loopback_Credentials.thy ===== *)
theory Loopback_Credentials
  imports Client_Database Py_Text
begin

text \<open>
  How \<open>LoopbackNetworkProtocol._handle_client\<close> of \<open>hivescope/plugins/loopback.py\<close> finds a client's
  credentials and admits it: the Base64 text of the query parameter or of the \<open>Authorization\<close> header, its
  decoding by the standard library, the lookup in the client store, and the connection that is built.

  A Python string stands here as its UTF-8 bytes, one \<open>char\<close> each. \<open>parse_qs\<close> replaces percent-encoded
  bytes that are not UTF-8; they stay as they are here, which changes nothing: both spellings are outside
  ASCII, so neither is a parameter called \<open>authorization\<close> nor Base64 text that is accepted.
\<close>

section \<open>Base64 decoding\<close>

definition alphabet :: string where
  "alphabet = ''ABCDEFGHIJKLMNOPQRSTUVWXYZabcdefghijklmnopqrstuvwxyz0123456789+/''"

definition sextet :: "char \<Rightarrow> nat option" where
  "sextet c = (let i = length (takeWhile (\<lambda>d. d \<noteq> c) alphabet) in if i < 64 then Some i else None)"

definition emit_byte :: "nat \<Rightarrow> string result \<Rightarrow> string result" where
  "emit_byte b r = rbind r (\<lambda>s. Inr (char_of b # s))"

text \<open>\<open>binascii.a2b_base64\<close> without strict mode: the place in the quad, the bits left over from the last
  sextet, and the padding seen. Characters outside the alphabet are skipped; a complete padding ends the
  input; what is left incomplete is an error.\<close>

fun a2b :: "nat \<Rightarrow> nat \<Rightarrow> nat \<Rightarrow> string \<Rightarrow> string result" where
  "a2b q left pads [] = (if q = 0 then Inr [] else Inl ValueError)"
| "a2b q left pads (c # cs) =
     (if c = CHR ''='' then
        (if q < 2 then a2b q left pads cs
         else if q + pads + 1 \<ge> 4 then Inr []
         else a2b q left (pads + 1) cs)
      else case sextet c of
        None \<Rightarrow> a2b q left pads cs
      | Some v \<Rightarrow>
          (if q = 0 then a2b 1 v 0 cs
           else if q = 1 then emit_byte (left * 4 + v div 16) (a2b 2 (v mod 16) 0 cs)
           else if q = 2 then emit_byte (left * 16 + v div 4) (a2b 3 (v mod 4) 0 cs)
           else emit_byte (left * 64 + v) (a2b 0 0 0 cs)))"

definition b64decode :: "string \<Rightarrow> string result" where
  "b64decode s = (if list_all (\<lambda>c. of_char c < (128::nat)) s then a2b 0 0 0 s else Inl ValueError)"

section \<open>Strict UTF-8\<close>

text \<open>The ranges that the bytes after a leading byte must lie in.\<close>

definition utf8_lead :: "nat \<Rightarrow> (nat \<times> nat) list option" where
  "utf8_lead b =
     (let cont = (128, 191) in
      if b < 128 then Some []
      else if 194 \<le> b \<and> b \<le> 223 then Some [cont]
      else if b = 224 then Some [(160, 191), cont]
      else if b = 237 then Some [(128, 159), cont]
      else if 225 \<le> b \<and> b \<le> 239 then Some [cont, cont]
      else if b = 240 then Some [(144, 191), cont, cont]
      else if 241 \<le> b \<and> b \<le> 243 then Some [cont, cont, cont]
      else if b = 244 then Some [(128, 143), cont, cont]
      else None)"

fun utf8_from :: "(nat \<times> nat) list \<Rightarrow> string \<Rightarrow> bool" where
  "utf8_from [] [] = True"
| "utf8_from (_ # _) [] = False"
| "utf8_from ((lo, hi) # rs) (c # cs) = (lo \<le> of_char c \<and> of_char c \<le> hi \<and> utf8_from rs cs)"
| "utf8_from [] (c # cs) = (case utf8_lead (of_char c) of None \<Rightarrow> False | Some rs \<Rightarrow> utf8_from rs cs)"

definition decode_utf8 :: "string \<Rightarrow> string result" where
  "decode_utf8 s = (if utf8_from [] s then Inr s else Inl ValueError)"

section \<open>The credentials of a request\<close>

text \<open>\<open>name, key = base64.b64decode(text).decode("utf-8").split(":", 1)\<close>.\<close>

definition basic_decode :: "string \<Rightarrow> (string \<times> string) result" where
  "basic_decode text = rbind (b64decode text) (\<lambda>b. rbind (decode_utf8 b) (\<lambda>t.
     case split_once (CHR '':'') t of None \<Rightarrow> Inl ValueError | Some nk \<Rightarrow> Inr nk))"

definition hex_digit :: "char \<Rightarrow> nat option" where
  "hex_digit c =
     (let b = of_char c in
      if 48 \<le> b \<and> b \<le> 57 then Some (b - 48)
      else if 65 \<le> b \<and> b \<le> 70 then Some (b - 55)
      else if 97 \<le> b \<and> b \<le> 102 then Some (b - 87)
      else None)"

definition hex_pair :: "string \<Rightarrow> char option" where
  "hex_pair cs = (case cs of
     a # b # _ \<Rightarrow> (case (hex_digit a, hex_digit b) of (Some x, Some y) \<Rightarrow> Some (char_of (16 * x + y)) | _ \<Rightarrow> None)
   | _ \<Rightarrow> None)"

fun unquote :: "string \<Rightarrow> string" where
  "unquote [] = []"
| "unquote (c # cs) =
     (if c = CHR ''%'' then
        (case hex_pair cs of Some b \<Rightarrow> b # unquote (drop 2 cs) | None \<Rightarrow> c # unquote cs)
      else c # unquote cs)"

definition unquote_plus :: "string \<Rightarrow> string" where
  "unquote_plus s = unquote (map (\<lambda>c. if c = CHR ''+'' then CHR '' '' else c) s)"

text \<open>\<open>parse_qsl\<close>: fields without a value are dropped.\<close>

definition parse_field :: "string \<Rightarrow> (string \<times> string) list" where
  "parse_field f = (case split_once (CHR ''='') f of
     None \<Rightarrow> []
   | Some (n, v) \<Rightarrow> (if v = [] then [] else [(unquote_plus n, unquote_plus v)]))"

definition parse_qsl :: "string \<Rightarrow> (string \<times> string) list" where
  "parse_qsl q = concat (map parse_field (split_on (CHR ''&'') q))"

definition query_credentials :: "string \<Rightarrow> (string \<times> string) option" where
  "query_credentials path =
     (case split_once (CHR ''?'') path of
        None \<Rightarrow> None
      | Some (_, query) \<Rightarrow>
          (if query = [] then None
           else case map_of (parse_qsl query) ''authorization'' of
             None \<Rightarrow> None
           | Some text \<Rightarrow> (case basic_decode text of Inl _ \<Rightarrow> None | Inr nk \<Rightarrow> Some nk)))"

text \<open>The header, \<open>''\<close> when absent.\<close>

definition header_credentials :: "string \<Rightarrow> (string \<times> string) option" where
  "header_credentials header =
     (if take 6 header = ''Basic '' then
        (case split_once (CHR '' '') header of
           None \<Rightarrow> None
         | Some (_, text) \<Rightarrow> (case basic_decode text of Inl _ \<Rightarrow> None | Inr nk \<Rightarrow> Some nk))
      else None)"

text \<open>The header is read when the query gave no name or no key; what is empty in the end is refused.\<close>

definition client_credentials :: "string \<Rightarrow> string \<Rightarrow> (string \<times> string) option" where
  "client_credentials path header =
     (let (n0, k0) = (case query_credentials path of Some nk \<Rightarrow> nk | None \<Rightarrow> ([], []));
          (n, k) = (if n0 = [] \<or> k0 = [] then
                      (case header_credentials header of Some nk \<Rightarrow> nk | None \<Rightarrow> (n0, k0))
                    else (n0, k0)) in
      if n = [] \<or> k = [] then None else Some (n, k))"

section \<open>Admission\<close>

record loop_conn =
  lp_key :: string
  lp_name :: string
  lp_password :: "string option"
  lp_admin :: bool
  lp_can_escalate :: bool
  lp_can_propagate :: bool
  lp_can_broadcast :: bool
  lp_allowed_types :: "string list"

datatype admission = Refuse int string | Admit loop_conn

definition loop_connection :: "string \<Rightarrow> string \<Rightarrow> client \<Rightarrow> loop_conn" where
  "loop_connection name key row = \<lparr>lp_key = key, lp_name = name,
     lp_password = (if given_password (cl_password row) then cl_password row else None),
     lp_admin = is_admin row, lp_can_escalate = can_escalate row, lp_can_propagate = can_propagate row,
     lp_can_broadcast = can_broadcast row, lp_allowed_types = allowed_types row\<rparr>"

definition admit :: "bool \<Rightarrow> client_db \<Rightarrow> string \<Rightarrow> string \<Rightarrow> admission" where
  "admit configured db path header =
     (if \<not> configured then Refuse 1011 ''No HiveMindListenerProtocol configured''
      else case client_credentials path header of
        None \<Rightarrow> Refuse 1008 ''Missing or invalid authorization (query param or Authorization header)''
      | Some (name, key) \<Rightarrow>
          (case get_client_by_api_key db key of
             None \<Rightarrow> Refuse 4001 ''Invalid API key''
           | Some row \<Rightarrow> Admit (loop_connection name key row)))"

section \<open>The standard encoding\<close>

text \<open>RFC 4648 Base64, which clients use to write their credentials: the specification of the decoder.\<close>

definition symbol :: "nat \<Rightarrow> char" where
  "symbol v = alphabet ! v"

fun b64 :: "string \<Rightarrow> string" where
  "b64 [] = []"
| "b64 [a] = (let a = of_char a in [symbol (a div 4), symbol (a mod 4 * 16), CHR ''='', CHR ''=''])"
| "b64 [a, b] = (let a = of_char a; b = of_char b in
     [symbol (a div 4), symbol (a mod 4 * 16 + b div 16), symbol (b mod 16 * 4), CHR ''=''])"
| "b64 (a # b # c # s) = (let a = of_char a; b = of_char b; c = of_char c in
     [symbol (a div 4), symbol (a mod 4 * 16 + b div 16), symbol (b mod 16 * 4 + c div 64), symbol (c mod 64)] @ b64 s)"

lemma symbols: "list_all (\<lambda>v. sextet (symbol v) = Some v \<and> of_char (symbol v) < (128::nat)
    \<and> symbol v \<notin> set ''=&%? :'') [0..<64]"
  by code_simp

lemma symbol [simp]:
  assumes "v < 64"
  shows "sextet (symbol v) = Some v" and "of_char (symbol v) < (128::nat)" and "symbol v \<notin> set ''=&%? :''"
    and "symbol v \<noteq> CHR ''=''"
  using symbols assms by (auto simp: list_all_iff)

text \<open>Three bytes as four sextets, and back.\<close>

lemma b64_parts:
  fixes a b c :: char
  obtains p q r t u v :: nat where "of_char a = p * 4 + q" "of_char b = r * 16 + t" "of_char c = u * 64 + v"
    and "char_of (p * 4 + q) = a" "char_of (r * 16 + t) = b" "char_of (u * 64 + v) = c"
    and "p < 64" "q < 4" "r < 16" "t < 16" "u < 4" "v < 64"
proof (rule that)
  show "of_char a = (of_char a :: nat) div 4 * 4 + of_char a mod 4"
    "of_char b = (of_char b :: nat) div 16 * 16 + of_char b mod 16"
    "of_char c = (of_char c :: nat) div 64 * 64 + of_char c mod 64"
    by (simp_all only: div_mult_mod_eq)
qed (simp_all only: div_mult_mod_eq char_of_char, simp_all add: less_mult_imp_div_less)

text \<open>A quad at a time.\<close>

lemma a2b_quad:
  assumes "u < 64" "v < 64" "w < 64" "x < 64"
  shows "a2b 0 left pads (symbol u # symbol v # symbol w # symbol x # s) =
    emit_byte (u * 4 + v div 16) (emit_byte (v mod 16 * 16 + w div 4) (emit_byte (w mod 4 * 64 + x) (a2b 0 0 0 s)))"
  using assms by simp

text \<open>What a client encodes is what the decoder reads: decoding the standard Base64 text of any byte
  string gives it back, with no padding or alphabet error.\<close>

theorem b64_round_trip: "b64decode (b64 s) = Inr s"
proof -
  have "list_all (\<lambda>c. of_char c < (128::nat)) (b64 s) \<and> a2b 0 0 0 (b64 s) = Inr s"
  proof (induction s rule: b64.induct)
    case (2 a)
    show ?case by (rule b64_parts [of a a a]) (simp add: Let_def emit_byte_def)
  next
    case (3 a b)
    show ?case by (rule b64_parts [of a b b]) (simp add: Let_def emit_byte_def)
  next
    case (4 a b c s)
    then show ?case by (rule_tac b64_parts [of a b c]) (simp add: Let_def emit_byte_def a2b_quad del: a2b.simps)
  qed simp
  then show ?thesis by (simp add: b64decode_def)
qed

section \<open>Credentials are read back\<close>

text \<open>\<open>urllib.parse.quote\<close> with nothing safe, on Base64 text.\<close>

definition quote_char :: "char \<Rightarrow> string" where
  "quote_char c = (if c = CHR ''+'' then ''%2B'' else if c = CHR ''/'' then ''%2F''
     else if c = CHR ''='' then ''%3D'' else [c])"

definition quote_b64 :: "string \<Rightarrow> string" where
  "quote_b64 s = concat (map quote_char s)"

lemma symbol_ne [simp]:
  assumes "v < 64"
  shows "symbol v \<noteq> CHR ''&''" and "symbol v \<noteq> CHR ''%''"
  using symbol(3) [OF assms] by auto

lemma b64_chars: "CHR ''&'' \<notin> set (b64 s)" "CHR ''%'' \<notin> set (b64 s)"
proof -
  have "list_all (\<lambda>c. c \<noteq> CHR ''&'' \<and> c \<noteq> CHR ''%'') (b64 s)"
  proof (induction s rule: b64.induct)
    case (2 a)
    show ?case by (rule b64_parts [of a a a]) (simp add: Let_def)
  next
    case (3 a b)
    show ?case by (rule b64_parts [of a b b]) (simp add: Let_def)
  next
    case (4 a b c s)
    then show ?case by (rule_tac b64_parts [of a b c]) (simp add: Let_def)
  qed simp
  then show "CHR ''&'' \<notin> set (b64 s)" "CHR ''%'' \<notin> set (b64 s)" by (auto simp: list_all_iff)
qed

lemma basic_decode_b64:
  assumes "utf8_from [] (n @ CHR '':'' # k)" and "CHR '':'' \<notin> set n"
  shows "basic_decode (b64 (n @ CHR '':'' # k)) = Inr (n, k)"
  using assms by (simp add: basic_decode_def b64_round_trip decode_utf8_def split_once_append)

lemma unquote_plain: "set s \<inter> set ''%+'' = {} \<Longrightarrow> unquote_plus s = s"
  by (induction s) (auto simp: unquote_plus_def)

lemma hex_quoted:
  "hex_pair (CHR ''2'' # CHR ''B'' # s) = Some (CHR ''+'')"
  "hex_pair (CHR ''2'' # CHR ''F'' # s) = Some (CHR ''/'')"
  "hex_pair (CHR ''3'' # CHR ''D'' # s) = Some (CHR ''='')"
  by (simp_all add: hex_pair_def hex_digit_def char_of_def bit_numeral_rec bit_0)

lemma unquote_quoted: "CHR ''%'' \<notin> set s \<Longrightarrow> unquote_plus (quote_b64 s) = s"
  by (induction s) (auto simp: unquote_plus_def quote_b64_def quote_char_def hex_quoted)

lemma quote_b64_chars: "CHR ''&'' \<notin> set s \<Longrightarrow> CHR ''&'' \<notin> set (quote_b64 s)"
  by (auto simp: quote_b64_def quote_char_def split: if_splits)

lemma b64_ne: "s \<noteq> [] \<Longrightarrow> b64 s \<noteq> []"
  by (cases s rule: b64.cases) (simp_all add: Let_def)

lemma query_text:
  assumes "CHR ''&'' \<notin> set text" and "text \<noteq> []"
  shows "query_credentials (''/?authorization='' @ text) =
    (case basic_decode (unquote_plus text) of Inl _ \<Rightarrow> None | Inr nk \<Rightarrow> Some nk)"
proof -
  have "unquote_plus ''authorization'' = ''authorization''" by (rule unquote_plain) simp
  moreover have "split_once (CHR ''='') (''authorization'' @ CHR ''='' # text) = Some (''authorization'', text)"
    by (rule split_once_append) simp
  ultimately have "parse_qsl (''authorization='' @ text) = [(''authorization'', unquote_plus text)]"
    using assms by (simp add: parse_qsl_def split_on_one parse_field_def)
  then show ?thesis
    by (simp add: query_credentials_def)
qed

lemma header_text: "header_credentials (''Basic '' @ text) =
    (case basic_decode text of Inl _ \<Rightarrow> None | Inr nk \<Rightarrow> Some nk)"
  using split_once_append [of "CHR '' ''" "''Basic''" "text"] by (simp add: header_credentials_def)

text \<open>C29: The Base64 text of \<open>name:key\<close>, with a name without a colon, both non-empty and in UTF-8, is read
  back as that name and key: from the header when the query gives nothing, from the query when it is
  percent-quoted, and from the query as it is when it holds no plus sign. A key may hold colons.\<close>

theorem credentials_read_back:
  assumes "utf8_from [] (name @ CHR '':'' # key)" and "CHR '':'' \<notin> set name" and "name \<noteq> []" and "key \<noteq> []"
    and "text = b64 (name @ CHR '':'' # key)"
  shows "(query_credentials path = None \<longrightarrow> client_credentials path (''Basic '' @ text) = Some (name, key))
    \<and> client_credentials (''/?authorization='' @ quote_b64 text) header = Some (name, key)
    \<and> (CHR ''+'' \<notin> set text \<longrightarrow> client_credentials (''/?authorization='' @ text) header = Some (name, key))"
proof -
  have read: "basic_decode text = Inr (name, key)"
    unfolding assms(5) by (rule basic_decode_b64 [OF assms(1,2)])
  have shape: "text \<noteq> []" "CHR ''&'' \<notin> set text" "CHR ''%'' \<notin> set text"
    unfolding assms(5) by (simp_all add: b64_ne b64_chars)
  then have quoted: "quote_b64 text \<noteq> []"
    by (cases "text") (auto simp: quote_b64_def quote_char_def)
  have "client_credentials path (''Basic '' @ text) = Some (name, key)" if "query_credentials path = None"
    unfolding client_credentials_def header_text that read using assms(3,4) by simp
  moreover have "client_credentials (''/?authorization='' @ quote_b64 text) header = Some (name, key)"
    unfolding client_credentials_def query_text [OF quote_b64_chars [OF shape(2)] quoted]
      unquote_quoted [OF shape(3)] read using assms(3,4) by simp
  moreover have "client_credentials (''/?authorization='' @ text) header = Some (name, key)" if "CHR ''+'' \<notin> set text"
  proof -
    have "unquote_plus text = text" using that shape(3) by (intro unquote_plain) auto
    then show ?thesis
      unfolding client_credentials_def query_text [OF shape(2,1)] using read assms(3,4) by simp
  qed
  ultimately show ?thesis by blast
qed

text \<open>Admission follows the client store. A client that presents a key just registered is admitted, under
  the name it claims, with exactly the registered flags and whitelist; one whose key was deleted is closed
  with 4001; and neither call changes the admission of a client with another key.\<close>

theorem admission_follows_store:
  assumes "client_credentials path header = Some (name, key)"
  shows "(a_key a = key \<longrightarrow> (\<exists>c. admit True (snd (add_client a db)) path header = Admit c
      \<and> lp_name c = name \<and> lp_key c = key \<and> lp_admin c = a_admin a \<and> lp_can_escalate c = a_can_escalate a
      \<and> lp_can_propagate c = a_can_propagate a \<and> lp_can_broadcast c = a_can_broadcast a
      \<and> (\<forall>ts. a_allowed_types a = Some ts \<longrightarrow> lp_allowed_types c = ts)))
    \<and> admit True (snd (delete_client key db)) path header = Refuse 4001 ''Invalid API key''
    \<and> (a_key a \<noteq> key \<longrightarrow> admit True (snd (add_client a db)) path header = admit True db path header)
    \<and> (k \<noteq> key \<longrightarrow> admit True (snd (delete_client k db)) path header = admit True db path header)"
proof -
  obtain row where "get_client_by_api_key (snd (add_client a db)) (a_key a) = Some row"
    using db.add_found by blast
  with assms db.add_flags [OF this] db.add_whitelist [OF this] show ?thesis
    by (auto simp: admit_def loop_connection_def db.revoke_same db.revoke_other db.add_other)
qed

theorem credentials_read_back_witness:
  "client_credentials ''/'' (''Basic '' @ ''YTpi'') = Some (''a'', ''b'')"
proof -
  have "b64 ''a:b'' = ''YTpi''" "utf8_from [] ''a:b''" by code_simp+
  moreover have "query_credentials ''/'' = None" by (simp add: query_credentials_def)
  ultimately show ?thesis using credentials_read_back [of "''a''" "''b''" "''YTpi''" "''/''" "[]"] by simp
qed

theorem admission_follows_store_witness:
  "admit True (snd (delete_client ''b'' new_db)) ''/?authorization=YTpi'' [] = Refuse 4001 ''Invalid API key''"
proof -
  have "client_credentials ''/?authorization=YTpi'' [] = Some (''a'', ''b'')" by code_simp
  then show ?thesis using admission_follows_store [of _ _ "''a''" "''b''"] by blast
qed

text \<open>A plus sign of the Base64 text that is not percent-quoted reaches the decoder as a space, which it
  skips: such a client is refused although its credentials are good.\<close>

theorem plus_in_query_refused:
  "b64 ''a:>'' = ''YTo+'' \<and> client_credentials ''/?authorization=YTo+'' [] = None
     \<and> client_credentials ''/'' ''Basic YTo+'' = Some (''a'', ''>'')"
  by code_simp

end
