(* ===== verification/Loopback_Clients.thy ===== *)
theory Loopback_Clients
  imports Message_Recorder
begin

text \<open>
  The client handlers of \<open>LoopbackNetworkProtocol\<close> in \<open>hivescope/plugins/loopback.py\<close>, from admission to
  cleanup: the queue that carries messages to a socket, the loop that hands inbound frames to the listener
  protocol, the collections \<open>_clients\<close>, \<open>_sockets\<close> and \<open>_handler_tasks\<close>, and what \<open>stop\<close> does to them.

  The listener protocol is \<open>HiveMindListenerProtocol\<close> of hivemind-core: its state has the type \<open>'p\<close>, and
  what it does with a new client, a frame and a client that is gone are arguments, each of which may raise.
  A handler is a number; it stands for its connection object, its socket and its task.
\<close>

section \<open>The sender\<close>

datatype 'm out_item = Message 'm | Disconnect int string

text \<open>\<open>message_sender\<close> on the queued items: what it sends, and the code and reason it closes the socket with,
  or \<open>None\<close> while it waits for more. \<open>sendable\<close> says which sends succeed.\<close>

fun message_sender :: "('m \<Rightarrow> bool) \<Rightarrow> 'm out_item list \<Rightarrow> 'm list \<times> (int \<times> string) option" where
  "message_sender sendable [] = ([], None)"
| "message_sender sendable (Message m # q) =
     (if sendable m then (let (sent, end) = message_sender sendable q in (m # sent, end)) else ([], Some (1000, [])))"
| "message_sender sendable (Disconnect code reason # q) = ([], Some (code, reason))"

section \<open>Inbound frames\<close>

text \<open>What a handler calls on the listener protocol: \<open>handle_new_client\<close>, \<open>decode\<close> and \<open>handle_message\<close> on a
  frame, and \<open>handle_client_disconnected\<close>.\<close>

record ('f, 'p) listener =
  on_new :: "nat \<Rightarrow> 'p \<Rightarrow> py_exn option \<times> 'p"
  on_frame :: "nat \<Rightarrow> 'f \<Rightarrow> 'p \<Rightarrow> py_exn option \<times> 'p"
  on_gone :: "nat \<Rightarrow> 'p \<Rightarrow> py_exn option \<times> 'p"

text \<open>One frame: \<open>decode\<close> and \<open>handle_message\<close> in one \<open>try\<close>. Any exception is recorded as \<open>_decode_error\<close>
  when there is a recorder.\<close>

definition error_entry :: "(py_exn \<Rightarrow> string) \<Rightarrow> string \<Rightarrow> string \<Rightarrow> py_exn \<Rightarrow> int \<Rightarrow> recorded_message" where
  "error_entry show_exn name conn_peer e now =
     mk_record ''in'' ''_decode_error'' (PDict [(''error'', PStr (show_exn e)), (''client'', PStr name)]) conn_peer now"

definition receive_frame :: "(py_exn \<Rightarrow> string) \<Rightarrow> ('f \<Rightarrow> 'p \<Rightarrow> py_exn option \<times> 'p) \<Rightarrow>
    string \<Rightarrow> string \<Rightarrow>
    'f \<Rightarrow> 'p \<times> recorder option \<Rightarrow> 'p \<times> recorder option" where
  "receive_frame show_exn handle name conn_peer frm s =
     (case s of (p, rc) \<Rightarrow>
        (case handle frm p of
           (None, p') \<Rightarrow> (p', rc)
         | (Some e, p') \<Rightarrow> (p', map_option (\<lambda>r. rec_record (error_entry show_exn name conn_peer e (clock r)) r) rc)))"

definition receive_frames :: "(py_exn \<Rightarrow> string) \<Rightarrow> ('f \<Rightarrow> 'p \<Rightarrow> py_exn option \<times> 'p) \<Rightarrow>
    string \<Rightarrow> string \<Rightarrow>
    'f list \<Rightarrow> 'p \<times> recorder option \<Rightarrow> 'p \<times> recorder option" where
  "receive_frames show_exn handle name conn_peer frms s = fold (receive_frame show_exn handle name conn_peer) frms s"

section \<open>Life cycle of a handler\<close>

text \<open>\<open>lc_running\<close> is the set of handlers whose coroutine has not ended; no code reads it.\<close>

record 'p loop_clients =
  lc_clients :: "nat list"
  lc_sockets :: "nat set"
  lc_tasks :: "nat set"
  lc_protocol :: 'p
  lc_running :: "nat set"
  lc_next :: nat

text \<open>The \<open>finally\<close> block: an exception of \<open>handle_client_disconnected\<close> leaves the collections as they are.\<close>

definition client_close :: "('f, 'p) listener \<Rightarrow> nat \<Rightarrow> 'p loop_clients \<Rightarrow> 'p loop_clients" where
  "client_close ls c s =
     (let (e, p) = on_gone ls c (lc_protocol s);
          s1 = s\<lparr>lc_protocol := p, lc_running := lc_running s - {c}\<rparr> in
      if e \<noteq> None then s1
      else s1\<lparr>lc_clients := remove1 c (lc_clients s), lc_sockets := lc_sockets s - {c}, lc_tasks := lc_tasks s - {c}\<rparr>)"

definition client_open :: "('f, 'p) listener \<Rightarrow> 'p loop_clients \<Rightarrow> 'p loop_clients" where
  "client_open ls s =
     (let c = lc_next s;
          (e, p) = on_new ls c (lc_protocol s);
          s1 = s\<lparr>lc_clients := lc_clients s @ [c], lc_sockets := insert c (lc_sockets s),
                 lc_tasks := insert c (lc_tasks s), lc_protocol := p,
                 lc_running := insert c (lc_running s), lc_next := c + 1\<rparr> in
      if e \<noteq> None then client_close ls c s1 else s1)"

text \<open>\<open>stop\<close>: the handlers in \<open>ended\<close>, in that order, run their \<open>finally\<close> block before the loop is down.\<close>

definition drain_clients :: "('f, 'p) listener \<Rightarrow> nat list \<Rightarrow> 'p loop_clients \<Rightarrow> 'p loop_clients" where
  "drain_clients ls ended s = fold (client_close ls) ended s"

definition stop_clients :: "('f, 'p) listener \<Rightarrow> nat list \<Rightarrow> 'p loop_clients \<Rightarrow> 'p loop_clients" where
  "stop_clients ls ended s =
     (drain_clients ls ended s)\<lparr>lc_clients := [], lc_sockets := {}, lc_tasks := {}\<rparr>"

inductive loop_step :: "('f, 'p) listener \<Rightarrow> 'p loop_clients \<Rightarrow> 'p loop_clients \<Rightarrow> bool" for ls where
  ls_open: "loop_step ls s (client_open ls s)"
| ls_frames: "c \<in> lc_running s \<Longrightarrow> loop_step ls s (s\<lparr>lc_protocol := snd (on_frame ls c frm (lc_protocol s))\<rparr>)"
| ls_close: "c \<in> lc_running s \<Longrightarrow> loop_step ls s (client_close ls c s)"
| ls_stop: "distinct ended \<Longrightarrow> set ended \<subseteq> lc_running s \<Longrightarrow> loop_step ls s (stop_clients ls ended s)"

definition no_clients :: "'p \<Rightarrow> 'p loop_clients" where
  "no_clients p = \<lparr>lc_clients = [], lc_sockets = {}, lc_tasks = {}, lc_protocol = p, lc_running = {}, lc_next = 0\<rparr>"

section \<open>Bookkeeping\<close>

definition lc_inv :: "'p loop_clients \<Rightarrow> bool" where
  "lc_inv s \<longleftrightarrow> distinct (lc_clients s) \<and> set (lc_clients s) = lc_tasks s \<and> lc_sockets s = lc_tasks s
     \<and> (\<forall>c \<in> lc_tasks s \<union> lc_running s. c < lc_next s)"

lemma lc_inv_close: "lc_inv s \<Longrightarrow> lc_inv (client_close ls c s)"
  by (auto simp: lc_inv_def client_close_def Let_def split: prod.splits)

lemma lc_inv_drain: "lc_inv s \<Longrightarrow> lc_inv (drain_clients ls ended s)"
  by (induction ended arbitrary: s) (simp_all add: drain_clients_def lc_inv_close)

lemma lc_inv_open:
  assumes "lc_inv s"
  shows "lc_inv (client_open ls s)"
proof -
  have "lc_inv (s\<lparr>lc_clients := lc_clients s @ [lc_next s], lc_sockets := insert (lc_next s) (lc_sockets s),
      lc_tasks := insert (lc_next s) (lc_tasks s), lc_protocol := p,
      lc_running := insert (lc_next s) (lc_running s), lc_next := lc_next s + 1\<rparr>)" for p
    using assms by (auto simp: lc_inv_def less_Suc_eq)
  then show ?thesis by (auto simp: client_open_def Let_def lc_inv_close split: prod.splits)
qed

lemma lc_inv_step: "loop_step ls s t \<Longrightarrow> lc_inv s \<Longrightarrow> lc_inv t"
proof (induction rule: loop_step.induct)
  case (ls_stop ended s)
  from lc_inv_drain [OF ls_stop.prems, of ls ended] show ?case by (simp add: lc_inv_def stop_clients_def)
qed (simp_all add: lc_inv_open lc_inv_close, simp add: lc_inv_def)

interpretation lc: kept_invariant "\<lambda>s. \<exists>p. s = no_clients p" "loop_step ls" lc_inv for ls
proof unfold_locales
  fix s t :: "'p loop_clients"
  show "\<exists>p. s = no_clients p \<Longrightarrow> lc_inv s" by (auto simp: no_clients_def lc_inv_def)
  show "loop_step ls s t \<Longrightarrow> lc_inv s \<Longrightarrow> lc_inv t" for ls :: "('f, 'p) listener" by (rule lc_inv_step)
qed

text \<open>The documented contract of the listener: \<open>clients\<close> gains at most the new client, a frame adds none, and
  a client that is gone is not in it; with \<open>silent\<close>, \<open>handle_client_disconnected\<close> does not raise.\<close>

definition keeps_peers :: "('f, 'p) listener \<Rightarrow> ('p \<Rightarrow> nat set) \<Rightarrow> bool" where
  "keeps_peers ls peers \<longleftrightarrow> (\<forall>c p. peers (snd (on_new ls c p)) \<subseteq> insert c (peers p)
     \<and> (\<forall>frm. peers (snd (on_frame ls c frm p)) \<subseteq> peers p) \<and> peers (snd (on_gone ls c p)) \<subseteq> peers p - {c})"

lemma keeps_peersD:
  assumes "keeps_peers ls peers"
  shows "peers (snd (on_new ls c p)) \<subseteq> insert c (peers p)" and "peers (snd (on_frame ls c frm p)) \<subseteq> peers p"
    and "peers (snd (on_gone ls c p)) \<subseteq> peers p - {c}"
  using assms by (auto simp: keeps_peers_def)

definition silent :: "('f, 'p) listener \<Rightarrow> bool" where
  "silent ls \<longleftrightarrow> (\<forall>c p. fst (on_gone ls c p) = None)"

definition live_inv :: "('f, 'p) listener \<Rightarrow> ('p \<Rightarrow> nat set) \<Rightarrow> 'p loop_clients \<Rightarrow> bool" where
  "live_inv ls peers s \<longleftrightarrow> (keeps_peers ls peers \<longrightarrow> peers (lc_protocol s) \<subseteq> lc_running s)
     \<and> (silent ls \<longrightarrow> lc_tasks s \<subseteq> lc_running s)"

lemma close_facts:
  "lc_running (client_close ls c s) = lc_running s - {c}"
  "lc_protocol (client_close ls c s) = snd (on_gone ls c (lc_protocol s))"
  "silent ls \<Longrightarrow> lc_tasks (client_close ls c s) = lc_tasks s - {c}"
  by (auto simp: client_close_def Let_def silent_def split: prod.splits) (metis fst_conv option.simps(3))

lemma live_inv_close: "live_inv ls peers s \<Longrightarrow> live_inv ls peers (client_close ls c s)"
  using keeps_peersD(3) [of ls peers] unfolding live_inv_def close_facts by (auto simp: close_facts)

lemma live_inv_drain: "live_inv ls peers s \<Longrightarrow> live_inv ls peers (drain_clients ls ended s)"
  by (induction ended arbitrary: s) (simp_all add: drain_clients_def live_inv_close)

lemma drain_running: "lc_running (drain_clients ls ended s) = lc_running s - set ended"
  by (induction ended arbitrary: s) (auto simp: drain_clients_def close_facts)

lemma live_inv_open:
  assumes "live_inv ls peers s"
  shows "live_inv ls peers (client_open ls s)"
proof -
  have "live_inv ls peers (s\<lparr>lc_clients := lc_clients s @ [lc_next s], lc_sockets := insert (lc_next s) (lc_sockets s),
      lc_tasks := insert (lc_next s) (lc_tasks s), lc_protocol := snd (on_new ls (lc_next s) (lc_protocol s)),
      lc_running := insert (lc_next s) (lc_running s), lc_next := lc_next s + 1\<rparr>)"
    using assms keeps_peersD(1) [of ls peers "lc_next s" "lc_protocol s"] by (auto simp: live_inv_def)
  then show ?thesis by (auto simp: client_open_def Let_def live_inv_close split: prod.splits)
qed

lemma live_inv_step: "loop_step ls s t \<Longrightarrow> live_inv ls peers s \<Longrightarrow> live_inv ls peers t"
proof (induction rule: loop_step.induct)
  case (ls_stop ended s)
  from live_inv_drain [OF ls_stop.prems, of ended] show ?case by (simp add: live_inv_def stop_clients_def)
next
  case (ls_frames c s frm)
  with keeps_peersD(2) [of ls peers c frm "lc_protocol s"] show ?case by (auto simp: live_inv_def)
qed (simp_all add: live_inv_open live_inv_close)

interpretation lv: kept_invariant "\<lambda>s. \<exists>p. s = no_clients p \<and> peers p = {}" "loop_step ls" "live_inv ls peers" for ls peers
proof unfold_locales
  fix s t
  show "\<exists>p. s = no_clients p \<and> peers p = {} \<Longrightarrow> live_inv ls peers s" for ls :: "('f, 'p) listener" and peers
    by (auto simp: no_clients_def live_inv_def)
  show "loop_step ls s t \<Longrightarrow> live_inv ls peers s \<Longrightarrow> live_inv ls peers t" for ls :: "('f, 'p) listener" and peers
    by (rule live_inv_step)
qed

section \<open>Properties\<close>

text \<open>C35: Whatever is queued, the sender sends the messages in order up to the first one the socket refuses or
  the first disconnect, and nothing after it; it closes with the code of that disconnect when all messages
  before it were sent, and with 1000 otherwise. With the disconnect that the handler queues last, it always
  closes.\<close>

theorem sender_keeps_order_and_closes:
  "message_sender sendable (map Message ms @ Disconnect code reason # q) =
     (takeWhile sendable ms, Some (if list_all sendable ms then (code, reason) else (1000, [])))
   \<and> snd (message_sender sendable (q @ [Disconnect 1000 []])) \<noteq> None"
proof
  show "message_sender sendable (map Message ms @ Disconnect code reason # q) =
     (takeWhile sendable ms, Some (if list_all sendable ms then (code, reason) else (1000, [])))"
    by (induction ms) simp_all
  show "snd (message_sender sendable (q @ [Disconnect 1000 []])) \<noteq> None"
    by (induction sendable q rule: message_sender.induct) (auto split: prod.splits)
qed

text \<open>The exceptions that a list of frames raises, each frame seeing the state its predecessors left.\<close>

fun frame_errors :: "('f \<Rightarrow> 'p \<Rightarrow> py_exn option \<times> 'p) \<Rightarrow> 'f list \<Rightarrow> 'p \<Rightarrow> py_exn list" where
  "frame_errors handle [] p = []"
| "frame_errors handle (frm # frms) p =
     (case fst (handle frm p) of None \<Rightarrow> [] | Some e \<Rightarrow> [e]) @ frame_errors handle frms (snd (handle frm p))"

text \<open>C34: A frame that raises stops nothing: every inbound frame reaches the listener protocol exactly once, in
  order, and the recorder of the master gets one \<open>_decode_error\<close> record per exception, in order, and nothing
  else. Without a recorder the protocol sees the same.\<close>

theorem bad_frames_do_not_stop_handler:
  "\<exists>r'. receive_frames show_exn handle name conn_peer frms (p, Some r) =
      (fold (\<lambda>frm p. snd (handle frm p)) frms p, Some r')
    \<and> records r' = records r @ map (\<lambda>e. error_entry show_exn name conn_peer e (clock r)) (frame_errors handle frms p)
    \<and> fst (receive_frames show_exn handle name conn_peer frms (p, None)) = fold (\<lambda>frm p. snd (handle frm p)) frms p"
proof (induction frms arbitrary: p r)
  case Nil
  then show ?case by (simp add: receive_frames_def)
next
  case (Cons frm frms)
  obtain e p' where h: "handle frm p = (e, p')" by (cases "handle frm p")
  let ?r = "case e of None \<Rightarrow> r | Some x \<Rightarrow> rec_record (error_entry show_exn name conn_peer x (clock r)) r"
  have "receive_frame show_exn handle name conn_peer frm (p, Some r) = (p', Some ?r)"
    "receive_frame show_exn handle name conn_peer frm (p, None) = (p', None)"
    by (simp_all add: receive_frame_def h split: option.split)
  moreover have "clock ?r = clock r"
    "records ?r = records r @ (case e of None \<Rightarrow> [] | Some x \<Rightarrow> [error_entry show_exn name conn_peer x (clock r)])"
    by (simp_all add: rec_record_def split: option.split)
  ultimately show ?case using Cons.IH [of p' ?r] h
    by (auto simp: receive_frames_def split: option.split)
qed

text \<open>C33: In every history of connections, frames, disconnections and stops, the three collections of a loopback
  network agree and hold each handler once; while \<open>handle_client_disconnected\<close> does not raise they hold only
  handlers that still run.\<close>

theorem client_collections_agree:
  assumes "reaches (loop_step ls) (no_clients p) s"
  shows "distinct (lc_clients s) \<and> set (lc_clients s) = lc_tasks s \<and> lc_sockets s = lc_tasks s
    \<and> (silent ls \<longrightarrow> lc_tasks s \<subseteq> lc_running s)"
proof -
  have "lc_inv s" by (rule lc.inv_reachable [OF _ assms]) (rule exI, rule refl)
  moreover have "live_inv ls (\<lambda>_. {}) s" by (rule lv.inv_reachable [OF _ assms]) (rule exI [of _ p], simp)
  ultimately show ?thesis by (simp add: lc_inv_def live_inv_def)
qed


text \<open>A listener that keeps a set of clients, for the concrete runs.\<close>

definition set_listener :: "(unit, nat set) listener" where
  "set_listener = \<lparr>on_new = (\<lambda>c p. (None, insert c p)), on_frame = (\<lambda>c frm p. (None, p)), on_gone = (\<lambda>c p. (None, p - {c}))\<rparr>"

theorem client_collections_agree_witness:
  "lc_clients (client_open set_listener (client_open set_listener (no_clients {}))) = [0, 1]
   \<and> lc_tasks (client_open set_listener (client_open set_listener (no_clients {}))) = {0, 1}"
proof -
  let ?s = "client_open set_listener (client_open set_listener (no_clients {}))"
  have "reaches (loop_step set_listener) (no_clients {}) ?s"
    by (rule reaches_step [OF reaches_one]) (rule ls_open)+
  from client_collections_agree [OF this] show ?thesis
    by (simp add: client_open_def set_listener_def no_clients_def insert_commute)
qed


text \<open>An exception of \<open>handle_client_disconnected\<close> leaves the ended handler in all three collections.\<close>

theorem raising_disconnect_leaks_client:
  "let ls = set_listener\<lparr>on_gone := (\<lambda>c p. (Some RuntimeError, p))\<rparr>;
       s = client_close ls 0 (client_open ls (no_clients {}))
   in lc_running s = {} \<and> lc_clients s = [0] \<and> lc_sockets s = {0} \<and> lc_tasks s = {0}"
  by (simp add: client_close_def client_open_def set_listener_def no_clients_def)

end
