(* ===== verification/Loopback_Service.thy ===== *)
theory Loopback_Service
  imports Loopback_Server Loopback_Credentials Loopback_Clients
begin

text \<open>
  One \<open>LoopbackNetworkProtocol\<close> instance as a whole: its server among the other instances of the process,
  the client store of its master, the connections it has admitted and their handlers. Clients come and go
  while the test thread edits the store and runs and stops the instances.
\<close>

section \<open>State and operations\<close>

record 'p service =
  sc_net :: net_world
  sc_db :: client_db
  sc_clients :: "'p loop_clients"
  sc_conns :: "nat \<Rightarrow> loop_conn option"

text \<open>\<open>_handle_client\<close> for a request: refused, or admitted with a connection of its own.\<close>

definition handle_client :: "('f, 'p) listener \<Rightarrow> string \<Rightarrow> string \<Rightarrow> 'p service \<Rightarrow> admission \<times> 'p service" where
  "handle_client ls path header s =
     (let a = admit True (sc_db s) path header in
      case a of
        Refuse code reason \<Rightarrow> (a, s)
      | Admit k \<Rightarrow> (a, s\<lparr>sc_conns := (sc_conns s)(lc_next (sc_clients s) := Some k),
                         sc_clients := client_open ls (sc_clients s)\<rparr>))"

text \<open>\<open>stop\<close>: the clients are drained and forgotten, the server is taken down.\<close>

definition service_stop :: "('f, 'p) listener \<Rightarrow> nat \<Rightarrow> nat list \<Rightarrow> bool \<Rightarrow> 'p service \<Rightarrow> 'p service" where
  "service_stop ls i ended joined s =
     s\<lparr>sc_clients := stop_clients ls ended (sc_clients s), sc_net := lb_stop joined i (sc_net s)\<rparr>"

inductive service_step :: "('f, 'p) listener \<Rightarrow> nat \<Rightarrow> 'p service \<Rightarrow> 'p service \<Rightarrow> bool" for ls i where
  ss_store: "db_step (sc_db s) db \<Longrightarrow> service_step ls i s (s\<lparr>sc_db := db\<rparr>)"
| ss_run: "service_step ls i s (s\<lparr>sc_net := snd (lb_run config_error boot i (sc_net s))\<rparr>)"
| ss_others: "net_step (sc_net s) w \<Longrightarrow> nw_servers w i = nw_servers (sc_net s) i \<Longrightarrow>
    service_step ls i s (s\<lparr>sc_net := w\<rparr>)"
| ss_connect: "i \<in> nw_alive (sc_net s) \<Longrightarrow> service_step ls i s (snd (handle_client ls path header s))"
| ss_frame: "c \<in> lc_running (sc_clients s) \<Longrightarrow> service_step ls i s (s\<lparr>sc_clients :=
    (sc_clients s)\<lparr>lc_protocol := snd (on_frame ls c frm (lc_protocol (sc_clients s)))\<rparr>\<rparr>)"
| ss_close: "c \<in> lc_running (sc_clients s) \<Longrightarrow>
    service_step ls i s (s\<lparr>sc_clients := client_close ls c (sc_clients s)\<rparr>)"
| ss_stop: "joined \<or> i \<in> nw_alive (sc_net s) \<Longrightarrow> distinct ended \<Longrightarrow> set ended \<subseteq> lc_running (sc_clients s) \<Longrightarrow>
    service_step ls i s (service_stop ls i ended joined s)"

definition new_service :: "(nat \<Rightarrow> int) \<Rightarrow> int option \<Rightarrow> client_db \<Rightarrow> 'p \<Rightarrow> 'p service" where
  "new_service floor config db p = \<lparr>sc_net = new_net floor config, sc_db = db, sc_clients = no_clients p,
     sc_conns = (\<lambda>_. None)\<rparr>"

section \<open>Its parts run as they do alone\<close>

lemma service_net: "service_step ls i s t \<Longrightarrow> sc_net t = sc_net s \<or> net_step (sc_net s) (sc_net t)"
  by (induction rule: service_step.induct)
    (auto simp: handle_client_def service_stop_def Let_def intro: net_step.intros split: admission.splits)

lemma service_clients: "service_step ls i s t \<Longrightarrow>
    sc_clients t = sc_clients s \<or> loop_step ls (sc_clients s) (sc_clients t)"
  by (induction rule: service_step.induct)
    (auto simp: handle_client_def service_stop_def Let_def intro: loop_step.intros split: admission.splits)

lemma service_store: "service_step ls i s t \<Longrightarrow> sc_db t = sc_db s \<or> db_step (sc_db s) (sc_db t)"
  by (induction rule: service_step.induct)
    (auto simp: handle_client_def service_stop_def Let_def split: admission.splits)

lemma projected_run:
  assumes "reaches step s t" and "\<And>u v. step u v \<Longrightarrow> f v = f u \<or> step' (f u) (f v)"
  shows "reaches step' (f s) (f t)"
  using assms by (induction rule: reaches.induct) (auto intro: reaches.reaches_step, metis reaches.reaches_step)

lemma service_projections:
  assumes "reaches (service_step ls i) s t"
  shows "reaches (loop_step ls) (sc_clients s) (sc_clients t)" and "reaches net_step (sc_net s) (sc_net t)"
  using projected_run [where f = sc_clients and step' = "loop_step ls", OF assms service_clients]
    projected_run [where f = sc_net and step' = net_step, OF assms service_net] by simp_all

section \<open>Every live client was registered\<close>

text \<open>The connection carries what some state of the store between \<open>db0\<close> and now held under its key.\<close>

definition registered_in :: "client_db \<Rightarrow> client_db \<Rightarrow> loop_conn \<Rightarrow> bool" where
  "registered_in db0 db k \<longleftrightarrow> lp_name k \<noteq> [] \<and> lp_key k \<noteq> [] \<and> (\<exists>db' row.
     reaches db_step db0 db' \<and> reaches db_step db' db \<and> get_client_by_api_key db' (lp_key k) = Some row
     \<and> k = loop_connection (lp_name k) (lp_key k) row)"

definition same_permissions :: "loop_conn \<Rightarrow> client \<Rightarrow> bool" where
  "same_permissions k row \<longleftrightarrow> lp_admin k = is_admin row \<and> lp_can_escalate k = can_escalate row
     \<and> lp_can_propagate k = can_propagate row \<and> lp_can_broadcast k = can_broadcast row
     \<and> lp_allowed_types k = allowed_types row"

lemma loop_connection_permissions: "same_permissions (loop_connection n key row) row"
  by (simp add: same_permissions_def loop_connection_def)

lemma registered_inD:
  assumes "registered_in db0 db k"
  shows "\<exists>db' row. lp_name k \<noteq> [] \<and> lp_key k \<noteq> [] \<and> reaches db_step db0 db' \<and> reaches db_step db' db
    \<and> get_client_by_api_key db' (lp_key k) = Some row \<and> same_permissions k row"
  using assms loop_connection_permissions unfolding registered_in_def by metis

lemma registered_later: "registered_in db0 db k \<Longrightarrow> reaches db_step db db2 \<Longrightarrow> registered_in db0 db2 k"
  unfolding registered_in_def by (blast intro: reaches_trans)

lemma admitted_is_registered:
  assumes "admit True db path header = Admit k" and "reaches db_step db0 db"
  shows "registered_in db0 db k"
proof -
  obtain n key row where c: "client_credentials path header = Some (n, key)"
    "get_client_by_api_key db key = Some row" "k = loop_connection n key row"
    using assms(1) by (auto simp: admit_def split: option.splits)
  from c(1) have "n \<noteq> []" "key \<noteq> []"
    by (auto simp: client_credentials_def Let_def split: prod.splits if_splits)
  with c assms(2) show ?thesis
    by (auto simp: registered_in_def loop_connection_def intro: reaches_refl)
qed

definition tracked :: "'p loop_clients \<Rightarrow> nat set" where
  "tracked s = lc_tasks s \<union> lc_running s"

lemma tracked_close: "tracked (client_close ls c s) \<subseteq> tracked s"
  by (auto simp: tracked_def client_close_def Let_def split: prod.splits if_splits)

lemma tracked_drain: "tracked (drain_clients ls ended s) \<subseteq> tracked s"
proof (induction ended arbitrary: s)
  case (Cons c ended)
  then show ?case using tracked_close [of ls c s] by (force simp: drain_clients_def)
qed (simp add: drain_clients_def)

lemma tracked_stop: "tracked (stop_clients ls ended s) \<subseteq> tracked s"
  using tracked_drain [of ls ended s] by (auto simp: tracked_def stop_clients_def)

lemma tracked_open: "tracked (client_open ls s) \<subseteq> insert (lc_next s) (tracked s)"
proof -
  obtain e p where n: "on_new ls (lc_next s) (lc_protocol s) = (e, p)" by fastforce
  let ?s = "s\<lparr>lc_clients := lc_clients s @ [lc_next s], lc_sockets := insert (lc_next s) (lc_sockets s),
    lc_tasks := insert (lc_next s) (lc_tasks s), lc_protocol := p, lc_running := insert (lc_next s) (lc_running s),
    lc_next := lc_next s + 1\<rparr>"
  have "client_open ls s = (if e \<noteq> None then client_close ls (lc_next s) ?s else ?s)"
    by (simp add: client_open_def n Let_def)
  then show ?thesis using tracked_close [of ls "lc_next s" ?s] by (auto simp: tracked_def)
qed

definition service_inv :: "client_db \<Rightarrow> 'p service \<Rightarrow> bool" where
  "service_inv db0 s \<longleftrightarrow> reaches db_step db0 (sc_db s)
     \<and> (\<forall>c \<in> tracked (sc_clients s). \<exists>k. sc_conns s c = Some k \<and> registered_in db0 (sc_db s) k)"

lemma service_inv_step:
  assumes "service_step ls i s t" and "service_inv db0 s"
  shows "service_inv db0 t"
  using assms
proof (induction rule: service_step.induct)
  case (ss_store s db)
  then have "registered_in db0 (sc_db s) k \<Longrightarrow> registered_in db0 db k" for k
    by (auto intro: registered_later reaches_one)
  with ss_store show ?case
    by (fastforce simp: service_inv_def intro: reaches_step)
next
  case (ss_connect s path header)
  show ?case
  proof (cases "admit True (sc_db s) path header")
    case (Admit k)
    with ss_connect.prems have "registered_in db0 (sc_db s) k"
      by (auto simp: service_inv_def intro: admitted_is_registered)
    with Admit ss_connect.prems tracked_open [of ls "sc_clients s"] show ?thesis
      by (auto simp: service_inv_def handle_client_def)
  qed (use ss_connect.prems in \<open>simp add: handle_client_def\<close>)
next
  case (ss_close c s)
  with tracked_close [of ls c "sc_clients s"] show ?case by (auto simp: service_inv_def)
next
  case (ss_stop joined s ended)
  with tracked_stop [of ls ended "sc_clients s"] show ?case by (auto simp: service_inv_def service_stop_def)
qed (simp_all add: service_inv_def tracked_def)

interpretation si: kept_invariant "\<lambda>s. \<exists>floor config p. s = new_service floor config db0 p" "service_step ls i"
    "service_inv db0" for db0 ls i
proof unfold_locales
  fix s t :: "'p service" and ls :: "('f, 'p) listener"
  show "\<exists>floor config p. s = new_service floor config db0 p \<Longrightarrow> service_inv db0 s"
    by (auto simp: service_inv_def new_service_def no_clients_def tracked_def intro: reaches_refl)
  show "service_step ls i s t \<Longrightarrow> service_inv db0 s \<Longrightarrow> service_inv db0 t" by (rule service_inv_step)
qed

section \<open>Properties\<close>


text \<open>A store with one client, the server started, and that client connected.\<close>

definition example_client :: add_args where
  "example_client = \<lparr>a_name = ''a'', a_key = ''b'', a_admin = True, a_intent_blacklist = None,
     a_skill_blacklist = None, a_message_blacklist = None, a_allowed_types = None, a_password = None,
     a_can_escalate = True, a_can_propagate = False, a_can_broadcast = True\<rparr>"

definition example_service :: "nat set service" where
  "example_service = snd (handle_client set_listener ''/?authorization=YTpi'' []
     (let s = new_service (\<lambda>_. 1) None (snd (add_client example_client new_db)) {} in
      s\<lparr>sc_net := snd (lb_run None (Bound [8]) 0 (sc_net s))\<rparr>))"


end
