(* ===== verification/Loopback_Hive.thy ===== *)
theory Loopback_Hive
  imports Topology_Builder
begin

text \<open>
  Hives with masters made by \<open>add_master(name, use_loopback=True)\<close>: the composition of
  \<open>Topology_Builder\<close> with the servers of \<open>Loopback_Server\<close>. \<open>start_all\<close> brings the servers up before
  it connects any satellite, and \<open>stop_all\<close> takes them down after the satellites are gone; in between lies
  a test. The lemmas follow the instances of the builder, and those of other hives in the same process, through
  both calls.
\<close>

section \<open>The loopback masters of a list\<close>

definition looped :: "'t hive \<Rightarrow> nat list \<Rightarrow> nat set" where
  "looped w ms = {m \<in> set ms. networks w m = Loopback}"

lemma looped_simps [simp]:
  "looped w [] = {}"
  "looped w (m # ms) = (if networks w m = Loopback then insert m (looped w ms) else looped w ms)"
  "looped (w\<lparr>nets := n\<rparr>) ms = looped w ms"
  by (auto simp: looped_def)

text \<open>Outside the instances in \<open>L\<close> nothing has changed.\<close>

definition others_same :: "nat set \<Rightarrow> net_world \<Rightarrow> net_world \<Rightarrow> bool" where
  "others_same L n n' \<longleftrightarrow> (\<forall>k. k \<notin> L \<longrightarrow> nw_servers n' k = nw_servers n k
     \<and> dget (nw_floors n') k = dget (nw_floors n) k \<and> (k \<in> nw_alive n' \<longleftrightarrow> k \<in> nw_alive n))"

lemma others_same_refl [simp]: "others_same L n n"
  by (simp add: others_same_def)

lemma others_same_trans: "others_same L m n \<Longrightarrow> others_same L n k \<Longrightarrow> others_same L m k"
  by (simp add: others_same_def)

lemma others_same_mono: "others_same K n n' \<Longrightarrow> K \<subseteq> L \<Longrightarrow> others_same L n n'"
  by (auto simp: others_same_def)

lemma run_others_same: "others_same {i} n (snd (lb_run ce boot i n))"
  by (cases boot) (auto simp: others_same_def lb_run_def start_defs dict_simps)

lemma stop_others_same: "others_same {i} n (lb_stop joined i n)"
  by (auto simp: others_same_def lb_stop_def Let_def dict_simps)

lemma servers_others_same:
  assumes "servers_up co ms w = (r, w1)"
  shows "others_same (looped w ms) (nets w) (nets w1)"
  using assms
proof (induction ms arbitrary: w)
  case (Cons m ms)
  obtain ce boot q n where run: "core_server co m w = (ce, boot)" "lb_run ce boot m (nets w) = (q, n)"
    by fastforce
  have "others_same {m} (nets w) n" using run_others_same [of m "nets w" ce boot] run(2) by simp
  moreover have "others_same (looped w ms) n (nets w1)" if "servers_up co ms (w\<lparr>nets := n\<rparr>) = (r, w1)"
    using Cons.IH [OF that] by simp
  ultimately show ?case
    using Cons.IH [of w] Cons.prems run
    by (cases "networks w m") (auto split: sum.splits intro: others_same_trans elim: others_same_mono)
qed simp

lemma stopped_others_same: "others_same {m \<in> set ms. kind m = Loopback} n (nets_stopped joined kind ms n)"
proof (induction ms arbitrary: n)
  case (Cons m ms)
  show ?case
  proof (cases "kind m")
    case Loopback
    let ?n = "lb_stop (joined m) m n"
    have "others_same {m} n ?n" by (rule stop_others_same)
    with Cons.IH [of ?n] Loopback show ?thesis
      by (auto intro: others_same_trans elim: others_same_mono)
  next
    case In_Process
    then have "nets_stopped joined kind (m # ms) n = nets_stopped joined kind ms n" by simp
    with others_same_mono [OF Cons.IH, of _ n] show ?thesis by (simp add: Collect_mono)
  qed
qed simp

section \<open>Bringing the servers up\<close>

lemma servers_none: "looped w ms = {} \<Longrightarrow> servers_up co ms w = (Inr (), w)"
proof (induction ms)
  case (Cons m ms)
  then show ?case by (cases "networks w m") simp_all
qed simp

text \<open>Instances that can be started together: not in use, of one floor, which every registered instance shares.\<close>

definition startable :: "int \<Rightarrow> nat set \<Rightarrow> net_world \<Rightarrow> bool" where
  "startable f L n \<longleftrightarrow> (\<forall>m \<in> L. sv_floor (nw_servers n m) = f \<and> \<not> sv_thread (nw_servers n m)
       \<and> \<not> sv_broken (nw_servers n m))
     \<and> dict_ok (nw_floors n) \<and> (\<forall>k g. dget (nw_floors n) k = Some g \<longrightarrow> g = f)"

definition serves :: "(nat \<Rightarrow> nat) \<Rightarrow> int \<Rightarrow> nat \<Rightarrow> net_world \<Rightarrow> bool" where
  "serves port f m n \<longleftrightarrow> server_url (nw_servers n m) = Inr (url_of_port (port m))
     \<and> dget (nw_floors n) m = Some f \<and> m \<in> nw_alive n"

lemma no_conflict_of_one_floor:
  assumes "startable f L n" and "m \<in> L"
  shows "conflicts m n = []"
  using assms
  by (auto simp: startable_def conflicts_def filter_empty_conv dget_def dict_ok_def map_of_eq_Some_iff)

lemma startable_run:
  assumes "startable f L n" and "m \<in> L" and "lb_run None (Bound (p # ps)) m n = (r, n')"
  shows "r = Inr () \<and> startable f (L - {m}) n' \<and> serves (\<lambda>_. p) f m n' \<and> nw_config n' = Some f"
proof -
  have m: "\<not> sv_broken (nw_servers n m)" "\<not> sv_thread (nw_servers n m)" "sv_floor (nw_servers n m) = f"
    "dict_ok (nw_floors n)" using assms(1,2) by (auto simp: startable_def)
  have "r = Inr ()" "n' = server_thread (Bound (p # ps)) m (register_run m n)"
    using run_started(1) [OF m(1,2) no_conflict_of_one_floor [OF assms(1,2)] refl, of "p # ps"] assms(3)
    by simp_all
  with assms(1) m(3,4) show ?thesis
    by (auto simp: startable_def serves_def start_defs server_url_def dict_simps pd.good_store)
qed

text \<open>The server socket of every loopback master binds.\<close>

definition servers_bind :: "'t core \<Rightarrow> (nat \<Rightarrow> nat) \<Rightarrow> bool" where
  "servers_bind co port \<longleftrightarrow> (\<forall>m w. \<exists>ps. core_server co m w = (None, Bound (port m # ps)))"

lemma serves_same: "others_same L n n' \<Longrightarrow> m \<notin> L \<Longrightarrow> serves port f m n' = serves port f m n"
  by (simp add: serves_def others_same_def)

lemma servers_come_up:
  assumes "servers_bind co port" and "startable f (looped w ms) (nets w)" and "distinct ms"
  shows "\<exists>w1. servers_up co ms w = (Inr (), w1) \<and> (\<forall>m \<in> looped w ms. serves port f m (nets w1))
    \<and> (looped w ms \<noteq> {} \<longrightarrow> nw_config (nets w1) = Some f)"
  using assms(2,3)
proof (induction ms arbitrary: w)
  case (Cons m ms)
  show ?case
  proof (cases "networks w m")
    case In_Process
    with Cons show ?thesis by simp
  next
    case Loopback
    obtain ps where boot: "core_server co m w = (None, Bound (port m # ps))"
      using assms(1) by (auto simp: servers_bind_def)
    obtain r n where run: "lb_run None (Bound (port m # ps)) m (nets w) = (r, n)" by fastforce
    let ?w = "w\<lparr>nets := n\<rparr>"
    have m: "m \<in> looped w (m # ms)" "looped w (m # ms) - {m} = looped w ms" "m \<notin> looped w ms"
      using Loopback Cons.prems(2) by (auto simp: looped_def)
    from startable_run [OF Cons.prems(1) m(1) run, unfolded m(2)]
    have n: "r = Inr ()" "startable f (looped ?w ms) (nets ?w)" "serves port f m n" "nw_config n = Some f"
      by (simp_all add: serves_def)
    obtain w1 where w1: "servers_up co ms ?w = (Inr (), w1)" "\<forall>k \<in> looped w ms. serves port f k (nets w1)"
      "looped w ms \<noteq> {} \<longrightarrow> nw_config (nets w1) = Some f"
      using Cons.IH [OF n(2)] Cons.prems(2) by auto
    have same: "others_same (looped w ms) n (nets w1)" using servers_others_same [OF w1(1)] by simp
    then have "serves port f m (nets w1)" using serves_same [OF same m(3)] n(3) by blast
    moreover have "nw_config (nets w1) = Some f"
    proof (cases "looped w ms = {}")
      case True
      then have "servers_up co ms ?w = (Inr (), ?w)"
        using servers_none [of ?w ms co] by simp
      with w1(1) have "nets w1 = n" by auto
      with n(4) show ?thesis by simp
    qed (use w1(3) in simp)
    moreover have "servers_up co (m # ms) w = (Inr (), w1)" using w1(1) boot run n(1) Loopback by simp
    ultimately show ?thesis using w1(2) Loopback by (intro exI [of _ w1]) simp
  qed
qed simp

section \<open>A server that refuses\<close>

lemma run_error: "lb_run ce boot i n = (Inl e, n') \<Longrightarrow> e = RuntimeError"
  by (auto simp: lb_run_def Let_def split: if_splits)

text \<open>The masters before it stay up, those after it are not touched.\<close>

lemma servers_refused:
  assumes "servers_up co ms w = (Inl e, w1)"
  shows "\<exists>before m after. ms = before @ m # after \<and> networks w m = Loopback \<and> e = RuntimeError
    \<and> (\<forall>k \<in> looped w before. k \<noteq> m \<longrightarrow> sv_thread (nw_servers (nets w1) k) \<and> \<not> sv_broken (nw_servers (nets w1) k))
    \<and> others_same (looped w (before @ [m])) (nets w) (nets w1)"
  using assms
proof (induction ms arbitrary: w)
  case (Cons m ms)
  obtain ce boot r n where run: "core_server co m w = (ce, boot)" "lb_run ce boot m (nets w) = (r, n)"
    by fastforce
  let ?w = "w\<lparr>nets := n\<rparr>"
  have same: "others_same {m} (nets w) n" using run_others_same [of m "nets w" ce boot] run(2) by simp
  show ?case
  proof (cases "networks w m")
    case In_Process
    with Cons.IH [of w] Cons.prems obtain before k after where "ms = before @ k # after" "networks w k = Loopback"
      "e = RuntimeError"
      "\<forall>j \<in> looped w before. j \<noteq> k \<longrightarrow> sv_thread (nw_servers (nets w1) j) \<and> \<not> sv_broken (nw_servers (nets w1) j)"
      "others_same (looped w (before @ [k])) (nets w) (nets w1)" by auto
    with In_Process show ?thesis
      by (intro exI [of _ "m # before"] exI [of _ k] exI [of _ after]) simp
  next
    case Loopback
    show ?thesis
    proof (cases r)
      case (Inl e')
      with Cons.prems run Loopback run_error [of ce boot m "nets w" e' n] same
      show ?thesis by (intro exI [of _ "[]"] exI [of _ m] exI [of _ ms]) auto
    next
      case (Inr u)
      with Cons.prems run Loopback have rest: "servers_up co ms ?w = (Inl e, w1)" by simp
      from Cons.IH [OF this] obtain before k after where split: "ms = before @ k # after"
        "networks w k = Loopback" "e = RuntimeError"
        "\<forall>j \<in> looped w before. j \<noteq> k \<longrightarrow> sv_thread (nw_servers (nets w1) j) \<and> \<not> sv_broken (nw_servers (nets w1) j)"
        "others_same (looped w (before @ [k])) n (nets w1)" by auto
      have up: "sv_thread (nw_servers n m) \<and> \<not> sv_broken (nw_servers n m)"
        using run_up [of ce boot m "nets w" n] run(2) Inr by simp
      have "sv_thread (nw_servers (nets w1) m) \<and> \<not> sv_broken (nw_servers (nets w1) m)" if "m \<noteq> k"
        using split(4,5) up that by (auto simp: others_same_def looped_def)
      moreover have "others_same (looped w ((m # before) @ [k])) (nets w) (nets w1)"
        using others_same_trans [OF others_same_mono [OF same] others_same_mono [OF split(5)]] Loopback by auto
      ultimately show ?thesis
        using split(1-4) by (intro exI [of _ "m # before"] exI [of _ k] exI [of _ after]) auto
    qed
  qed
qed simp

section \<open>Taking the servers down\<close>

definition down :: "nat \<Rightarrow> net_world \<Rightarrow> bool" where
  "down m n \<longleftrightarrow> sv_url (nw_servers n m) = None \<and> \<not> sv_thread (nw_servers n m)
     \<and> dget (nw_floors n) m = None \<and> m \<notin> nw_alive n"

text \<open>An instance with a live server has a thread to join.\<close>

definition joinable :: "nat set \<Rightarrow> net_world \<Rightarrow> bool" where
  "joinable L n \<longleftrightarrow> (\<forall>m \<in> L. m \<in> nw_alive n \<longrightarrow> sv_thread (nw_servers n m))"

lemma joinable_same: "others_same K n n' \<Longrightarrow> joinable L n \<Longrightarrow> joinable K n' \<Longrightarrow> joinable L n'"
  unfolding joinable_def others_same_def by metis

lemma joinable_run: "joinable {m} n \<Longrightarrow> joinable {m} (snd (lb_run ce boot m n))"
  by (cases boot) (auto simp: joinable_def lb_run_def start_defs)

lemma joinable_servers:
  assumes "servers_up co ms w = (r, w1)" and "joinable L (nets w)" and "looped w ms \<subseteq> L"
  shows "joinable L (nets w1)"
  using assms
proof (induction ms arbitrary: w)
  case (Cons m ms)
  obtain ce boot q n where run: "core_server co m w = (ce, boot)" "lb_run ce boot m (nets w) = (q, n)"
    by fastforce
  show ?case
  proof (cases "networks w m")
    case Loopback
    have "joinable {m} (nets w)" using Cons.prems(2,3) Loopback by (simp add: joinable_def)
    from joinable_run [OF this, of ce boot] have "joinable {m} n" using run(2) by simp
    moreover have "others_same {m} (nets w) n" using run_others_same [of m "nets w" ce boot] run(2) by simp
    ultimately have "joinable L n" using joinable_same Cons.prems(2) by blast
    with Cons.IH [of "w\<lparr>nets := n\<rparr>"] Cons.prems run Loopback show ?thesis
      by (auto split: sum.splits)
  qed (use Cons in simp)
qed simp

lemma stop_down: "joinable {m} n \<Longrightarrow> down m (lb_stop True m n)"
  by (auto simp: down_def joinable_def lb_stop_def Let_def dict_simps)

lemma stopped_down:
  assumes "joinable {m \<in> set ms. kind m = Loopback} n" and "distinct ms" and "\<forall>m. joined m"
    and "m \<in> set ms" and "kind m = Loopback"
  shows "down m (nets_stopped joined kind ms n)"
  using assms
proof (induction ms arbitrary: n)
  case (Cons k ms)
  let ?n = "if kind k = Loopback then lb_stop (joined k) k n else n"
  have same: "others_same {k} n ?n" by (simp add: stop_others_same)
  show ?case
  proof (cases "m = k")
    case True
    have "down k ?n" using Cons.prems True stop_down [of k n] by (simp add: joinable_def)
    moreover have "others_same {m \<in> set ms. kind m = Loopback} ?n (nets_stopped joined kind ms ?n)"
      by (rule stopped_others_same)
    ultimately show ?thesis using True Cons.prems(2) by (simp add: down_def others_same_def)
  next
    case False
    have "joinable {m \<in> set ms. kind m = Loopback} ?n"
      using Cons.prems(1,2) same by (auto simp: joinable_def others_same_def)
    with Cons.IH [of ?n] Cons.prems False show ?thesis by (simp split: if_splits)
  qed
qed simp

section \<open>A satellite under a loopback master\<close>

text \<open>A top-level call whose first delivery raises: the queue is empty again and the thread is idle.\<close>

lemma raised_in_delivery:
  assumes "settle p (world c) = (Deliver q k, w)" and "settle q w = (Throw e, w')" and "idle c" and "queue c = []"
  shows "\<exists>d. leads_to (call p c) d \<and> idle d \<and> queue d = [] \<and> raising d = Some e \<and> world d = w'"
proof -
  let ?c = "call p c"
  define c1 where "c1 = ?c\<lparr>world := w, draining := True, queue := [], enqueued := enqueued ?c @ [q],
    started := started ?c @ [q], stack := [FProg q, FDrain, FProg k]\<rparr>"
  have "leads_to ?c c1"
    unfolding c1_def using settle_starts [of p ?c q k w "[]"] assms(1,3,4) by (simp add: call_def idle_def)
  moreover have "leads_to c1 (c1\<lparr>world := w', stack := [FDrain, FProg k], raising := Some e\<rparr>)" (is "leads_to _ ?d2")
    using assms(2) by (intro settle_raises) (simp_all add: c1_def call_def)
  moreover have "leads_to ?d2 (?d2\<lparr>draining := False, stack := []\<rparr>)" (is "leads_to _ ?d3")
  proof (rule leads_step)
    show "pump_step ?d2 = Some (?d2\<lparr>draining := False, stack := [FProg k]\<rparr>)" (is "_ = Some ?e")
      by (simp add: pump_step_def)
    show "leads_to ?e ?d3" by (rule leads_step [OF _ leads_refl]) (simp add: pump_step_def)
  qed
  ultimately have "leads_to ?c ?d3" by (blast intro: leads_trans)
  with assms(3,4) show ?thesis
    by (intro exI [of _ ?d3]) (simp add: c1_def call_def idle_def)
qed

lemma settle_pseq_Deliver: "settle p w = (Deliver q k, w') \<Longrightarrow> settle (pseq p r) w = (Deliver q (pseq k r), w')"
  by (simp add: settle_pseq Let_def)

section \<open>Properties\<close>

text \<open>C20: A hive with loopback masters comes up as a whole. When the builder's loopback instances are unused, ask
  for one protocol floor that every running instance of the process shares, and their sockets bind, \<open>start_all\<close>
  returns; each of those masters then serves at the address of its port, with its floor registered and
  configured; the satellites are linked as the entries say; and no other instance was touched.\<close>

theorem loopback_hive_comes_up:
  assumes "connects_ok co" and "reaches builder_step (new_builder w0) b" and "kwargs_known b"
    and "idle c" and "queue c = []" and "links_in_process (b_connections b) b (world c)"
    and "servers_bind co port" and "startable f (looped (world c) (all_masters b)) (nets (world c))"
  shows "\<exists>d. leads_to (call (start_all co b) c) d \<and> stack d = [] \<and> raising d = None
    \<and> (\<forall>m \<in> looped (world c) (all_masters b). serves port f m (nets (world d)) \<and> nw_config (nets (world d)) = Some f)
    \<and> linkage (world d) = link_all b (b_connections b) (linkage (world c))
    \<and> others_same (looped (world c) (all_masters b)) (nets (world c)) (nets (world d))"
proof -
  have inv: "builder_inv b" using assms(2) by (blast intro: bi.inv_reachable)
  obtain w1 where w1: "servers_up co (all_masters b) (world c) = (Inr (), w1)"
    "\<forall>m \<in> looped (world c) (all_masters b). serves port f m (nets w1)"
    "looped (world c) (all_masters b) \<noteq> {} \<longrightarrow> nw_config (nets w1) = Some f"
    using servers_come_up [OF assms(7,8) distinct_masters [OF inv]] by blast
  from start_all_runs [OF assms(1) links_good [OF inv assms(3)] assms(4-6) w1(1)]
  show ?thesis using w1(2,3) servers_others_same [OF w1(1)] by (auto simp: idle_def)
qed

text \<open>C21: When a server refuses, \<open>start_all\<close> raises \<open>RuntimeError\<close> before it has connected anyone: no satellite
  has changed at all, the loopback masters before the refusing one stay up until \<open>stop_all\<close>, and those
  after it were never started.\<close>

theorem refused_server_stops_start_all:
  assumes "reaches builder_step (new_builder w0) b" and "idle c"
    and "servers_up co (all_masters b) (world c) = (Inl e, w1)"
  shows "\<exists>d before m after. leads_to (call (start_all co b) c) d \<and> stack d = [] \<and> raising d = Some RuntimeError
    \<and> sats (world d) = sats (world c) \<and> all_masters b = before @ m # after \<and> networks (world c) m = Loopback
    \<and> (\<forall>k \<in> looped (world c) before. sv_thread (nw_servers (nets (world d)) k) \<and> \<not> sv_broken (nw_servers (nets (world d)) k))
    \<and> (\<forall>k \<in> set after. nw_servers (nets (world d)) k = nw_servers (nets (world c)) k)"
proof -
  have "distinct (all_masters b)" using assms(1) bi.inv_reachable distinct_masters by blast
  moreover obtain before m after where split: "all_masters b = before @ m # after" "networks (world c) m = Loopback"
    "e = RuntimeError" "\<forall>k \<in> looped (world c) before. k \<noteq> m \<longrightarrow>
      sv_thread (nw_servers (nets w1) k) \<and> \<not> sv_broken (nw_servers (nets w1) k)"
    "others_same (looped (world c) (before @ [m])) (nets (world c)) (nets w1)"
    using servers_refused [OF assms(3)] by blast
  ultimately have "m \<notin> set before" "\<forall>k \<in> set after. k \<notin> looped (world c) (before @ [m])"
    by (auto simp: looped_def)
  moreover obtain d where "leads_to (call (start_all co b) c) d" "idle d" "raising d = Some e" "world d = w1"
    using start_all_refused [OF assms(3,2)] by blast
  ultimately show ?thesis
    using split servers_up_nodes(1) [OF assms(3)]
    by (intro exI [of _ d] exI [of _ before] exI [of _ m] exI [of _ after])
      (auto simp: idle_def others_same_def looped_def)
qed


text \<open>A satellite cannot be put under a loopback master. \<open>add_satellite\<close> accepts it, and \<open>start_all\<close> raises
  \<open>AttributeError\<close> when its turn comes, with the key already registered and the master already set on the
  satellite; the entries after it are not reached.\<close>

theorem satellite_under_loopback_fails:
  assumes "idle c" and "queue c = []" and "servers_up co (all_masters b) (world c) = (Inr (), w1)"
    and "b_connections b = before @ (sn, mn, Some k) # after"
    and "\<forall>(n, mn', kw) \<in> set before. \<exists>t. get_satellite n b = Inr t \<and> s_conn (sats (world c) t) \<noteq> None"
    and "get_satellite sn b = Inr s" and "s_conn (sats (world c) s) = None"
    and "get_master mn b = Inr m" and "networks (world c) m = Loopback"
  shows "\<exists>d. leads_to (call (start_all co b) c) d \<and> idle d \<and> raising d = Some AttributeError
    \<and> s_conn (sats (world d) s) = None \<and> s_master (sats (world d) s) = Some m
    \<and> (\<exists>row. get_client_by_api_key (m_db (masters (world d) m)) (s_access_key (sats (world c) s)) = Some row)
    \<and> (\<forall>t. t \<noteq> s \<longrightarrow> sats (world d) t = sats (world c) t)"
proof -
  let ?w = "registered s m k w1"
  have w1: "sats w1 = sats (world c)" "masters w1 = masters (world c)" using servers_up_nodes [OF assms(3)] by simp_all
  have s: "dget (b_satellites b) sn = Some s" "dget (b_masters b) mn = Some m"
    using assms(6,8) by (simp_all add: get_satellite_def get_master_def split: option.splits)
  have "settle (pfor before (start_one co b)) w1 = (Ret, w1)"
    using assms(5) w1(1) by (intro start_skips_connected) (auto simp: get_satellite_def split: option.splits)
  then have pre: "settle (pseq (pfor (all_masters b) (network_run co)) (pfor before (start_one co b))) (world c) = (Ret, w1)"
    using assms(3) by (simp add: settle_pseq_Ret settle_servers)
  have "settle (start_one co b (sn, mn, Some k)) w1 = (Deliver (connect_satellite co m s) (finish_connect co s), ?w)"
    using s assms(7) w1(1) by (simp add: start_one_def settle_connect)
  from settle_pseq_Deliver [OF this] have "settle (start_all co b) (world c) =
      (Deliver (connect_satellite co m s) (pseq (finish_connect co s) (pfor after (start_one co b))), ?w)"
    using settle_pseq_Ret [OF pre] by (simp add: start_all_def assms(4) pfor_append pseq_assoc)
  moreover have "settle (connect_satellite co m s) ?w = (Throw AttributeError, ?w)"
    using assms(9) w1(2) by (simp add: connect_satellite_def)
  ultimately obtain d where d: "leads_to (call (start_all co b) c) d" "idle d" "raising d = Some AttributeError"
    "world d = ?w" using raised_in_delivery [OF _ _ assms(1,2)] by metis
  moreover obtain row where "get_client_by_api_key (m_db (masters ?w m)) (s_access_key (sats (world c) s)) = Some row"
    using registered_row [of s m k w1] w1(1) by auto
  moreover have "sats ?w = (sats (world c))(s := (sats (world c) s)\<lparr>s_master := Some m\<rparr>)"
    by (simp add: registered_def register_satellite_def w1(1))
  ultimately show ?thesis using assms(7) by (intro exI [of _ d]) simp
qed

text \<open>A hive with a loopback master, a hub, and a satellite under the hub.\<close>

definition example_mixed :: "unit builder" where
  "example_mixed = snd (add_satellite example_supply ''S'' (UpMaster 1) False (Some default_args)
     (snd (add_master ''M'' no_master_args
        (snd (add_master ''L'' (no_master_args\<lparr>ma_loopback := True\<rparr>) (new_builder example_hive))))))"

lemmas mixed_eval = example_mixed_def chain_eval

lemma example_mixed_built: "reaches builder_step (new_builder example_hive) example_mixed"
proof -
  let ?b1 = "snd (add_master ''L'' (no_master_args\<lparr>ma_loopback := True\<rparr>) (new_builder example_hive))"
  let ?b2 = "snd (add_master ''M'' no_master_args ?b1)"
  have "builder_step (new_builder example_hive) ?b1" "builder_step ?b1 ?b2" by (rule bs_master)+
  moreover have "builder_step ?b2 example_mixed"
    unfolding example_mixed_def by (rule bs_satellite) (simp add: chain_eval)
  ultimately show ?thesis using reaches_one reaches_step by metis
qed

lemma example_mixed_facts:
  "all_masters example_mixed = [0, 1]" "looped (b_hive example_mixed) [0, 1] = {0}"
  "kwargs_known example_mixed" "links_in_process (b_connections example_mixed) example_mixed (b_hive example_mixed)"
  "startable 1 {0} (nets (b_hive example_mixed))"
  "dget (nw_floors (nets (b_hive example_mixed))) 0 = None" "0 \<notin> nw_alive (nets (b_hive example_mixed))"
  "dget (b_satellites example_mixed) ''S'' = Some 0" "s_conn (sats (b_hive example_mixed) 0) = None"
  by (simp_all add: mixed_eval all_masters_def dvals_def dset_def dget_def kwargs_known_def startable_def
      new_net_def new_server_def example_hive_def pd.good_empty satellite_create_def make_identity_def)

lemma quiet_binds: "servers_bind quiet_core (\<lambda>m. 8000 + m)"
  by (simp add: servers_bind_def quiet_core_def)

lemma quiet_stops: "stops_plain quiet_core"
  by (simp add: stops_plain_def quiet_core_def)

lemma mixed_idle:
  "idle (new_pump (b_hive example_mixed))" "queue (new_pump (b_hive example_mixed)) = []"
  "world (new_pump (b_hive example_mixed)) = b_hive example_mixed"
  by (simp_all add: idle_def new_pump_def)

lemma mixed_looped: "looped (b_hive example_mixed) (all_masters example_mixed) = {0}"
  by (simp only: example_mixed_facts(1,2))

theorem loopback_hive_comes_up_witness:
  "\<exists>d. leads_to (call (start_all quiet_core example_mixed) (new_pump (b_hive example_mixed))) d
     \<and> serves (\<lambda>m. 8000 + m) 1 0 (nets (world d)) \<and> nw_config (nets (world d)) = Some 1"
  using loopback_hive_comes_up [OF quiet_connects example_mixed_built example_mixed_facts(3) mixed_idle(1,2) _ quiet_binds,
      unfolded mixed_idle(3) mixed_looped, OF example_mixed_facts(4,5)] by blast

theorem refused_server_stops_start_all_witness:
  "\<exists>d. leads_to (call (start_all (quiet_core\<lparr>core_server := \<lambda>m w. (None, No_Answer)\<rparr>) example_mixed)
       (new_pump (b_hive example_mixed))) d
     \<and> raising d = Some RuntimeError \<and> s_conn (sats (world d) 0) = None"
proof -
  let ?co = "quiet_core\<lparr>core_server := \<lambda>m w. (None, No_Answer)\<rparr>"
  have "\<exists>e w1. servers_up ?co [0, 1] (b_hive example_mixed) = (Inl e, w1)"
    by (simp add: mixed_eval example_hive_def lb_run_def start_defs new_server_def conflicts_def new_net_def)
  then obtain e w1 where "servers_up ?co (all_masters example_mixed) (world (new_pump (b_hive example_mixed))) = (Inl e, w1)"
    by (auto simp: example_mixed_facts(1) mixed_idle(3))
  from refused_server_stops_start_all [OF example_mixed_built mixed_idle(1) this] show ?thesis
    by (auto simp: mixed_idle(3) example_mixed_facts(9))
qed


end
