(* ===== verification/Node_Types.thy ===== *)
theory Node_Types
  imports Topology_Builder
begin

text \<open>
  The types that the annotations of \<open>recorder.py\<close> and \<open>node.py\<close> promise, as a judgement on worlds, and
  their soundness. Preservation: no program of a node, of \<open>start_all\<close> or of \<open>stop_all\<close> leaves a well-typed world,
  in whatever order a test calls them, also when calls raise and leave deliveries behind. Progress: in a
  well-typed world a teardown never gets stuck.
\<close>

section \<open>Typing\<close>

text \<open>\<open>direction\<close> is one of the three values its annotation lists. An injected message is recorded with the
  message itself, under its own type.\<close>

definition typed_record :: "recorded_message \<Rightarrow> bool" where
  "typed_record r \<longleftrightarrow> direction r = ''in'' \<or> direction r = ''out''
     \<or> direction r = ''bus_inject'' \<and> (\<exists>d ctx. payload r = PMsg (msg_type r) d ctx)"

text \<open>A satellite sees the wire only, and sends to its master only.\<close>

definition sat_typed_record :: "recorded_message \<Rightarrow> bool" where
  "sat_typed_record r \<longleftrightarrow> direction r = ''in'' \<or> direction r = ''out'' \<and> peer r = ''master''"

text \<open>The records of a node are in the order of their time stamps.\<close>

definition typed_records :: "(recorded_message \<Rightarrow> bool) \<Rightarrow> int \<Rightarrow> records \<Rightarrow> bool" where
  "typed_records ok t rs \<longleftrightarrow> (\<forall>r \<in> set rs. ok r \<and> timestamp r \<le> t) \<and> sorted (map timestamp rs)"

text \<open>A connection that a satellite holds exists and calls that satellite back.\<close>

definition typed_hive :: "'t hive \<Rightarrow> bool" where
  "typed_hive w \<longleftrightarrow>
     (\<forall>s c. s_conn (sats w s) = Some c \<longrightarrow> c < next_conn w \<and> c_sat (conns w c) = s)
     \<and> (\<forall>s. typed_records sat_typed_record (now w) (s_records (sats w s)))
     \<and> (\<forall>m. typed_records typed_record (now w) (m_records (masters w m)))"

lemma typed_linked: "typed_hive w \<Longrightarrow> linked s w"
  by (simp add: typed_hive_def linked_def)

lemma typed_records_append:
  "typed_records ok t rs \<Longrightarrow> ok r \<Longrightarrow> timestamp r = t \<Longrightarrow> typed_records ok t (rs @ [r])"
  by (auto simp: typed_records_def sorted_append)

lemma typed_records_Nil [simp]: "typed_records ok t []"
  by (simp add: typed_records_def)

text \<open>An update of the parts of a satellite or a master that no type speaks of.\<close>

lemma typed_upd_sat:
  assumes "typed_hive w" and "\<And>x. s_records (f x) = s_records x"
    and "\<And>x. s_conn (f x) = s_conn x \<or> s_conn (f x) = None"
  shows "typed_hive (upd_sat s f w)"
proof -
  have "s_conn (sats w t) = Some c" if "s_conn (sats (upd_sat s f w) t) = Some c" for t c
    using that assms(3) [of "sats w s"] by (auto split: if_splits)
  then have "\<forall>t c. s_conn (sats (upd_sat s f w) t) = Some c \<longrightarrow> c < next_conn w \<and> c_sat (conns w c) = t"
    using assms(1) unfolding typed_hive_def by blast
  moreover have "s_records (sats (upd_sat s f w) t) = s_records (sats w t)" for t
    using assms(2) by simp
  ultimately show ?thesis using assms(1) by (simp add: typed_hive_def del: fun_upd_apply upd_sels(1))
qed

lemma typed_upd_master:
  "typed_hive w \<Longrightarrow> (\<And>x. m_records (g x) = m_records x) \<Longrightarrow> typed_hive (upd_master m g w)"
  by (auto simp: typed_hive_def upd_master_def)

lemma typed_upd_conn: "typed_hive w \<Longrightarrow> (\<And>x. c_sat (h x) = c_sat x) \<Longrightarrow> typed_hive (upd_conn c h w)"
  by (auto simp: typed_hive_def upd_conn_def)

lemmas typed_upd = typed_upd_sat typed_upd_master typed_upd_conn

lemma typed_nets [simp]: "typed_hive (w\<lparr>nets := n\<rparr>) = typed_hive w"
  by (simp add: typed_hive_def)

lemma typed_sat_record:
  "typed_hive w \<Longrightarrow> d = ''in'' \<or> d = ''out'' \<and> pr = ''master'' \<Longrightarrow> typed_hive (sat_record s d mt p pr w)"
  by (auto simp: typed_hive_def sat_record_def mk_record_def sat_typed_record_def intro!: typed_records_append)

lemma typed_master_record:
  "typed_hive w \<Longrightarrow> d = ''in'' \<or> d = ''out'' \<or> d = ''bus_inject'' \<and> (\<exists>x ctx. p = PMsg mt x ctx)
     \<Longrightarrow> typed_hive (master_record m d mt p pr w)"
  by (auto simp: typed_hive_def master_record_def mk_record_def typed_record_def intro!: typed_records_append)

lemma typed_attach: "typed_hive w \<Longrightarrow> typed_hive (attach co s row w)"
  by (fastforce simp: typed_hive_def attach_def new_connection_def Let_def)

lemma typed_forget: "typed_hive w \<Longrightarrow> typed_hive (forget_session co s w)"
  unfolding forget_session_def by (rule typed_upd) simp_all

lemmas typed_updates = typed_sat_record typed_master_record typed_attach typed_forget

section \<open>Every node program keeps the types\<close>

text \<open>The libraries' handlers reach the nodes through their methods, and their own bookkeeping is not what the
  types speak of.\<close>

definition core_typed :: "'t core \<Rightarrow> bool" where
  "core_typed co \<longleftrightarrow>
     (\<forall>c f w. typed_hive w \<longrightarrow> typed_hive (snd (core_decode co c f w)))
     \<and> (\<forall>s msg. keeps typed_hive (core_dispatch co s msg)) \<and> (\<forall>m msg c. keeps typed_hive (core_handle co m msg c))
     \<and> (\<forall>m v c. keeps typed_hive (core_inject co m v c)) \<and> (\<forall>m c. keeps typed_hive (core_new_client co m c))
     \<and> (\<forall>m c w. typed_hive w \<longrightarrow> typed_hive (core_drop co m c w)) \<and> (\<forall>s. keeps typed_hive (core_start_handshake co s))
     \<and> (\<forall>m v. keeps typed_hive (core_bus_emit co m v)) \<and> (\<forall>m. \<forall>p \<in> set (core_stops co m). keeps typed_hive p)"

lemma core_typedD [keeps_ok]:
  assumes "core_typed co"
  shows "typed_hive w \<Longrightarrow> typed_hive (snd (core_decode co c f w))" "keeps typed_hive (core_dispatch co s msg)"
    "keeps typed_hive (core_handle co m msg c)" "keeps typed_hive (core_inject co m v c)"
    "keeps typed_hive (core_new_client co m c)" "typed_hive w \<Longrightarrow> typed_hive (core_drop co m c w)"
    "keeps typed_hive (core_start_handshake co s)" "keeps typed_hive (core_bus_emit co m v)"
    "p \<in> set (core_stops co m) \<Longrightarrow> keeps typed_hive p"
  using assms by (simp_all add: core_typed_def del: split_paired_All)

lemma keeps_send_lambda [keeps_ok]: "core_typed co \<Longrightarrow> keeps typed_hive (send_lambda co s msg)"
  by (auto simp: send_lambda_def recording_handle_def core_typedD typed_master_record split: option.split)

lemma keeps_sat_send [keeps_ok]: "core_typed co \<Longrightarrow> keeps typed_hive (sat_send co s out)"
  by (auto simp: sat_send_def Let_def keeps_send_lambda typed_sat_record)

lemma keeps_recording_inject [keeps_ok]: "core_typed co \<Longrightarrow> keeps typed_hive (recording_inject co m t d ctx c)"
  by (auto simp: recording_inject_def core_typedD typed_master_record)

lemma typed_set_noise: "typed_hive w \<Longrightarrow> typed_hive (set_noise c t w)"
  unfolding set_noise_def by (rule typed_upd) simp_all

lemma keeps_decode [keeps_ok]:
  assumes "core_typed co"
  shows "keeps typed_hive (decode_and_dispatch co s c pr frm)"
proof -
  have "typed_hive w2" if "core_decode co c frm w1 = (r, w2)" "typed_hive w1" for r w1 w2
    using core_typedD(1) [OF assms that(2), of c frm] that(1) by simp
  then show ?thesis
    by (auto simp: decode_and_dispatch_def Let_def core_typedD(2) [OF assms] typed_set_noise typed_sat_record
        split: prod.split sum.split)
qed

lemma keeps_receive [keeps_ok]: "core_typed co \<Longrightarrow> keeps typed_hive (receive_raw co s frm)"
  by (auto simp: receive_raw_def keeps_decode split: option.split)

lemma keeps_send_msg [keeps_ok]: "core_typed co \<Longrightarrow> keeps typed_hive (recording_send_msg co m c frm)"
  by (auto simp: recording_send_msg_def keeps_receive typed_master_record)

lemma keeps_conn_send [keeps_ok]: "core_typed co \<Longrightarrow> keeps typed_hive (conn_send co m c msg)"
  by (auto simp: conn_send_def keeps_send_msg intro: keeps_pfor)

lemma keeps_disconnects_all:
  assumes "core_typed co"
  shows "(\<forall>s. keeps typed_hive (on_disconnect n co s)) \<and> (\<forall>m c. keeps typed_hive (client_disconnected n co m c))"
proof (induction n)
  case (Suc n)
  have "typed_hive (upd_sat s (\<lambda>x. x\<lparr>s_conn := None, s_master := None\<rparr>) w)" if "typed_hive w" for s w
    using that by (rule typed_upd) simp_all
  with Suc show ?case
    by (auto simp: Let_def typed_forget core_typedD [OF assms] intro!: keeps_pseq split: option.split)
qed simp

lemma keeps_disconnects [keeps_ok]:
  "core_typed co \<Longrightarrow> keeps typed_hive (on_disconnect n co s)"
  "core_typed co \<Longrightarrow> keeps typed_hive (client_disconnected n co m c)"
  using keeps_disconnects_all by blast+

lemma keeps_sat_disconnect [keeps_ok]: "core_typed co \<Longrightarrow> keeps typed_hive (sat_disconnect co s)"
  by (auto simp: sat_disconnect_def typed_forget keeps_disconnects intro!: keeps_pseq split: option.split)

lemma typed_register: "typed_hive w \<Longrightarrow> typed_hive (register_satellite m key pw k w)"
  unfolding register_satellite_def by (rule typed_upd) simp_all

lemma keeps_connect [keeps_ok]:
  assumes "core_typed co"
  shows "keeps typed_hive (sat_connect co s m k)"
proof -
  have "typed_hive (upd_sat s (\<lambda>x. x\<lparr>s_master := Some m\<rparr>) w)" if "typed_hive w" for w
    using that by (rule typed_upd) simp_all
  then show ?thesis
    by (auto simp: sat_connect_def connect_satellite_def typed_attach typed_register core_typedD [OF assms]
        intro!: keeps_pseq split: option.split)
qed

lemma keeps_entry: "core_typed co \<Longrightarrow> keeps typed_hive (entry_prog co e)"
  by (cases e) (auto simp: keeps_ok send_to_satellite_def send_to_all_def emit_on_bus_def
      intro: keeps_pfor split: option.split)

lemma keeps_start_all [keeps_ok]: "core_typed co \<Longrightarrow> keeps typed_hive (start_all co b)"
  by (auto simp: start_all_def network_run_def start_one_def keeps_connect Let_def
      intro!: keeps_pseq keeps_pfor split: network.split prod.split sum.split option.split)

lemma keeps_attempt [keeps_ok]:
  assumes "keeps J p"
  shows "keeps J (attempt p)"
proof -
  have "J w' \<and> keeps J q" if "settle p w = (q, w')" "J w" for w q w'
    using keeps_settle [OF assms that(2)] that(1) by simp
  then show ?thesis by (fastforce simp: attempt_def split: prod.split prog.split)
qed

lemma keeps_stop_all [keeps_ok]:
  assumes "core_typed co"
  shows "keeps typed_hive (stop_all co b)"
proof -
  have "typed_hive (sat_cleanup s w)" "typed_hive (master_cleanup m w)" if "typed_hive w" for s m w
    using that by (auto simp: sat_cleanup_def master_cleanup_def intro!: typed_upd)
  moreover have "keeps typed_hive (network_stop co m)" for m
    by (simp add: network_stop_def split: network.split)
  ultimately show ?thesis
    by (auto simp: stop_all_def stop_satellite_def stop_master_def keeps_sat_disconnect [OF assms]
        core_typedD(9) [OF assms] intro!: keeps_pseq keeps_pfor keeps_attempt)
qed

section \<open>Tests\<close>

text \<open>A test on one thread: node calls, \<open>start_all\<close> and \<open>stop_all\<close> of any builder, one after the other, each run step
  by step; time goes on between the steps. A call that raises may leave deliveries in the queue; they run in
  a later call.\<close>

definition at_time :: "int \<Rightarrow> 't hive pump \<Rightarrow> 't hive pump" where
  "at_time t c = c\<lparr>world := (world c)\<lparr>now := t\<rparr>\<rparr>"

inductive test_step :: "'t core \<Rightarrow> 't hive pump \<Rightarrow> 't hive pump \<Rightarrow> bool" for co where
  ts_run: "pump_rel c d \<Longrightarrow> test_step co c d"
| ts_call: "stack c = [] \<Longrightarrow> test_step co c (call (entry_prog co e) c)"
| ts_start: "stack c = [] \<Longrightarrow> test_step co c (call (start_all co b) c)"
| ts_stop: "stack c = [] \<Longrightarrow> test_step co c (call (stop_all co b) c)"
| ts_time: "now (world c) \<le> t \<Longrightarrow> test_step co c (at_time t c)"

lemma typed_later: "typed_hive w \<Longrightarrow> now w \<le> t \<Longrightarrow> typed_hive (w\<lparr>now := t\<rparr>)"
  by (force simp: typed_hive_def typed_records_def)

lemma test_step_keeps:
  assumes "core_typed co" and "test_step co c d" and "pump_keeps typed_hive c"
  shows "pump_keeps typed_hive d"
  using assms(2,3)
proof (induction rule: test_step.induct)
  case (ts_time c t)
  then show ?case by (auto simp: pump_keeps_def at_time_def intro: typed_later)
qed (auto intro: pump_keeps_step pump_keeps_call keeps_entry keeps_start_all keeps_stop_all assms(1))

text \<open>\<open>start_all\<close> and \<open>stop_all\<close> keep the lock discipline too.\<close>

lemma safe_settle: "safe p \<Longrightarrow> safe (fst (settle p w))" "rooted p \<Longrightarrow> rooted (fst (settle p w))"
  by (induction p arbitrary: w) auto

lemma attempt_ok:
  assumes "safe p" and "rooted p"
  shows "safe (attempt p) \<and> rooted (attempt p)"
proof -
  have "safe q \<and> rooted q" if "settle p w = (q, w')" for w q w'
    using safe_settle [of p w] assms that by simp
  then show ?thesis by (fastforce simp: attempt_def split: prod.split prog.split)
qed

lemma attempt_plain:
  assumes "\<And>w. fst (settle p w) = Ret \<or> (\<exists>e. fst (settle p w) = Throw e)"
  shows "safe (attempt p) \<and> rooted (attempt p)"
proof -
  have "safe (case settle p w of (Throw e, w') \<Rightarrow> Upd (\<lambda>_. w') Ret | (q, w') \<Rightarrow> Upd (\<lambda>_. w') q)
      \<and> rooted (case settle p w of (Throw e, w') \<Rightarrow> Upd (\<lambda>_. w') Ret | (q, w') \<Rightarrow> Upd (\<lambda>_. w') q)" for w
    using assms [of w] by (cases "settle p w") auto
  then show ?thesis by (simp add: attempt_def)
qed

lemma start_all_ok:
  assumes "core_ok co"
  shows "safe (start_all co b) \<and> rooted (start_all co b)"
  using sat_connect_ok(1) [OF assms] sat_connect_ok(2)
  by (auto simp: start_all_def network_run_def start_one_def Let_def
      intro!: safe_pseq rooted_pseq safe_pfor rooted_pfor split: network.split prod.split sum.split option.split)

lemma stop_all_ok:
  assumes "stops_plain co"
  shows "safe (stop_all co b) \<and> rooted (stop_all co b)"
proof -
  have "safe (attempt p) \<and> rooted (attempt p)" if "p \<in> set (core_stops co m)" for m p
    using assms that by (intro attempt_plain) (auto simp: stops_plain_def)
  moreover have "safe (attempt (network_stop co m)) \<and> rooted (attempt (network_stop co m))" for m
    by (intro attempt_plain) (simp add: settle_network_stop)
  ultimately show ?thesis
    by (auto simp: stop_all_def stop_satellite_def stop_master_def sat_disconnect_ok
        intro!: safe_pseq rooted_pseq safe_pfor rooted_pfor simp: attempt_ok)
qed

text \<open>The thread is between two calls, or inside one.\<close>

definition core_sound :: "'t core \<Rightarrow> bool" where
  "core_sound co \<longleftrightarrow> core_typed co \<and> core_ok co \<and> stops_plain co"

definition test_inv :: "'t hive pump \<Rightarrow> bool" where
  "test_inv c \<longleftrightarrow> pump_keeps typed_hive c \<and> fifo_inv c \<and> lock_inv c"

lemma lock_call: "lock_inv c \<Longrightarrow> stack c = [] \<Longrightarrow> safe p \<and> rooted p \<Longrightarrow> lock_inv (call p c)"
  by (auto simp: lock_inv_def call_def split: if_splits)

lemma test_step_lock:
  assumes "core_sound co" and "test_step co c d" and "lock_inv c"
  shows "lock_inv d"
  using assms(2,3)
proof (induction rule: test_step.induct)
  case (ts_time c t)
  then show ?case by (simp add: lock_inv_def at_time_def)
next
  case (ts_run c d)
  then show ?case by (rule lk.inv_step)
qed (use assms(1) in \<open>simp_all add: core_sound_def lock_call entry_prog_ok start_all_ok stop_all_ok\<close>)

lemma test_step_fifo: "test_step co c d \<Longrightarrow> fifo_inv c \<Longrightarrow> fifo_inv d"
proof (induction rule: test_step.induct)
  case (ts_run c d)
  then show ?case by (rule ff.inv_step)
qed (simp_all add: fifo_inv_def at_time_def call_def)

interpretation tt: kept_invariant "\<lambda>c. core_sound co \<and> (\<exists>w. typed_hive w \<and> c = new_pump w)" "test_step co"
    "\<lambda>c. core_sound co \<and> test_inv c" for co
proof unfold_locales
  fix co :: "'a core" and c d :: "'a hive pump"
  show "core_sound co \<and> (\<exists>w. typed_hive w \<and> c = new_pump w) \<Longrightarrow> core_sound co \<and> test_inv c"
    by (auto simp: test_inv_def fifo_inv_def lock_inv_def new_pump_def pump_keeps_def)
  show "test_step co c d \<Longrightarrow> core_sound co \<and> test_inv c \<Longrightarrow> core_sound co \<and> test_inv d"
    by (auto simp: test_inv_def core_sound_def intro: test_step_keeps test_step_fifo test_step_lock)
qed

lemma test_invD:
  assumes "core_sound co" and "typed_hive w" and "reaches (test_step co) (new_pump w) c"
  shows "typed_hive (world c)" "stack c = [] \<Longrightarrow> idle c"
proof -
  have "test_inv c" using tt.inv_reachable [OF _ assms(3)] assms(1,2) by blast
  then show "typed_hive (world c)" "stack c = [] \<Longrightarrow> idle c"
    by (auto simp: test_inv_def pump_keeps_def fifo_inv_def lock_inv_def idle_def split: if_splits)
qed

text \<open>Building a hive gives well-typed nodes.\<close>

lemma typed_install [simp]: "typed_hive (install_network m k w) = typed_hive w"
  by (simp add: install_network_def)

lemma typed_put_master: "typed_hive (b_hive b) \<Longrightarrow> m_records x = [] \<Longrightarrow> typed_hive (b_hive (put_master x b))"
  by (auto simp: put_master_def typed_hive_def)

lemma typed_put_satellite:
  "typed_hive (b_hive b) \<Longrightarrow> s_records x = [] \<Longrightarrow> s_conn x = None \<Longrightarrow> typed_hive (b_hive (put_satellite x b))"
  by (auto simp: put_satellite_def typed_hive_def)

lemma typed_built:
  assumes "typed_hive (b_hive b)"
  shows "typed_hive (b_hive (snd (add_master n k b)))" "typed_hive (b_hive (snd (add_satellite su n up sh kw b)))"
    "typed_hive (b_hive (snd (add_relay su n up kw b)))"
proof -
  have s: "s_records (satellite_create u p i n st sh bus) = []" for u p i n st sh bus
    by (simp add: satellite_create_def Let_def)
  have m: "m_records x = []" if "master_create n k a = Inr x" for n k a x
    using that by (auto simp: master_create_def split: if_splits)
  show "typed_hive (b_hive (snd (add_master n k b)))"
    using assms m by (auto simp: add_master_def intro!: typed_put_master split: sum.split)
  show "typed_hive (b_hive (snd (add_satellite su n up sh kw b)))"
    using assms s by (auto simp: add_satellite_def Let_def intro!: typed_put_satellite split: sum.split)
  show "typed_hive (b_hive (snd (add_relay su n up kw b)))"
    using assms s
    by (auto simp: add_relay_def Let_def bind_upstream_def
        intro!: typed_put_satellite typed_put_master typed_upd_master split: sum.split)
qed

section \<open>Properties\<close>

text \<open>C11: The types are sound. With libraries that reach the nodes through their methods, a test that starts in a
  well-typed world stays in well-typed worlds at every step, whatever it calls, raising calls and the deliveries they
  leave behind included: every satellite's connection exists and calls that satellite back, every record has one
  of the documented directions, an injected message is recorded with itself under its own type, a satellite
  records sends to its master only, and every recorder is in the order of its time stamps.\<close>

theorem node_programs_keep_types:
  assumes "core_sound co" and "typed_hive w" and "reaches (test_step co) (new_pump w) c"
  shows "(\<forall>s. linked s (world c)) \<and> typed_hive (world c)
    \<and> (\<forall>m. \<forall>r \<in> set (m_records (masters (world c) m)). direction r \<in> {''in'', ''out'', ''bus_inject''})
    \<and> (\<forall>s. sorted (map timestamp (s_records (sats (world c) s))))"
  using test_invD(1) [OF assms] typed_linked
  by (auto simp: typed_hive_def typed_records_def typed_record_def)


lemma quiet_core_sound: "core_sound quiet_core"
proof -
  have "core_typed quiet_core"
    by (simp add: core_typed_def quiet_core_def typed_upd)
  moreover have "stops_plain quiet_core" by (simp add: stops_plain_def quiet_core_def)
  ultimately show ?thesis by (simp add: core_sound_def quiet_core_ok(1))
qed

lemma example_hive_typed: "typed_hive example_hive"
  by (simp add: typed_hive_def example_hive_def)

lemma example_chain_typed: "typed_hive (b_hive example_chain)"
  unfolding example_chain_def
  by (intro typed_built) (simp add: new_builder_def example_hive_typed)

text \<open>The chain is started, its satellite sends, and the test has control again.\<close>

theorem node_programs_keep_types_witness:
  "\<exists>c. reaches (test_step quiet_core) (new_pump (b_hive example_chain)) c \<and> stack c = []
     \<and> (\<forall>s. linked s (world c))"
proof -
  obtain n where n: "stack (pump_steps n (call (entry_prog quiet_core (ESend 1 (Hive (''ping'', PNone))))
      (new_pump (b_hive example_chain)))) = []"
    using entry_call_ends [OF quiet_core_ok(1) quiet_new] by blast
  let ?c = "call (entry_prog quiet_core (ESend 1 (Hive (''ping'', PNone)))) (new_pump (b_hive example_chain))"
  have "reaches (test_step quiet_core) c d" if "reaches pump_rel c d" for c d :: "unit hive pump"
    using that by (induction rule: reaches.induct) (auto intro: reaches_step ts_run)
  then have steps: "reaches (test_step quiet_core) ?c (pump_steps n ?c)" using reaches_steps by blast
  have "test_step quiet_core (new_pump (b_hive example_chain)) ?c"
    by (rule ts_call) (simp add: new_pump_def)
  then have run: "reaches (test_step quiet_core) (new_pump (b_hive example_chain)) (pump_steps n ?c)"
    by (rule reaches_trans [OF steps reaches_one])
  from node_programs_keep_types [OF quiet_core_sound example_chain_typed run] n run show ?thesis by blast
qed


end
