(* ===== verification/Node_Delivery.thy ===== *)
theory Node_Delivery
  imports Node_Core "HOL-Library.Sublist"
begin

text \<open>
  What the harness is there for: a message that a satellite sends arrives at its master. \<open>SatelliteNode.send\<close>
  records the message and queues a lambda on the pump; the lambda runs later, possibly after other
  deliveries or in a later call, and hands the message to the instrumented \<open>handle_message\<close>, which records it.
  Here the records of both ends are compared: between a satellite and its master the pump is a channel that loses
  nothing, duplicates nothing, and keeps the order.

  The theory is about the phase between \<open>start_all\<close> and \<open>stop_all\<close>, in which connections stay as they are.
\<close>

declare split_paired_All [simp del]

section \<open>Records and routes\<close>

definition letter :: "recorded_message \<Rightarrow> hive_message" where
  "letter r = (msg_type r, payload r)"

text \<open>What a satellite's recorder says was sent, and what a master's says has come in from a peer.\<close>

definition sent :: "records \<Rightarrow> hive_message list" where
  "sent rs = map letter (filter (\<lambda>r. direction r = ''out'') rs)"

definition got :: "string \<Rightarrow> records \<Rightarrow> hive_message list" where
  "got p rs = map letter (filter (\<lambda>r. direction r = ''in'' \<and> peer r = p) rs)"

type_synonym routes = "nat \<Rightarrow> nat option \<times> nat option \<times> string option"
type_synonym books = "(nat \<Rightarrow> hive_message list) \<times> (nat \<Rightarrow> string \<Rightarrow> hive_message list)"

definition routes_of :: "'t hive \<Rightarrow> routes" where
  "routes_of w = (\<lambda>s. (s_conn (sats w s), s_master (sats w s), sat_peer s w))"

definition books_of :: "'t hive \<Rightarrow> books" where
  "books_of w = (\<lambda>s. sent (s_records (sats w s)), \<lambda>m p. got p (m_records (masters w m)))"

definition same_view :: "'t hive \<Rightarrow> 't hive \<Rightarrow> bool" where
  "same_view w w' \<longleftrightarrow> routes_of w' = routes_of w \<and> books_of w' = books_of w"

lemma sent_append [simp]: "sent (rs @ [r]) = sent rs @ (if direction r = ''out'' then [letter r] else [])"
  by (simp add: sent_def)

lemma got_append [simp]:
  "got p (rs @ [r]) = got p rs @ (if direction r = ''in'' \<and> peer r = p then [letter r] else [])"
  by (simp add: got_def)

lemma same_view_updates:
  "same_view w (set_noise c t w)"
  "d \<noteq> ''out'' \<Longrightarrow> same_view w (sat_record s d mt p pr w)"
  "d \<noteq> ''in'' \<Longrightarrow> same_view w (master_record m d mt p pr w)"
  "same_view w (w\<lparr>now := u\<rparr>)"
  by (auto simp: same_view_def routes_of_def books_of_def sat_peer_def set_noise_def upd_conn_def sat_record_def
      upd_sat_def master_record_def upd_master_def mk_record_def fun_eq_iff intro!: option.map_cong0)

section \<open>Programs that keep the books\<close>

text \<open>A program that runs in a world with routes \<open>R\<close> and books \<open>B\<close> leaves the routes alone and enters nothing
  in the books, except that it may send: the entry and the delivery of its lambda, one after the other. Whatever runs
  after a delivery or a send has to be good for any books.\<close>

inductive booked :: "'t core \<Rightarrow> routes \<Rightarrow> books \<Rightarrow> 't hive prog \<Rightarrow> bool" for co R where
  bk_ret: "booked co R B Ret"
| bk_throw: "booked co R B (Throw e)"
| bk_upd: "(\<And>w. routes_of w = R \<Longrightarrow> books_of w = B \<Longrightarrow> same_view w (f w)) \<Longrightarrow> booked co R B k \<Longrightarrow> booked co R B (Upd f k)"
| bk_dyn: "(\<And>w. routes_of w = R \<Longrightarrow> books_of w = B \<Longrightarrow> booked co R B (g w)) \<Longrightarrow> booked co R B (Dyn g)"
| bk_deliver: "(\<And>B'. booked co R B' p) \<Longrightarrow> (\<And>B'. booked co R B' k) \<Longrightarrow> booked co R B (Deliver p k)"
| bk_pumped: "booked co R B p \<Longrightarrow> (\<And>B'. booked co R B' k) \<Longrightarrow> booked co R B (Pumped p k)"
| bk_locked: "booked co R B p \<Longrightarrow> (\<And>B'. booked co R B' k) \<Longrightarrow> booked co R B (Locked l p k)"
| bk_send: "R s = (Some c, Some m, Some pr) \<Longrightarrow> (\<And>B'. booked co R B' k) \<Longrightarrow>
     booked co R B (Upd (sat_record s ''out'' (fst msg) (snd msg) ''master'') (Deliver (send_lambda co s msg) k))"

inductive_cases booked_UpdE: "booked co R B (Upd f k)"
inductive_cases booked_DynE: "booked co R B (Dyn g)"
inductive_cases booked_DeliverE: "booked co R B (Deliver p k)"
inductive_cases booked_PumpedE: "booked co R B (Pumped p k)"
inductive_cases booked_LockedE: "booked co R B (Locked l p k)"

named_theorems book_ok "programs that keep the books"

lemmas booked_basic [book_ok] = bk_ret bk_throw bk_deliver bk_pumped bk_locked

lemma booked_pseq [book_ok]:
  "booked co R B p \<Longrightarrow> (\<And>B'. booked co R B' q) \<Longrightarrow> booked co R B (pseq p q)"
  by (induction rule: booked.induct) (auto intro: booked.intros)

lemma booked_pfor [book_ok]:
  "(\<And>x B'. x \<in> set xs \<Longrightarrow> booked co R B' (f x)) \<Longrightarrow> booked co R B (pfor xs f)"
  by (induction xs arbitrary: B) (auto intro: book_ok)

section \<open>The nodes keep the books\<close>

text \<open>The libraries reach the recorders and the connections through the nodes only: decoding leaves both alone, and
  the handlers are programs that keep the books.\<close>

definition core_books :: "'t core \<Rightarrow> bool" where
  "core_books co \<longleftrightarrow> (\<forall>c f w. same_view w (snd (core_decode co c f w)))
     \<and> (\<forall>R B. (\<forall>s msg. booked co R B (core_dispatch co s msg)) \<and> (\<forall>m msg c. booked co R B (core_handle co m msg c))
          \<and> (\<forall>m v. booked co R B (core_bus_emit co m v)))"

lemma core_booksD [book_ok]:
  assumes "core_books co"
  shows "same_view w (snd (core_decode co c f w))" "booked co R B (core_dispatch co s msg)"
    "booked co R B (core_handle co m msg c)" "booked co R B (core_bus_emit co m v)"
  using assms unfolding core_books_def by blast+

lemma booked_send [book_ok]: "booked co R B (sat_send co s out)"
  unfolding sat_send_def Let_def
proof (rule bk_dyn)
  fix w :: "'a hive"
  let ?msg = "wrap_outgoing co (sats w s) out"
  assume R: "routes_of w = R"
  show "booked co R B (if s_master (sats w s) = None \<or> s_conn (sats w s) = None then Throw RuntimeError
      else Upd (sat_record s ''out'' (fst ?msg) (snd ?msg) ''master'') (Deliver (send_lambda co s ?msg) Ret))"
  proof (cases "s_master (sats w s) = None \<or> s_conn (sats w s) = None")
    case False
    then obtain c m where "R s = (Some c, Some m, Some (c_peer (conns w c)))"
      unfolding R [symmetric] by (auto simp: routes_of_def sat_peer_def)
    with False show ?thesis by (simp only: if_False) (rule bk_send, auto intro: book_ok)
  qed (simp add: book_ok)
qed

lemma booked_decode [book_ok]:
  assumes "core_books co"
  shows "booked co R B (decode_and_dispatch co s c pr frm)"
  unfolding decode_and_dispatch_def Let_def
proof (intro bk_dyn bk_upd same_view_updates)
  fix w w1 :: "'a hive"
  assume w1: "routes_of w1 = R" "books_of w1 = B"
  obtain r w2 where d: "core_decode co c frm w1 = (r, w2)" by fastforce
  have "same_view w' w2" if "routes_of w' = R" "books_of w' = B" for w'
    using core_booksD(1) [OF assms, of w1 c frm] that w1 by (simp add: d same_view_def)
  then show "booked co R B (case core_decode co c frm w1 of
      (Inl e, w2) \<Rightarrow> Upd (\<lambda>_. w2) (Upd (sat_record s ''in'' ''_decode_error''
          (PDict [(''error'', PStr (core_error_text co e))]) pr) (Upd (set_noise c (c_noise (conns w c))) Ret))
    | (Inr msg, w2) \<Rightarrow> Upd (\<lambda>_. w2) (Upd (set_noise c (c_noise (conns w c)))
        (Upd (sat_record s ''in'' (fst msg) (snd msg) pr) (core_dispatch co s msg))))"
    by (auto simp: d intro!: bk_upd bk_ret same_view_updates core_booksD [OF assms] split: sum.split)
qed

lemma booked_receive [book_ok]: "core_books co \<Longrightarrow> booked co R B (receive_raw co s frm)"
  by (auto simp: receive_raw_def intro!: bk_dyn book_ok split: option.split)

lemma booked_send_msg [book_ok]: "core_books co \<Longrightarrow> booked co R B (recording_send_msg co m c frm)"
  by (auto simp: recording_send_msg_def intro!: bk_dyn bk_upd same_view_updates book_ok)

lemma booked_conn_send [book_ok]: "core_books co \<Longrightarrow> booked co R B (conn_send co m c msg)"
  by (auto simp: conn_send_def intro!: bk_dyn book_ok)

text \<open>The calls of a running test.\<close>

fun traffic :: "entry \<Rightarrow> bool" where
  "traffic (EConnect s m k) = False"
| "traffic (EDisconnect s) = False"
| "traffic (EOnDisconnect s) = False"
| "traffic e = True"

lemma booked_entry: "core_books co \<Longrightarrow> traffic e \<Longrightarrow> booked co R B (entry_prog co e)"
  by (cases e) (auto simp: send_to_satellite_def send_to_all_def emit_on_bus_def
      intro!: bk_dyn book_ok split: option.split)

section \<open>Messages in transit\<close>

text \<open>A message in transit is a lambda in the queue (its place there is tagged), or in the hand of the frame on
  top: recorded and about to be queued, or taken off the queue and about to be recorded.\<close>

datatype grip = Plain | Sending nat hive_message | Arriving nat hive_message

definition tag_ok :: "'t core \<Rightarrow> routes \<Rightarrow> (nat \<times> hive_message) option \<Rightarrow> 't hive prog \<Rightarrow> bool" where
  "tag_ok co R t q = (case t of None \<Rightarrow> \<forall>B. booked co R B q
     | Some (s, msg) \<Rightarrow> q = send_lambda co s msg \<and> (\<exists>c m pr. R s = (Some c, Some m, Some pr)))"

definition waiting_ok :: "'t core \<Rightarrow> routes \<Rightarrow> 't hive frame \<Rightarrow> bool" where
  "waiting_ok co R f = (case f of FProg p \<Rightarrow> \<forall>B. booked co R B p | _ \<Rightarrow> True)"

lemma waiting_ok_simps [simp]:
  "waiting_ok co R (FProg p) = (\<forall>B. booked co R B p)" "waiting_ok co R FDrain" "waiting_ok co R (FUnlock l)"
  by (simp_all add: waiting_ok_def)

definition arriving :: "'t core \<Rightarrow> routes \<Rightarrow> nat \<Rightarrow> hive_message \<Rightarrow> 't hive prog \<Rightarrow> bool" where
  "arriving co R s msg p \<longleftrightarrow> (\<exists>c m pr. R s = (Some c, Some m, Some pr) \<and>
     (p = send_lambda co s msg \<or> p = recording_handle co m msg c
      \<or> p = Upd (master_record m ''in'' (fst msg) (snd msg) pr) (core_handle co m msg c)))"

definition top_ok :: "'t core \<Rightarrow> routes \<Rightarrow> 't hive pump \<Rightarrow> grip \<Rightarrow> bool" where
  "top_ok co R c t = (case t of
     Plain \<Rightarrow> (case stack c of FProg p # fs \<Rightarrow> raising c = None \<longrightarrow> booked co R (books_of (world c)) p | _ \<Rightarrow> True)
   | Sending s msg \<Rightarrow> raising c = None \<and> (\<exists>m k pr r fs. R s = (Some m, Some k, Some pr) \<and>
       stack c = FProg (Deliver (send_lambda co s msg) r) # fs \<and> (\<forall>B. booked co R B r))
   | Arriving s msg \<Rightarrow> raising c = None \<and> (\<exists>p fs. stack c = FProg p # fs \<and> arriving co R s msg p))"

definition tagged :: "nat \<Rightarrow> (nat \<times> hive_message) option list \<Rightarrow> hive_message list" where
  "tagged s ts = map snd (filter (\<lambda>(k, msg). k = s) (map the (filter (\<lambda>t. t \<noteq> None) ts)))"

fun in_transit :: "grip \<Rightarrow> (nat \<times> hive_message) option list \<Rightarrow> nat \<Rightarrow> hive_message list" where
  "in_transit Plain ts s = tagged s ts"
| "in_transit (Sending k msg) ts s = tagged s ts @ (if k = s then [msg] else [])"
| "in_transit (Arriving k msg) ts s = (if k = s then [msg] else []) @ tagged s ts"

text \<open>Since the books \<open>B0\<close>, each satellite's master has got what the satellite sent, up to what is in transit.\<close>

definition balanced :: "routes \<Rightarrow> books \<Rightarrow> books \<Rightarrow> (nat \<Rightarrow> hive_message list) \<Rightarrow> bool" where
  "balanced R B0 B transit \<longleftrightarrow> (\<forall>s c m pr. R s = (Some c, Some m, Some pr) \<longrightarrow>
     (\<exists>Y. snd B m pr = snd B0 m pr @ Y \<and> fst B s = fst B0 s @ Y @ transit s))"

definition channel_inv :: "'t core \<Rightarrow> routes \<Rightarrow> books \<Rightarrow> 't hive pump \<Rightarrow> bool" where
  "channel_inv co R B0 c \<longleftrightarrow> routes_of (world c) = R \<and> (\<forall>f \<in> set (tl (stack c)). waiting_ok co R f)
     \<and> (\<exists>ts t. list_all2 (tag_ok co R) ts (queue c) \<and> top_ok co R c t
          \<and> balanced R B0 (books_of (world c)) (in_transit t ts))"

text \<open>No two satellites have the same master and the same peer name.\<close>

definition own_peers :: "routes \<Rightarrow> bool" where
  "own_peers R \<longleftrightarrow> (\<forall>s s' c c' m pr. R s = (Some c, Some m, Some pr) \<longrightarrow> R s' = (Some c', Some m, Some pr) \<longrightarrow> s = s')"

section \<open>The channel is kept\<close>

lemma in_transit_eq [simp]:
  "in_transit Plain ts = (\<lambda>s. tagged s ts)"
  "in_transit (Sending k msg) ts = (\<lambda>s. tagged s ts @ (if k = s then [msg] else []))"
  "in_transit (Arriving k msg) ts = (\<lambda>s. (if k = s then [msg] else []) @ tagged s ts)"
  by (simp_all add: fun_eq_iff)

declare in_transit.simps [simp del]

lemma tagged_append [simp]: "tagged s (ts @ us) = tagged s ts @ tagged s us"
  by (simp add: tagged_def)

lemma tagged_simps [simp]:
  "tagged s [] = []" "tagged s (None # ts) = tagged s ts"
  "tagged s (Some (k, msg) # ts) = (if k = s then [msg] else []) @ tagged s ts"
  by (simp_all add: tagged_def)

text \<open>Below the frame on top, every program is good for any books, so whichever comes up next is fine.\<close>

lemma next_frame_ok: "\<forall>f \<in> set fs. waiting_ok co R f \<Longrightarrow> stack c = fs \<Longrightarrow> top_ok co R c Plain"
  by (cases fs) (auto simp: top_ok_def waiting_ok_def split: frame.split)

text \<open>Entering a send in the books, and its arrival.\<close>

lemma books_sent:
  "books_of (sat_record s ''out'' (fst msg) (snd msg) pr w)
     = ((fst (books_of w))(s := fst (books_of w) s @ [msg]), snd (books_of w))"
  by (auto simp: books_of_def sat_record_def upd_sat_def mk_record_def letter_def fun_eq_iff)

lemma books_got:
  "books_of (master_record m ''in'' (fst msg) (snd msg) pr w)
     = (fst (books_of w), (snd (books_of w))(m := (snd (books_of w) m)(pr := snd (books_of w) m pr @ [msg])))"
  by (auto simp: books_of_def master_record_def upd_master_def mk_record_def letter_def fun_eq_iff)

lemma routes_record [simp]:
  "routes_of (sat_record s d mt p pr w) = routes_of w" "routes_of (master_record m d mt p pr w) = routes_of w"
  by (simp_all add: routes_of_def sat_record_def master_record_def upd_sat_def upd_master_def sat_peer_def fun_eq_iff)

lemma balanced_sent:
  assumes "balanced R B0 B h"
  shows "balanced R B0 ((fst B)(s := fst B s @ [msg]), snd B) (\<lambda>k. h k @ (if s = k then [msg] else []))"
  using assms unfolding balanced_def by fastforce

lemma balanced_got:
  assumes "balanced R B0 B (\<lambda>k. (if s = k then [msg] else []) @ h k)" and "own_peers R"
    and "R s = (Some c, Some m, Some pr)"
  shows "balanced R B0 (fst B, (snd B)(m := (snd B m)(pr := snd B m pr @ [msg]))) h"
  unfolding balanced_def
proof (intro allI impI)
  fix k ck mk pk
  assume k: "R k = (Some ck, Some mk, Some pk)"
  with assms(1) obtain Y where Y: "snd B mk pk = snd B0 mk pk @ Y"
    "fst B k = fst B0 k @ Y @ (if s = k then [msg] else []) @ h k"
    unfolding balanced_def by blast
  show "\<exists>Y. snd (fst B, (snd B)(m := (snd B m)(pr := snd B m pr @ [msg]))) mk pk = snd B0 mk pk @ Y
      \<and> fst (fst B, (snd B)(m := (snd B m)(pr := snd B m pr @ [msg]))) k = fst B0 k @ Y @ h k"
  proof (cases "k = s")
    case True
    with Y k assms(3) show ?thesis by (intro exI [of _ "Y @ [msg]"]) simp
  next
    case False
    with k assms(2,3) have "mk \<noteq> m \<or> pk \<noteq> pr" unfolding own_peers_def by blast
    with Y False show ?thesis by (intro exI [of _ Y]) auto
  qed
qed

text \<open>What one step of the frame on top does, by what the frame holds. \<open>after\<close>: the parts of the invariant that
  the rest of the stack brings along.\<close>

lemma channelI:
  assumes "routes_of (world d) = R" and "\<forall>f \<in> set (tl (stack d)). waiting_ok co R f"
    and "list_all2 (tag_ok co R) ts (queue d)" and "top_ok co R d t"
    and "balanced R B0 (books_of (world d)) (in_transit t ts)"
  shows "channel_inv co R B0 d"
  using assms unfolding channel_inv_def by blast

lemma tl_waiting: "\<forall>f \<in> set fs. waiting_ok co R f \<Longrightarrow> \<forall>f \<in> set (tl fs). waiting_ok co R f"
  by (cases fs) auto

lemma channel_deliver:
  assumes "stack c = FProg (Deliver p k) # fs" and "raising c = None" and "routes_of (world c) = R"
    and "\<forall>f \<in> set fs. waiting_ok co R f" and "list_all2 (tag_ok co R) ts (queue c)"
    and "tag_ok co R tag p" and "\<forall>B. booked co R B k"
    and "balanced R B0 (books_of (world c)) (in_transit Plain (ts @ [tag]))"
  shows "channel_inv co R B0 (deliver p k fs c)"
proof (rule channelI [where t = Plain])
  show "list_all2 (tag_ok co R) (ts @ [tag]) (queue (deliver p k fs c))"
    using assms(5,6) by (simp add: deliver_def Let_def list_all2_appendI)
qed (use assms in \<open>auto simp: deliver_def Let_def top_ok_def\<close>)

lemma channel_plain:
  assumes "channel_inv co R B0 c" and "stack c = FProg p # fs" and "raising c = None"
    and "exec (FProg p) fs c = Some d" and "core_books co"
    and "list_all2 (tag_ok co R) ts (queue c)" and "booked co R (books_of (world c)) p"
    and "balanced R B0 (books_of (world c)) (in_transit Plain ts)"
  shows "channel_inv co R B0 d"
proof -
  from assms(1,2) have R: "routes_of (world c) = R" and fs: "\<forall>f \<in> set fs. waiting_ok co R f"
    by (auto simp: channel_inv_def)
  show ?thesis
  proof (cases p)
    case Ret
    with assms(4) have "d = c\<lparr>stack := fs\<rparr>" by simp
    with R fs tl_waiting [OF fs] assms(6,8) show ?thesis by (intro channelI [where t = Plain] next_frame_ok) auto
  next
    case (Throw e)
    with assms(4) have "d = c\<lparr>raising := Some e, stack := fs\<rparr>" by simp
    with R fs tl_waiting [OF fs] assms(6,8) show ?thesis by (intro channelI [where t = Plain] next_frame_ok) auto
  next
    case (Upd f k)
    with assms(4) have d: "d = c\<lparr>world := f (world c), stack := FProg k # fs\<rparr>" by simp
    show ?thesis
    proof (rule booked_UpdE [OF assms(7) [unfolded Upd]])
      assume f: "\<And>w. routes_of w = R \<Longrightarrow> books_of w = books_of (world c) \<Longrightarrow> same_view w (f w)"
        and k: "booked co R (books_of (world c)) k"
      from f [OF R refl] have "same_view (world c) (f (world c))" .
      with k R fs assms(6,8) show ?thesis
        by (intro channelI [where t = Plain]) (auto simp: d same_view_def top_ok_def)
    next
      fix s cc m pr r msg
      assume "R s = (Some cc, Some m, Some pr)" and "f = sat_record s ''out'' (fst msg) (snd msg) ''master''"
        and "k = Deliver (send_lambda co s msg) r" and "\<And>B. booked co R B r"
      then show ?thesis
        using balanced_sent [OF assms(8), of s msg] R fs assms(3,6)
        by (intro channelI [where t = "Sending s msg"]) (auto simp: d top_ok_def books_sent)
    qed
  next
    case (Dyn g)
    with assms(4) have d: "d = c\<lparr>stack := FProg (g (world c)) # fs\<rparr>" by simp
    from assms(7) [unfolded Dyn] R have "booked co R (books_of (world c)) (g (world c))" by (auto elim: booked_DynE)
    with R fs assms(6,8) show ?thesis by (intro channelI [where t = Plain]) (auto simp: d top_ok_def)
  next
    case (Deliver q k)
    with assms(7) have "\<forall>B. booked co R B q" "\<forall>B. booked co R B k" by (auto elim: booked_DeliverE)
    then have "channel_inv co R B0 (deliver q k fs c)"
      using assms(2,3,6,8) R fs unfolding Deliver
      by (intro channel_deliver [where tag = None]) (auto simp: tag_ok_def)
    with Deliver assms(4) show ?thesis by simp
  next
    case (Pumped q k)
    with assms(7) have "booked co R (books_of (world c)) q" "\<forall>B. booked co R B k" by (auto elim: booked_PumpedE)
    with Pumped assms(4,6,8) R fs show ?thesis
      by (intro channelI [where t = Plain]) (auto simp: pumped_send_def top_ok_def split: if_splits)
  next
    case (Locked l q k)
    with assms(7) have "booked co R (books_of (world c)) q" "\<forall>B. booked co R B k" by (auto elim: booked_LockedE)
    with Locked assms(4,6,8) R fs show ?thesis
      by (intro channelI [where t = Plain]) (auto simp: top_ok_def split: if_splits)
  qed
qed

text \<open>The three steps of an arriving message: the lambda reads the links, \<open>handle_message\<close> reads the peer, and the
  message is recorded.\<close>

lemma channel_arriving:
  assumes "channel_inv co R B0 c" and "stack c = FProg p # fs" and "raising c = None"
    and "exec (FProg p) fs c = Some d" and "core_books co" and "own_peers R"
    and "list_all2 (tag_ok co R) ts (queue c)" and "arriving co R s msg p"
    and "balanced R B0 (books_of (world c)) (in_transit (Arriving s msg) ts)"
  shows "channel_inv co R B0 d"
proof -
  from assms(1,2) have R: "routes_of (world c) = R" and fs: "\<forall>f \<in> set fs. waiting_ok co R f"
    by (auto simp: channel_inv_def)
  from assms(8) obtain cc m pr where l: "R s = (Some cc, Some m, Some pr)"
    and p: "p = send_lambda co s msg \<or> p = recording_handle co m msg cc
      \<or> p = Upd (master_record m ''in'' (fst msg) (snd msg) pr) (core_handle co m msg cc)"
    unfolding arriving_def by blast
  from fun_cong [OF R, of s] l have w: "s_conn (sats (world c) s) = Some cc" "s_master (sats (world c) s) = Some m"
    "c_peer (conns (world c) cc) = pr"
    by (auto simp: routes_of_def sat_peer_def)
  from p consider "\<exists>q. d = c\<lparr>stack := FProg q # fs\<rparr> \<and> arriving co R s msg q"
    | "d = c\<lparr>world := master_record m ''in'' (fst msg) (snd msg) pr (world c), stack := FProg (core_handle co m msg cc) # fs\<rparr>"
  proof (elim disjE)
    assume "p = send_lambda co s msg"
    with assms(4) w have "d = c\<lparr>stack := FProg (recording_handle co m msg cc) # fs\<rparr>" by (simp add: send_lambda_def)
    with that(1) l show ?thesis unfolding arriving_def by blast
  next
    assume "p = recording_handle co m msg cc"
    with assms(4) w have "d = c\<lparr>stack := FProg (Upd (master_record m ''in'' (fst msg) (snd msg) pr) (core_handle co m msg cc)) # fs\<rparr>"
      by (simp add: recording_handle_def)
    with that(1) l show ?thesis unfolding arriving_def by blast
  next
    assume "p = Upd (master_record m ''in'' (fst msg) (snd msg) pr) (core_handle co m msg cc)"
    with assms(4) that(2) show ?thesis by simp
  qed
  then show ?thesis
  proof cases
    case 1
    with R fs assms(3,7,9) show ?thesis by (intro channelI [where t = "Arriving s msg"]) (auto simp: top_ok_def)
  next
    case 2
    have "balanced R B0 (books_of (world d)) (in_transit Plain ts)"
      using balanced_got [OF _ assms(6) l, of B0 "books_of (world c)" msg "\<lambda>k. tagged k ts"] assms(9)
      by (simp add: 2 books_got)
    with R fs assms(7) show ?thesis
      by (intro channelI [where t = Plain]) (auto simp: 2 top_ok_def core_booksD [OF assms(5)])
  qed
qed

lemma channel_drain:
  assumes "channel_inv co R B0 c" and "stack c = FDrain # fs" and "raising c = None"
    and "list_all2 (tag_ok co R) ts (queue c)" and "balanced R B0 (books_of (world c)) (in_transit Plain ts)"
  shows "channel_inv co R B0 (drain_round fs c)"
proof -
  from assms(1,2) have R: "routes_of (world c) = R" and fs: "\<forall>f \<in> set fs. waiting_ok co R f"
    by (auto simp: channel_inv_def)
  show ?thesis
  proof (cases "queue c")
    case Nil
    with R fs tl_waiting [OF fs] assms(4,5) show ?thesis
      by (intro channelI [where t = Plain] next_frame_ok) (auto simp: drain_round_def)
  next
    case (Cons p q)
    with assms(4) obtain t us where ts: "ts = t # us" "tag_ok co R t p" "list_all2 (tag_ok co R) us q"
      by (auto simp: list_all2_Cons2)
    show ?thesis
    proof (cases t)
      case None
      with ts Cons R fs assms(5) show ?thesis
        by (intro channelI [where t = Plain and ts = us]) (auto simp: drain_round_def tag_ok_def top_ok_def)
    next
      case (Some x)
      obtain s msg where x: "x = (s, msg)" by (cases x)
      with Some ts Cons R fs assms(3,5) show ?thesis
        by (intro channelI [where t = "Arriving s msg" and ts = us]) (auto simp: drain_round_def tag_ok_def top_ok_def arriving_def)
    qed
  qed
qed

lemma unwind_sel [simp]:
  "stack (unwind f fs c) = fs" "world (unwind f fs c) = world c" "queue (unwind f fs c) = queue c"
  by (cases f; simp)+

lemma channel_step:
  assumes "core_books co" and "own_peers R" and "pump_rel c d" and "channel_inv co R B0 c"
  shows "channel_inv co R B0 d"
proof -
  obtain ts t where c: "routes_of (world c) = R" "\<forall>f \<in> set (tl (stack c)). waiting_ok co R f"
    "list_all2 (tag_ok co R) ts (queue c)" "top_ok co R c t" "balanced R B0 (books_of (world c)) (in_transit t ts)"
    using assms(4) unfolding channel_inv_def by blast
  from assms(3) show ?thesis
  proof (cases rule: pump_rel_cases)
    case (1 f fs e)
    with c(4) have t: "t = Plain" by (cases t) (auto simp: top_ok_def)
    have fs: "\<forall>f \<in> set fs. waiting_ok co R f" using c(2) 1 by simp
    show ?thesis using c 1 t fs tl_waiting [OF fs]
      by (intro channelI [where t = Plain] next_frame_ok) auto
  next
    case (2 f fs)
    have fs: "\<forall>f \<in> set fs. waiting_ok co R f" using c(2) 2 by simp
    show ?thesis
    proof (cases t)
      case Plain
      show ?thesis
      proof (cases f)
        case (FProg p)
        with c(4) 2 Plain have "booked co R (books_of (world c)) p" by (simp add: top_ok_def)
        from c(5) Plain have "balanced R B0 (books_of (world c)) (in_transit Plain ts)" by simp
        from channel_plain [OF assms(4) _ 2(2) _ assms(1) c(3) \<open>booked co R (books_of (world c)) p\<close> this] 2 FProg
        show ?thesis by simp
      next
        case FDrain
        with 2 c Plain assms(4) channel_drain [of co R B0 c fs ts] show ?thesis by simp
      next
        case (FUnlock l)
        with 2 have "d = c\<lparr>held := held c - {l}, stack := fs\<rparr>" by simp
        with c(1,3,5) Plain fs tl_waiting [OF fs] show ?thesis
          by (intro channelI [where t = Plain] next_frame_ok) auto
      qed
    next
      case (Sending s msg)
      with c(4) 2 obtain k where k: "f = FProg (Deliver (send_lambda co s msg) k)" "\<forall>B. booked co R B k"
        and l: "\<exists>m k pr. R s = (Some m, Some k, Some pr)"
        by (auto simp: top_ok_def)
      have "channel_inv co R B0 (deliver (send_lambda co s msg) k fs c)"
        using c k l fs 2 Sending by (intro channel_deliver [where tag = "Some (s, msg)"]) (auto simp: tag_ok_def)
      with 2 k show ?thesis by simp
    next
      case (Arriving s msg)
      with c(4) 2 obtain p where "f = FProg p" "arriving co R s msg p" by (auto simp: top_ok_def)
      from c(5) Arriving have "balanced R B0 (books_of (world c)) (in_transit (Arriving s msg) ts)" by simp
      from channel_arriving [OF assms(4) _ 2(2) _ assms(1,2) c(3) \<open>arriving co R s msg p\<close> this] 2 \<open>f = FProg p\<close>
      show ?thesis by simp
    qed
  qed
qed

section \<open>The running test\<close>

inductive traffic_step :: "'t core \<Rightarrow> 't hive pump \<Rightarrow> 't hive pump \<Rightarrow> bool" for co where
  tr_run: "pump_rel c d \<Longrightarrow> traffic_step co c d"
| tr_call: "stack c = [] \<Longrightarrow> traffic e \<Longrightarrow> traffic_step co c (call (entry_prog co e) c)"
| tr_time: "traffic_step co c (c\<lparr>world := (world c)\<lparr>now := t\<rparr>\<rparr>)"

lemma channel_call:
  assumes "channel_inv co R B0 c" and "stack c = []" and "\<And>B. booked co R B p"
  shows "channel_inv co R B0 (call p c)"
proof -
  obtain ts t where c: "routes_of (world c) = R" "list_all2 (tag_ok co R) ts (queue c)" "top_ok co R c t"
    "balanced R B0 (books_of (world c)) (in_transit t ts)"
    using assms(1) unfolding channel_inv_def by blast
  then have "t = Plain" using assms(2) by (cases t) (auto simp: top_ok_def)
  with c assms(3) show ?thesis by (intro channelI [where t = Plain]) (auto simp: call_def top_ok_def)
qed

lemma channel_time:
  assumes "channel_inv co R B0 c"
  shows "channel_inv co R B0 (c\<lparr>world := (world c)\<lparr>now := t\<rparr>\<rparr>)"
proof -
  have "routes_of ((world c)\<lparr>now := t\<rparr>) = routes_of (world c)" "books_of ((world c)\<lparr>now := t\<rparr>) = books_of (world c)"
    using same_view_updates(4) [of "world c" t] by (simp_all add: same_view_def)
  moreover from this have "top_ok co R (c\<lparr>world := (world c)\<lparr>now := t\<rparr>\<rparr>) g = top_ok co R c g" for g
    by (simp add: top_ok_def cong: grip.case_cong list.case_cong frame.case_cong)
  ultimately show ?thesis using assms by (simp add: channel_inv_def)
qed

interpretation ch: kept_invariant
  "\<lambda>c. core_books co \<and> own_peers R \<and> stack c = [] \<and> queue c = [] \<and> routes_of (world c) = R \<and> books_of (world c) = B0"
  "traffic_step co" "\<lambda>c. core_books co \<and> own_peers R \<and> channel_inv co R B0 c" for co R B0
proof unfold_locales
  fix c d :: "'a hive pump" and co :: "'a core"
  show "core_books co \<and> own_peers R \<and> channel_inv co R B0 c"
    if "core_books co \<and> own_peers R \<and> stack c = [] \<and> queue c = [] \<and> routes_of (world c) = R \<and> books_of (world c) = B0"
    using that by (auto simp: balanced_def top_ok_def intro!: channelI [where t = Plain and ts = "[]"])
  show "traffic_step co c d \<Longrightarrow> core_books co \<and> own_peers R \<and> channel_inv co R B0 c \<Longrightarrow>
      core_books co \<and> own_peers R \<and> channel_inv co R B0 d"
    by (induction rule: traffic_step.induct)
      (auto intro: channel_step channel_call channel_time booked_entry)
qed

text \<open>C4: Every message a satellite sends arrives at its master once and in order. In any test that leaves the
  connections alone, whatever it calls, whatever the libraries' handlers send in turn, and also after calls that
  raised: whenever the test has control, what the master has recorded as coming in from the satellite is what the
  satellite has recorded as sent, in the same order, up to a tail that still lies in the queue, as the lambdas of these
  very messages; with an empty queue nothing is missing.\<close>

theorem sends_arrive_once_in_order:
  assumes "core_books co" and "own_peers (routes_of (world c0))" and "stack c0 = []" and "queue c0 = []"
    and "reaches (traffic_step co) c0 c" and "stack c = []"
    and "s_conn (sats (world c0) s) = Some k" and "s_master (sats (world c0) s) = Some m"
  defines "p \<equiv> c_peer (conns (world c0) k)"
  shows "\<exists>new late. sent (s_records (sats (world c) s)) = sent (s_records (sats (world c0) s)) @ new @ late
    \<and> got p (m_records (masters (world c) m)) = got p (m_records (masters (world c0) m)) @ new
    \<and> subseq (map (send_lambda co s) late) (queue c) \<and> (queue c = [] \<longrightarrow> late = [])"
proof -
  let ?R = "routes_of (world c0)"
  have "channel_inv co ?R (books_of (world c0)) c"
    using ch.inv_reachable [OF _ assms(5), of ?R "books_of (world c0)"] assms(1-4) by blast
  then obtain ts t where c: "list_all2 (tag_ok co ?R) ts (queue c)" "top_ok co ?R c t"
    "balanced ?R (books_of (world c0)) (books_of (world c)) (in_transit t ts)"
    unfolding channel_inv_def by blast
  from c(2) assms(6) have "t = Plain" by (cases t) (auto simp: top_ok_def)
  moreover have "?R s = (Some k, Some m, Some p)" using assms(7,8) by (simp add: routes_of_def sat_peer_def p_def)
  ultimately obtain Y where "snd (books_of (world c)) m p = snd (books_of (world c0)) m p @ Y"
    "fst (books_of (world c)) s = fst (books_of (world c0)) s @ Y @ tagged s ts"
    using c(3) unfolding balanced_def by fastforce
  moreover have "subseq (map (send_lambda co s) (tagged s ts)) (queue c)"
    using c(1) by (induction rule: list_all2_induct) (auto simp: tag_ok_def split: option.splits)
  ultimately show ?thesis by (auto simp: books_of_def dest: list_emb_Nil2)
qed

lemma quiet_core_books: "core_books quiet_core"
  by (simp add: core_books_def quiet_core_def same_view_def bk_ret)

text \<open>A send of the one satellite of \<open>linked_hive\<close>, run step by step.\<close>

lemma traffic_run:
  assumes "stack c = []" and "traffic e"
  shows "reaches (traffic_step co) c (pump_steps n (call (entry_prog co e) c))"
proof -
  have "reaches (traffic_step co) b d" if "reaches pump_rel b d" for b d
    using that by (induction rule: reaches.induct) (auto intro: reaches.intros tr_run)
  from this [OF reaches_steps] have "reaches (traffic_step co) (call (entry_prog co e) c) (pump_steps n (call (entry_prog co e) c))" .
  then show ?thesis by (rule reaches_trans) (rule reaches_one [where step = "traffic_step co"], rule tr_call [OF assms])
qed

lemmas pump_eval = pump_step_def call_def deliver_def drain_round_def Let_def sat_send_def send_lambda_def
  recording_handle_def quiet_core_def linked_hive eval_nat_numeral

lemma one_send:
  defines "d \<equiv> pump_steps 12 (call (entry_prog quiet_core (ESend 0 (Hive (''bus'', PInt 1)))) (new_pump linked_hive))"
  shows "stack d = []" "queue d = []" "sent (s_records (sats (world d) 0)) = [(''bus'', PInt 1)]"
  by (simp_all add: d_def pump_eval new_pump_def sat_record_def upd_sat_def master_record_def upd_master_def
      sent_def letter_def mk_record_def linked_hive_def example_hive_def upd_conn_def)

theorem sends_arrive_once_in_order_witness:
  "\<exists>d. reaches (traffic_step quiet_core) (new_pump linked_hive) d \<and> stack d = []
     \<and> got ''sat'' (m_records (masters (world d) 0)) = [(''bus'', PInt 1)]"
proof -
  let ?d = "pump_steps 12 (call (entry_prog quiet_core (ESend 0 (Hive (''bus'', PInt 1)))) (new_pump linked_hive))"
  have run: "reaches (traffic_step quiet_core) (new_pump linked_hive) ?d"
    by (rule traffic_run) (simp_all add: new_pump_def)
  have own: "own_peers (routes_of (world (new_pump linked_hive)))"
    by (auto simp: own_peers_def routes_of_def new_pump_def linked_hive_def example_hive_def upd_sat_def upd_master_def upd_conn_def)
  have start: "sent (s_records (sats (world (new_pump linked_hive)) 0)) = []"
    "got ''sat'' (m_records (masters (world (new_pump linked_hive)) 0)) = []" "c_peer (conns (world (new_pump linked_hive)) 0) = ''sat''"
    by (simp_all add: new_pump_def linked_hive_def example_hive_def upd_sat_def upd_master_def upd_conn_def sent_def got_def)
  have links: "s_conn (sats (world (new_pump linked_hive)) 0) = Some 0" "s_master (sats (world (new_pump linked_hive)) 0) = Some 0"
    "stack (new_pump linked_hive) = []" "queue (new_pump linked_hive) = []"
    by (simp_all add: new_pump_def linked_hive)
  obtain new late where "sent (s_records (sats (world ?d) 0)) = new @ late"
    and "got ''sat'' (m_records (masters (world ?d) 0)) = new" and "subseq (map (send_lambda quiet_core 0) late) (queue ?d)"
    using sends_arrive_once_in_order [OF quiet_core_books own links(3,4) run one_send(1) links(1,2)]
    unfolding start append_Nil by blast
  then have "got ''sat'' (m_records (masters (world ?d) 0)) = [(''bus'', PInt 1)]"
    unfolding one_send by (auto dest: list_emb_Nil2)
  with run one_send(1) show ?thesis by blast
qed

end
