(* ===== verification/Identity_Files.thy ===== *)
theory Identity_Files
  imports Topology_Builder Py_Text
begin

text \<open>
  The files behind an identity, in \<open>hivescope/utils.py\<close>: the in-memory configuration \<open>_DictConfig\<close>, the
  temporary directory and key file that \<open>make_identity\<close> creates, and \<open>remove_identity_tmpdir\<close>. The
  builder's model keeps of this a flag, \<open>i_tmpdir\<close>; here the flag is shown to be what the files are.

  \<open>mkdtemp\<close> can raise, and so can \<open>HandShake\<close> of poorman-handshake, which writes the key file at the path it is
  given (\<open>writes_key\<close>): both are arguments. What \<open>rmtree\<close> cannot delete it leaves, the argument \<open>stuck\<close>.
\<close>

section \<open>_DictConfig\<close>

record dict_config =
  dc_path :: string
  dc_items :: "(string, pyval) pydict"

definition new_dict_config :: "string \<Rightarrow> dict_config" where
  "new_dict_config path = \<lparr>dc_path = path, dc_items = []\<rparr>"

text \<open>Nothing is on disk, so \<open>store\<close> and \<open>reload\<close> do nothing.\<close>

definition dc_store :: "dict_config \<Rightarrow> dict_config" where
  "dc_store c = c"

definition dc_reload :: "dict_config \<Rightarrow> dict_config" where
  "dc_reload c = c"

definition dc_merge :: "(string, pyval) pydict \<Rightarrow> dict_config \<Rightarrow> dict_config" where
  "dc_merge other c = c\<lparr>dc_items := fold (\<lambda>(k, v). dset k v) other (dc_items c)\<rparr>"

section \<open>Files\<close>

record disk =
  dk_dirs :: "string set"
  dk_files :: "string set"

text \<open>\<open>p\<close> is \<open>d\<close> itself or a path below it.\<close>

definition inside :: "string \<Rightarrow> string \<Rightarrow> bool" where
  "inside d p \<longleftrightarrow> p = d \<or> take (length (path_join d [])) p = path_join d []"

definition rmtree :: "string set \<Rightarrow> string \<Rightarrow> disk \<Rightarrow> disk" where
  "rmtree stuck d k = \<lparr>dk_dirs = {p \<in> dk_dirs k. inside d p \<longrightarrow> p \<in> stuck},
     dk_files = {p \<in> dk_files k. inside d p \<longrightarrow> p \<in> stuck}\<rparr>"

section \<open>make_identity and remove_identity_tmpdir\<close>

text \<open>The identity with its backing: \<open>io_owned\<close> is \<open>_hivescope_tmpdir\<close>.\<close>

record id_object =
  io_identity :: identity
  io_config :: dict_config
  io_private_key :: string
  io_public_key :: string
  io_owned :: "string option"

definition make_identity_files ::
    "string result \<Rightarrow> (string \<Rightarrow> disk \<Rightarrow> string result \<times> disk) \<Rightarrow> (nat \<Rightarrow> string) \<Rightarrow> nat \<Rightarrow> string \<Rightarrow>
     string option \<Rightarrow> string option \<Rightarrow> string option \<Rightarrow> string option \<Rightarrow> disk \<Rightarrow> id_object result \<times> disk" where
  "make_identity_files mkdtemp keygen uuid n name pw key site tmpdir k =
     (case (case tmpdir of Some t \<Rightarrow> (Inr (t, None), k)
              | None \<Rightarrow> (case mkdtemp of Inl e \<Rightarrow> (Inl e, k)
                  | Inr d \<Rightarrow> (Inr (d, Some d), k\<lparr>dk_dirs := insert d (dk_dirs k)\<rparr>))) of
        (Inl e, k1) \<Rightarrow> (Inl e, k1)
      | (Inr (dir, owned), k1) \<Rightarrow>
          (let pem = path_join dir (name @ ''.pem'') in
           case keygen pem k1 of
             (Inl e, k2) \<Rightarrow> (Inl e, k2)
           | (Inr pub, k2) \<Rightarrow>
               (Inr \<lparr>io_identity = make_identity uuid n name pw key site tmpdir,
                     io_config = new_dict_config (path_join dir (name @ ''_identity.json'')),
                     io_private_key = pem, io_public_key = pub, io_owned = owned\<rparr>, k2)))"

definition remove_identity_tmpdir :: "string set \<Rightarrow> id_object \<Rightarrow> disk \<Rightarrow> id_object \<times> disk" where
  "remove_identity_tmpdir stuck io k =
     (case io_owned io of
        None \<Rightarrow> (io, k)
      | Some d \<Rightarrow> (if d = [] then (io, k) else (io\<lparr>io_owned := None\<rparr>, rmtree stuck d k)))"

definition wait_event :: "bool \<Rightarrow> bool \<Rightarrow> bool" where
  "wait_event set_in_time ev \<longleftrightarrow> ev \<or> set_in_time"

section \<open>Properties\<close>

text \<open>What \<open>HandShake\<close> does to the disk when it returns.\<close>

definition writes_key :: "(string \<Rightarrow> disk \<Rightarrow> string result \<times> disk) \<Rightarrow> bool" where
  "writes_key keygen \<longleftrightarrow> (\<forall>p k pub k'. keygen p k = (Inr pub, k') \<longrightarrow> k' = k\<lparr>dk_files := insert p (dk_files k)\<rparr>)"

definition fresh_dir :: "string \<Rightarrow> disk \<Rightarrow> bool" where
  "fresh_dir d k \<longleftrightarrow> d \<noteq> [] \<and> (\<forall>p \<in> dk_dirs k \<union> dk_files k. \<not> inside d p)"

lemma merge_lookup:
  "dget (dc_items (dc_merge other c)) k = (case map_of (rev other) k of None \<Rightarrow> dget (dc_items c) k | Some v \<Rightarrow> Some v)"
proof -
  have "dget (fold (\<lambda>(k, v). dset k v) other d) k = (case map_of (rev other) k of None \<Rightarrow> dget d k | Some v \<Rightarrow> Some v)" for d
    by (induction other arbitrary: d) (auto simp: dict_simps map_add_def split: option.splits)
  then show ?thesis by (simp add: dc_merge_def)
qed

lemma joined_inside: "d \<noteq> [] \<Longrightarrow> CHR ''/'' \<notin> set x \<Longrightarrow> x \<noteq> [] \<Longrightarrow> inside d (path_join d x)"
proof -
  assume d: "d \<noteq> []" and x: "CHR ''/'' \<notin> set x" "x \<noteq> []"
  then have "hd x \<noteq> CHR ''/''" by (metis hd_in_set)
  with d show ?thesis by (simp add: inside_def path_join_def)
qed

lemma inside_self [simp]: "inside d d"
  by (simp add: inside_def)

lemma rmtree_others:
  "\<forall>p \<in> dk_dirs k \<union> dk_files k. \<not> inside d p \<Longrightarrow> inside d p \<Longrightarrow>
   rmtree {} d (k\<lparr>dk_dirs := insert d (dk_dirs k), dk_files := insert p (dk_files k)\<rparr>) = k"
  by (cases k) (auto simp: rmtree_def)

text \<open>An identity leaves no trace on disk, and takes nothing that is not its own. When \<open>make_identity\<close> created its
  directory, removing it gives the disk back as it was before; with a directory of the caller, nothing is removed,
  and the key file is all that was added. In both cases a second removal changes nothing, and the flag in the builder's
  model says whether there is a directory to remove.\<close>

theorem identity_files_round_trip:
  assumes "writes_key keygen" and "tmpdir = None \<longrightarrow> (\<exists>d. mkdtemp = Inr d \<and> fresh_dir d k)"
    and "CHR ''/'' \<notin> set name"
    and "make_identity_files mkdtemp keygen uuid n name pw key site tmpdir k = (Inr io, k1)"
    and "remove_identity_tmpdir {} io k1 = (io', k2)"
  shows "k2 = (case tmpdir of None \<Rightarrow> k | Some t \<Rightarrow> k\<lparr>dk_files := insert (io_private_key io) (dk_files k)\<rparr>)
    \<and> io_private_key io \<in> dk_files k1
    \<and> remove_identity_tmpdir stuck io' k2 = (io', k2)
    \<and> (i_tmpdir (io_identity io) \<longleftrightarrow> io_owned io \<noteq> None)"
proof (cases tmpdir)
  case None
  then obtain d where d: "mkdtemp = Inr d" "d \<noteq> []" "\<forall>p \<in> dk_dirs k \<union> dk_files k. \<not> inside d p"
    using assms(2) by (auto simp: fresh_dir_def)
  let ?pem = "path_join d (name @ ''.pem'')"
  have pem: "inside d ?pem" using d(2) assms(3) by (intro joined_inside) auto
  obtain pub where "keygen ?pem (k\<lparr>dk_dirs := insert d (dk_dirs k)\<rparr>) = (Inr pub, k1)"
    and io: "io_private_key io = ?pem" "io_owned io = Some d" "i_tmpdir (io_identity io)"
    using assms(4) None d(1)
    by (auto simp: make_identity_files_def make_identity_def Let_def split: prod.splits sum.splits)
  then have "k1 = k\<lparr>dk_dirs := insert d (dk_dirs k), dk_files := insert ?pem (dk_files k)\<rparr>"
    using assms(1) unfolding writes_key_def by fastforce
  then show ?thesis
    using assms(5) io d(2) rmtree_others [OF d(3) pem] None by (auto simp: remove_identity_tmpdir_def)
next
  case (Some t)
  then have "io_owned io = None" "\<not> i_tmpdir (io_identity io)" and
    "k1 = k\<lparr>dk_files := insert (io_private_key io) (dk_files k)\<rparr>"
    using assms(1,4)
    by (auto simp: make_identity_files_def make_identity_def writes_key_def Let_def split: prod.splits sum.splits)
  then show ?thesis using assms(5) Some by (auto simp: remove_identity_tmpdir_def)
qed

text \<open>A key generation that raises leaves the temporary directory behind: there is no identity that could own it.\<close>

theorem failed_key_leaks_directory:
  "make_identity_files (Inr d) (\<lambda>p k. (Inl e, k)) uuid n name pw key site None k
     = (Inl e, k\<lparr>dk_dirs := insert d (dk_dirs k)\<rparr>)"
  by (simp add: make_identity_files_def)

theorem identity_files_round_trip_witness:
  "snd (remove_identity_tmpdir {} \<lparr>io_identity = make_identity (\<lambda>_. ''u'') 0 ''M0'' None None None None,
      io_config = new_dict_config ''/tmp/x/M0_identity.json'', io_private_key = ''/tmp/x/M0.pem'',
      io_public_key = ''pub'', io_owned = Some ''/tmp/x''\<rparr>
      \<lparr>dk_dirs = {''/tmp'', ''/tmp/x''}, dk_files = {''/tmp/x/M0.pem''}\<rparr>)
   = \<lparr>dk_dirs = {''/tmp''}, dk_files = {}\<rparr>"
proof -
  let ?keygen = "\<lambda>p k. (Inr ''pub'', k\<lparr>dk_files := insert p (dk_files k)\<rparr>)"
  let ?k = "\<lparr>dk_dirs = {''/tmp''}, dk_files = {}\<rparr>"
  let ?io = "\<lparr>io_identity = make_identity (\<lambda>_. ''u'') 0 ''M0'' None None None None,
      io_config = new_dict_config ''/tmp/x/M0_identity.json'', io_private_key = ''/tmp/x/M0.pem'',
      io_public_key = ''pub'', io_owned = Some ''/tmp/x''\<rparr>"
  let ?k1 = "\<lparr>dk_dirs = {''/tmp'', ''/tmp/x''}, dk_files = {''/tmp/x/M0.pem''}\<rparr>"
  have "writes_key ?keygen" by (simp add: writes_key_def)
  moreover have "None = None \<longrightarrow> (\<exists>d. Inr ''/tmp/x'' = (Inr d :: string result) \<and> fresh_dir d ?k)"
    by (simp add: fresh_dir_def inside_def path_join_def)
  moreover have "CHR ''/'' \<notin> set ''M0''" by simp
  moreover have "make_identity_files (Inr ''/tmp/x'') ?keygen (\<lambda>_. ''u'') 0 ''M0'' None None None None ?k = (Inr ?io, ?k1)"
    by (simp add: make_identity_files_def path_join_def insert_commute Let_def)
  moreover obtain io' k2 where "remove_identity_tmpdir {} ?io ?k1 = (io', k2)" by fastforce
  ultimately show ?thesis
    using identity_files_round_trip [of ?keygen None "Inr ''/tmp/x''" ?k "''M0''" "\<lambda>_. ''u''" 0 None None None ?io ?k1 io' k2]
    by simp
qed

end
