(* ===== verification/Package_Imports.thy ===== *)
theory Package_Imports
  imports Hive_Prelude
begin

text \<open>
  What \<open>import hivescope\<close> does: the import statements and top-level names of the modules that
  \<open>hivescope/__init__.py\<close> reaches, run the way Python runs them. A module that is asked for the first time is
  entered into \<open>sys.modules\<close>, after its parent packages, and its body is executed; a name that the body has not
  bound yet cannot be imported from it; a body that raises takes its module out of \<open>sys.modules\<close> again.

  Modules that are not part of the repository can be imported or not, which is the argument \<open>inst\<close>, and have the
  names that are asked of them; what such a module imports in turn, its parent packages included, is part of whether it can be
  imported. The standard library always can be imported, and is left out.
\<close>

section \<open>Modules\<close>

text \<open>The modules of hivescope (\<open>M_\<close>) and of its libraries (\<open>L_\<close>, with the dots of the name written as
  underscores).\<close>

datatype modname =
        M_hivescope | M_version | M_utils | M_database | M_recorder | M_agent | M_binary | M_network
  | M_loopback | M_ovoscope_agent | M_plugins | M_node | M_topology | M_assertions | M_scenarios
  | L_poorman_handshake | L_hivemind_bus_client_identity | L_hivemind_plugin_manager_database
  | L_ovos_bus_client_message | L_ovos_utils_fakebus | L_ovos_utils_log
  | L_hivemind_bus_client_message | L_hivemind_plugin_manager_protocols
  | L_hivemind_core_protocol | L_ovos_bus_client_session | L_websockets
  | L_websockets_asyncio_server | L_pyee_base | L_hivemind_bus_client_encryption
  | L_hivemind_bus_client_serialization

text \<open>\<open>Import m x\<close> is \<open>import m\<close>, which binds the first component \<open>x\<close> of the name. \<open>TryFrom\<close> is a \<open>from\<close> import with
  \<open>except ImportError\<close>, whose body binds \<open>None\<close> to the names (\<open>True\<close>) or passes.\<close>

datatype stmt =
    From modname "string list"
  | Import modname string
  | TryFrom modname "string list" bool
  | Defs "string list"

text \<open>The bodies, module by module.\<close>

definition version_body :: "stmt list" where
  "version_body = [
    Defs [''VERSION_MAJOR'', ''VERSION_MINOR'', ''VERSION_BUILD'', ''VERSION_ALPHA'', ''__version__'']]"

definition utils_body :: "stmt list" where
  "utils_body = [
    From L_poorman_handshake [''HandShake''],
    From L_hivemind_bus_client_identity [''NodeIdentity''],
    Defs [''_DictConfig'', ''make_identity'', ''remove_identity_tmpdir'', ''wait_event'']]"

definition database_body :: "stmt list" where
  "database_body = [
    From L_hivemind_plugin_manager_database [''Client''],
    Defs [''InMemoryClientDatabase'']]"

definition recorder_body :: "stmt list" where
  "recorder_body = [
    Defs [''RecordedMessage'', ''MessageRecorder'']]"

definition agent_body :: "stmt list" where
  "agent_body = [
    From L_ovos_bus_client_message [''Message''],
    From L_ovos_utils_fakebus [''FakeBus''],
    From L_ovos_utils_log [''LOG''],
    From L_hivemind_bus_client_message [''HiveMessage'', ''HiveMessageType''],
    From L_hivemind_plugin_manager_protocols [''AgentProtocol''],
    Defs [''TestAgentProtocol'']]"

definition binary_body :: "stmt list" where
  "binary_body = [
    From L_hivemind_plugin_manager_protocols [''BinaryDataHandlerProtocol''],
    From L_hivemind_bus_client_message [''HiveMindBinaryPayloadType''],
    Defs [''BinaryCall'', ''TestBinaryProtocol'']]"

definition network_body :: "stmt list" where
  "network_body = [
    From L_poorman_handshake [''PasswordHandShake''],
    From L_hivemind_plugin_manager_protocols [''NetworkProtocol''],
    From L_hivemind_core_protocol [''HiveMindClientConnection'', ''HiveMindNodeType''],
    From L_ovos_bus_client_session [''Session''],
    Defs [''TestNetworkProtocol'']]"

definition loopback_body :: "stmt list" where
  "loopback_body = [
    Import L_websockets ''websockets'',
    Import L_websockets_asyncio_server ''websockets'',
    From L_poorman_handshake [''PasswordHandShake''],
    From L_hivemind_plugin_manager_protocols [''NetworkProtocol''],
    From L_hivemind_core_protocol [''HiveMindClientConnection'', ''HiveMindNodeType''],
    From L_ovos_bus_client_session [''Session''],
    Defs [''_LOG'', ''_LIVE_FLOORS'', ''LoopbackNetworkProtocol'']]"

definition ovoscope_agent_body :: "stmt list" where
  "ovoscope_agent_body = [
    From L_ovos_bus_client_message [''Message''],
    From L_ovos_utils_log [''LOG''],
    From M_agent [''TestAgentProtocol''],
    Defs [''_require_ovoscope'', ''_HarnessCaptureSession'', ''OvoscopeAgentProtocol'']]"

definition plugins_body :: "stmt list" where
  "plugins_body = [
    From M_agent [''TestAgentProtocol''],
    From M_binary [''TestBinaryProtocol''],
    From M_network [''TestNetworkProtocol''],
    TryFrom M_ovoscope_agent [''OvoscopeAgentProtocol'', ''_HarnessCaptureSession''] False]"

definition node_body :: "stmt list" where
  "node_body = [
    From L_ovos_bus_client_message [''Message''],
    From L_ovos_bus_client_session [''Session''],
    From L_ovos_utils_fakebus [''FakeBus''],
    From L_pyee_base [''EventEmitter''],
    From L_hivemind_bus_client_encryption [''SupportedEncodings'', ''SupportedCiphers''],
    From L_hivemind_bus_client_identity [''NodeIdentity''],
    From L_hivemind_bus_client_message [''HiveMessage'', ''HiveMessageType''],
    From L_hivemind_bus_client_serialization [''decode_bitstring''],
    From L_hivemind_core_protocol [''HiveMindClientConnection'', ''HiveMindListenerProtocol''],
    From L_hivemind_plugin_manager_protocols [''ClientCallbacks''],
    From M_database [''InMemoryClientDatabase''],
    From M_agent [''TestAgentProtocol''],
    From M_binary [''TestBinaryProtocol''],
    From M_network [''TestNetworkProtocol''],
    From M_recorder [''MessageRecorder'', ''RecordedMessage''],
    From M_utils [''make_identity'', ''remove_identity_tmpdir''],
    Defs [''log'', ''_pump'', ''_deliver'', ''InProcessHiveShim'', ''MasterNode'', ''SatelliteNode'',
      ''_instrument_master'']]"

definition topology_body :: "stmt list" where
  "topology_body = [
    From L_ovos_utils_fakebus [''FakeBus''],
    From M_node [''MasterNode'', ''SatelliteNode''],
    From M_agent [''TestAgentProtocol''],
    From M_loopback [''LoopbackNetworkProtocol''],
    From M_network [''TestNetworkProtocol''],
    Defs [''log'', ''RelayNode'', ''TopologyBuilder'']]"

definition assertions_body :: "stmt list" where
  "assertions_body = [
    From L_ovos_bus_client_session [''Session''],
    From M_node [''MasterNode'', ''SatelliteNode''],
    From L_hivemind_bus_client_message [''HiveMessageType''],
    Defs [''ACL_DISALLOWED_TYPE'', ''SESSION_ID_DEFAULT_FORBIDDEN'', ''recorder_mark'', ''_find'',
      ''_find_broadcast_inner'', ''_NON_PAYLOAD_TYPES'', ''_inner_payload'', ''_is_policy_denied'',
      ''_HIVE_MESSAGE_TYPE_VALUES'', ''_denied_records'', ''assert_handshake_complete'',
      ''assert_encryption_match'', ''assert_hello_received'', ''assert_bus_message_routed'',
      ''assert_shared_bus_received'', ''assert_broadcast_delivered'', ''assert_broadcast_blocked'',
      ''assert_propagate_delivered'', ''assert_escalate_delivered'', ''assert_intercom_delivered'',
      ''assert_binary_delivered'', ''assert_acl_enforced'', ''assert_policy_denied'',
      ''assert_session_blacklists_injected'', ''assert_message_routed'',
      ''assert_message_received_by'', ''assert_message_sent_by'', ''assert_client_registered'',
      ''assert_client_not_registered'', ''_QUERY_ANSWER_TYPES'', ''assert_query_routed'',
      ''assert_cascade_routed'', ''_ping_flood_id'', ''assert_ping_responded'',
      ''assert_rendezvous_handled'', ''assert_passthrough_message_delivered'',
      ''assert_msg1_envelope'', ''assert_source_stamped'', ''assert_destination_routed'',
      ''assert_session_inbound_preserved'', ''assert_session_id_natted'',
      ''assert_sessions_isolated'', ''_location_signature'',
      ''assert_session_contents_merged_over_baseline'', ''assert_session_outbound_preserved'',
      ''assert_fifo_order'', ''assert_session_propagated_unchanged'', ''assert_source_hidden'']]"

definition scenarios_body :: "stmt list" where
  "scenarios_body = [
    From M_topology [''TopologyBuilder''],
    From M_agent [''TestAgentProtocol''],
    Defs [''single_satellite'', ''admin_satellite'', ''three_satellites'', ''with_relay'',
      ''chain_topology'', ''star_topology'', ''with_acl_enforcement'', ''hierarchical_hubs'',
      ''with_multiple_agent_protocols'']]"

definition package_body :: "stmt list" where
  "package_body = [
    From M_topology [''TopologyBuilder''],
    From M_node [''MasterNode'', ''SatelliteNode''],
    From M_topology [''RelayNode''],
    From M_recorder [''MessageRecorder'', ''RecordedMessage''],
    From M_database [''InMemoryClientDatabase''],
    From M_agent [''TestAgentProtocol''],
    From M_binary [''TestBinaryProtocol''],
    From M_network [''TestNetworkProtocol''],
    TryFrom M_loopback [''LoopbackNetworkProtocol''] True,
    TryFrom M_ovoscope_agent [''OvoscopeAgentProtocol''] True,
    From M_assertions [''assert_handshake_complete'', ''assert_encryption_match'', ''assert_message_routed'',
      ''assert_message_received_by'', ''assert_message_sent_by'', ''assert_client_registered'',
      ''assert_client_not_registered'', ''assert_acl_enforced'', ''assert_policy_denied'',
      ''assert_session_blacklists_injected'', ''assert_hello_received'',
      ''assert_bus_message_routed'', ''assert_shared_bus_received'', ''assert_broadcast_delivered'',
      ''assert_broadcast_blocked'', ''assert_propagate_delivered'', ''assert_escalate_delivered'',
      ''assert_intercom_delivered'', ''assert_binary_delivered'', ''assert_msg1_envelope'',
      ''assert_source_stamped'', ''assert_destination_routed'', ''assert_session_inbound_preserved'',
      ''assert_session_id_natted'', ''assert_sessions_isolated'',
      ''assert_session_contents_merged_over_baseline'', ''assert_session_outbound_preserved'',
      ''assert_fifo_order'', ''assert_session_propagated_unchanged'', ''assert_source_hidden''],
    From M_scenarios [''single_satellite'', ''admin_satellite'', ''three_satellites'', ''with_relay'',
      ''chain_topology'', ''star_topology'', ''with_acl_enforcement'', ''hierarchical_hubs'',
      ''with_multiple_agent_protocols''],
    From M_version [''__version__'']]"

fun body_of :: "modname \<Rightarrow> stmt list option" where
  "body_of M_hivescope = Some package_body"
| "body_of M_version = Some version_body"
| "body_of M_utils = Some utils_body"
| "body_of M_database = Some database_body"
| "body_of M_recorder = Some recorder_body"
| "body_of M_agent = Some agent_body"
| "body_of M_binary = Some binary_body"
| "body_of M_network = Some network_body"
| "body_of M_loopback = Some loopback_body"
| "body_of M_ovoscope_agent = Some ovoscope_agent_body"
| "body_of M_plugins = Some plugins_body"
| "body_of M_node = Some node_body"
| "body_of M_topology = Some topology_body"
| "body_of M_assertions = Some assertions_body"
| "body_of M_scenarios = Some scenarios_body"
| "body_of m = None"

fun foreign :: "modname \<Rightarrow> bool" where
  "foreign M_hivescope = False"
| "foreign M_version = False"
| "foreign M_utils = False"
| "foreign M_database = False"
| "foreign M_recorder = False"
| "foreign M_agent = False"
| "foreign M_binary = False"
| "foreign M_network = False"
| "foreign M_loopback = False"
| "foreign M_ovoscope_agent = False"
| "foreign M_plugins = False"
| "foreign M_node = False"
| "foreign M_topology = False"
| "foreign M_assertions = False"
| "foreign M_scenarios = False"
| "foreign m = True"

lemma foreign_iff: "foreign m \<longleftrightarrow> body_of m = None"
  by (cases m) simp_all

text \<open>The parent packages of a module, outermost first.\<close>

fun parents_of :: "modname \<Rightarrow> modname list" where
  "parents_of M_version = [M_hivescope]"
| "parents_of M_utils = [M_hivescope]"
| "parents_of M_database = [M_hivescope]"
| "parents_of M_recorder = [M_hivescope]"
| "parents_of M_agent = [M_hivescope, M_plugins]"
| "parents_of M_binary = [M_hivescope, M_plugins]"
| "parents_of M_network = [M_hivescope, M_plugins]"
| "parents_of M_loopback = [M_hivescope, M_plugins]"
| "parents_of M_ovoscope_agent = [M_hivescope, M_plugins]"
| "parents_of M_plugins = [M_hivescope]"
| "parents_of M_node = [M_hivescope]"
| "parents_of M_topology = [M_hivescope]"
| "parents_of M_assertions = [M_hivescope]"
| "parents_of M_scenarios = [M_hivescope]"
| "parents_of m = []"

text \<open>\<open>__all__\<close>, and the version string.\<close>

definition exports :: "string list" where
  "exports = [
     ''TopologyBuilder'', ''MasterNode'', ''SatelliteNode'', ''RelayNode'', ''TestAgentProtocol'',
     ''TestBinaryProtocol'', ''TestNetworkProtocol'', ''LoopbackNetworkProtocol'',
     ''OvoscopeAgentProtocol'', ''MessageRecorder'', ''RecordedMessage'', ''InMemoryClientDatabase'',
     ''assert_handshake_complete'', ''assert_encryption_match'', ''assert_message_routed'',
     ''assert_message_received_by'', ''assert_message_sent_by'', ''assert_client_registered'',
     ''assert_client_not_registered'', ''assert_acl_enforced'', ''assert_policy_denied'',
     ''assert_session_blacklists_injected'', ''assert_hello_received'',
     ''assert_bus_message_routed'', ''assert_shared_bus_received'', ''assert_broadcast_delivered'',
     ''assert_broadcast_blocked'', ''assert_propagate_delivered'', ''assert_escalate_delivered'',
     ''assert_intercom_delivered'', ''assert_binary_delivered'', ''assert_msg1_envelope'',
     ''assert_source_stamped'', ''assert_destination_routed'', ''assert_session_inbound_preserved'',
     ''assert_session_id_natted'', ''assert_sessions_isolated'',
     ''assert_session_contents_merged_over_baseline'', ''assert_session_outbound_preserved'',
     ''assert_fifo_order'', ''assert_session_propagated_unchanged'', ''assert_source_hidden'',
     ''single_satellite'', ''admin_satellite'', ''three_satellites'', ''with_relay'',
     ''chain_topology'', ''star_topology'', ''with_acl_enforcement'', ''hierarchical_hubs'',
     ''with_multiple_agent_protocols'']"

definition version_string :: string where
  "version_string = (let major = 0; minor = 8; build = 8; alpha = 1 in
     nat_str major @ ''.'' @ nat_str minor @ ''.'' @ nat_str build @ (if alpha \<noteq> 0 then ''a'' @ nat_str alpha else []))"

section \<open>Running the import statements\<close>

text \<open>A namespace says for each bound name whether it is bound to an object (and not to \<open>None\<close>); the latest binding
  counts. \<open>asked\<close> is a history variable: the foreign modules looked for.\<close>

type_synonym namespace = "(string \<times> bool) list"

record import_state =
  loaded :: "(modname \<times> namespace) list"
  asked :: "modname list"

abbreviation import_error :: py_exn where
  "import_error \<equiv> OtherError ''ImportError''"

definition bind_names :: "modname \<Rightarrow> (string \<times> bool) list \<Rightarrow> import_state \<Rightarrow> import_state" where
  "bind_names x bs st = st\<lparr>loaded := map (\<lambda>(m, d). (m, if m = x then bs @ d else d)) (loaded st)\<rparr>"

text \<open>The names of \<open>from m import ns\<close> are looked up one by one.\<close>

fun look_up :: "(string \<Rightarrow> bool option) \<Rightarrow> string list \<Rightarrow> (string \<times> bool) list \<Rightarrow> unit result \<times> (string \<times> bool) list" where
  "look_up f [] bs = (Inr (), bs)"
| "look_up f (n # ns) bs =
     (case f n of None \<Rightarrow> (Inl import_error, bs) | Some v \<Rightarrow> look_up f ns ((n, v) # bs))"

definition name_in :: "modname \<Rightarrow> namespace \<Rightarrow> string \<Rightarrow> bool option" where
  "name_in m d n = (if foreign m then Some True else map_of d n)"

definition attribute :: "modname \<Rightarrow> import_state \<Rightarrow> string \<Rightarrow> bool option" where
  "attribute m st n = (case map_of (loaded st) m of None \<Rightarrow> None | Some d \<Rightarrow> name_in m d n)"

text \<open>A loader imports one module. Its parents are imported first.\<close>

type_synonym loader = "modname \<Rightarrow> import_state \<Rightarrow> unit result \<times> import_state"

fun load_each :: "loader \<Rightarrow> modname list \<Rightarrow> import_state \<Rightarrow> unit result \<times> import_state" where
  "load_each load [] st = (Inr (), st)"
| "load_each load (m # ms) st =
     (case load m st of (Inl e, st1) \<Rightarrow> (Inl e, st1) | (Inr _, st1) \<Rightarrow> load_each load ms st1)"

definition load_path :: "loader \<Rightarrow> loader" where
  "load_path load m = load_each load (parents_of m @ [m])"

definition import_from ::
    "loader \<Rightarrow> modname \<Rightarrow> modname \<Rightarrow> string list \<Rightarrow> import_state \<Rightarrow> unit result \<times> import_state" where
  "import_from load x m ns st =
     (case load_path load m st of
        (Inl e, st1) \<Rightarrow> (Inl e, st1)
      | (Inr _, st1) \<Rightarrow>
          (case map_of (loaded st1) m of
             None \<Rightarrow> (Inl import_error, st1)
           | Some d \<Rightarrow> (case look_up (name_in m d) ns [] of (r, bs) \<Rightarrow> (r, bind_names x bs st1))))"

fun run_stmt :: "loader \<Rightarrow> modname \<Rightarrow> stmt \<Rightarrow> import_state \<Rightarrow> unit result \<times> import_state" where
  "run_stmt load x (From m ns) st = import_from load x m ns st"
| "run_stmt load x (Import m n) st =
     (case load_path load m st of (Inl e, st1) \<Rightarrow> (Inl e, st1) | (Inr _, st1) \<Rightarrow> (Inr (), bind_names x [(n, True)] st1))"
| "run_stmt load x (TryFrom m ns none) st =
     (case import_from load x m ns st of
        (Inl e, st1) \<Rightarrow>
          (if e = import_error
           then (Inr (), if none then bind_names x (map (\<lambda>n. (n, False)) ns) st1 else st1)
           else (Inl e, st1))
      | (Inr u, st1) \<Rightarrow> (Inr u, st1))"
| "run_stmt load x (Defs ns) st = (Inr (), bind_names x (map (\<lambda>n. (n, True)) ns) st)"

fun run_stmts :: "loader \<Rightarrow> modname \<Rightarrow> stmt list \<Rightarrow> import_state \<Rightarrow> unit result \<times> import_state" where
  "run_stmts load x [] st = (Inr (), st)"
| "run_stmts load x (s # ss) st =
     (case run_stmt load x s st of (Inl e, st1) \<Rightarrow> (Inl e, st1) | (Inr _, st1) \<Rightarrow> run_stmts load x ss st1)"

text \<open>The first argument bounds how deep imports nest; \<open>import_depth\<close> is more than the number of modules.\<close>

fun import_module :: "nat \<Rightarrow> (modname \<Rightarrow> bool) \<Rightarrow> loader" where
  "import_module 0 inst m st = (Inl (OtherError ''RecursionError''), st)"
| "import_module (Suc n) inst m st =
     (if map_of (loaded st) m \<noteq> None then (Inr (), st)
      else case body_of m of
             None \<Rightarrow>
               (let st1 = st\<lparr>asked := asked st @ [m]\<rparr> in
                if inst m then (Inr (), st1\<lparr>loaded := (m, []) # loaded st1\<rparr>) else (Inl import_error, st1))
           | Some body \<Rightarrow>
               (case run_stmts (import_module n inst) m body (st\<lparr>loaded := (m, []) # loaded st\<rparr>) of
                  (Inl e, st1) \<Rightarrow> (Inl e, st1\<lparr>loaded := filter (\<lambda>(k, d). k \<noteq> m) (loaded st1)\<rparr>)
                | (Inr _, st1) \<Rightarrow> (Inr (), st1)))"

definition import_depth :: nat where
  "import_depth = 20"

definition import_package :: "(modname \<Rightarrow> bool) \<Rightarrow> unit result \<times> import_state" where
  "import_package inst = load_path (import_module import_depth inst) M_hivescope \<lparr>loaded = [], asked = []\<rparr>"

section \<open>A run depends on the libraries it has looked for\<close>

definition agree :: "(modname \<Rightarrow> bool) \<Rightarrow> (modname \<Rightarrow> bool) \<Rightarrow> import_state \<Rightarrow> bool" where
  "agree inst inst' st \<longleftrightarrow> (\<forall>m \<in> set (asked st). inst m = inst' m)"

text \<open>\<open>g\<close> does what \<open>f\<close> does, if the two environments agree on all that \<open>f\<close> has asked for at its end.\<close>

definition follows ::
    "(modname \<Rightarrow> bool) \<Rightarrow> (modname \<Rightarrow> bool) \<Rightarrow> (import_state \<Rightarrow> unit result \<times> import_state) \<Rightarrow>
     (import_state \<Rightarrow> unit result \<times> import_state) \<Rightarrow> bool" where
  "follows inst inst' f g \<longleftrightarrow> (\<forall>st r st'. f st = (r, st') \<longrightarrow>
     set (asked st) \<subseteq> set (asked st') \<and> (agree inst inst' st' \<longrightarrow> g st = (r, st')))"

lemma followsD:
  "follows inst inst' f g \<Longrightarrow> f st = (r, st') \<Longrightarrow> set (asked st) \<subseteq> set (asked st')"
  "follows inst inst' f g \<Longrightarrow> f st = (r, st') \<Longrightarrow> agree inst inst' st' \<Longrightarrow> g st = (r, st')"
  unfolding follows_def by blast+

lemma agree_sub: "agree inst inst' st' \<Longrightarrow> set (asked st) \<subseteq> set (asked st') \<Longrightarrow> agree inst inst' st"
  by (auto simp: agree_def)

lemma asked_bind [simp]: "asked (bind_names x bs st) = asked st"
  by (simp add: bind_names_def)

lemma agree_bind [simp]: "agree inst inst' (bind_names x bs st) = agree inst inst' st"
  by (simp add: agree_def)

text \<open>Sequencing, and a last step that asks for nothing.\<close>

lemma follows_then:
  assumes "follows inst inst' f g" and "\<And>u. follows inst inst' (h u) (k u)"
  shows "follows inst inst'
    (\<lambda>st. case f st of (Inl e, st1) \<Rightarrow> (Inl e, st1) | (Inr u, st1) \<Rightarrow> h u st1)
    (\<lambda>st. case g st of (Inl e, st1) \<Rightarrow> (Inl e, st1) | (Inr u, st1) \<Rightarrow> k u st1)"
  unfolding follows_def
proof (intro allI impI)
  fix st r st'
  assume run: "(case f st of (Inl e, st1) \<Rightarrow> (Inl e, st1) | (Inr u, st1) \<Rightarrow> h u st1) = (r, st')"
  obtain q st1 where f: "f st = (q, st1)" by fastforce
  note f1 = followsD [OF assms(1) f]
  show "set (asked st) \<subseteq> set (asked st') \<and> (agree inst inst' st' \<longrightarrow>
      (case g st of (Inl e, st1) \<Rightarrow> (Inl e, st1) | (Inr u, st1) \<Rightarrow> k u st1) = (r, st'))"
  proof (cases q)
    case (Inl e)
    with run f f1 show ?thesis by auto
  next
    case (Inr u)
    with run f have "h u st1 = (r, st')" by simp
    note h = followsD [OF assms(2) this]
    show ?thesis
    proof (intro conjI impI)
      show "set (asked st) \<subseteq> set (asked st')" using f1(1) h(1) by blast
      assume "agree inst inst' st'"
      with f1(2) h agree_sub [OF _ h(1)] Inr show
        "(case g st of (Inl e, st1) \<Rightarrow> (Inl e, st1) | (Inr u, st1) \<Rightarrow> k u st1) = (r, st')" by simp
    qed
  qed
qed

lemma follows_last:
  assumes "follows inst inst' f g" and "\<And>r st. asked (snd (h r st)) = asked st"
  shows "follows inst inst' (\<lambda>st. case f st of (r, st1) \<Rightarrow> h r st1) (\<lambda>st. case g st of (r, st1) \<Rightarrow> h r st1)"
  unfolding follows_def
proof (intro allI impI)
  fix st r st'
  assume run: "(case f st of (r, st1) \<Rightarrow> h r st1) = (r, st')"
  obtain q st1 where f: "f st = (q, st1)" by fastforce
  with run have h: "h q st1 = (r, st')" by simp
  then have "asked st' = asked st1" using assms(2) [of q st1] by simp
  with followsD [OF assms(1) f] h show "set (asked st) \<subseteq> set (asked st') \<and> (agree inst inst' st' \<longrightarrow>
      (case g st of (r, st1) \<Rightarrow> h r st1) = (r, st'))"
    by (auto simp: agree_def)
qed

lemma follows_pure: "(\<And>st. asked (snd (f st)) = asked st) \<Longrightarrow> follows inst inst' f f"
  unfolding follows_def by (metis snd_conv subset_refl)

lemma follows_each:
  assumes "\<And>m. follows inst inst' (l m) (l' m)"
  shows "follows inst inst' (load_each l ms) (load_each l' ms)"
proof (induction ms)
  case (Cons m ms)
  have "load_each l (m # ms) = (\<lambda>st. case l m st of (Inl e, st1) \<Rightarrow> (Inl e, st1) | (Inr _, st1) \<Rightarrow> load_each l ms st1)" for l
    by (rule ext) simp
  with follows_then [OF assms Cons.IH] show ?case by simp
qed (simp add: follows_pure)

lemma follows_from:
  assumes "\<And>m. follows inst inst' (l m) (l' m)"
  shows "follows inst inst' (import_from l x m ns) (import_from l' x m ns)"
proof -
  have "import_from l x m ns = (\<lambda>st. case load_path l m st of (Inl e, st1) \<Rightarrow> (Inl e, st1)
      | (Inr _, st1) \<Rightarrow>
          (case map_of (loaded st1) m of
             None \<Rightarrow> (Inl import_error, st1)
           | Some d \<Rightarrow> (case look_up (name_in m d) ns [] of (r, bs) \<Rightarrow> (r, bind_names x bs st1))))" for l
    by (rule ext) (simp add: import_from_def)
  moreover have "follows inst inst' (load_path l m) (load_path l' m)"
    unfolding load_path_def by (rule follows_each [OF assms])
  ultimately show ?thesis
    by (simp only:) (intro follows_then follows_pure, auto split: prod.split option.split)
qed

lemma follows_stmt:
  assumes "\<And>m. follows inst inst' (l m) (l' m)"
  shows "follows inst inst' (run_stmt l x s) (run_stmt l' x s)"
proof (cases s)
  case (From m ns)
  with follows_from [OF assms] show ?thesis by (simp add: fun_eq_iff follows_def)
next
  case (Import m n)
  have "run_stmt l x s = (\<lambda>st. case load_path l m st of (Inl e, st1) \<Rightarrow> (Inl e, st1)
      | (Inr _, st1) \<Rightarrow> (Inr (), bind_names x [(n, True)] st1))" for l
    by (rule ext) (simp add: Import)
  moreover have "follows inst inst' (load_path l m) (load_path l' m)"
    unfolding load_path_def by (rule follows_each [OF assms])
  then have "follows inst inst'
      (\<lambda>st. case load_path l m st of (Inl e, st1) \<Rightarrow> (Inl e, st1)
        | (Inr _, st1) \<Rightarrow> (Inr (), bind_names x [(n, True)] st1))
      (\<lambda>st. case load_path l' m st of (Inl e, st1) \<Rightarrow> (Inl e, st1)
        | (Inr _, st1) \<Rightarrow> (Inr (), bind_names x [(n, True)] st1))"
    by (rule follows_then) (simp add: follows_pure)
  ultimately show ?thesis by simp
next
  case (TryFrom m ns none)
  let ?h = "\<lambda>r st1. case r of Inl e \<Rightarrow> (if e = import_error
      then (Inr (), if none then bind_names x (map (\<lambda>n. (n, False)) ns) st1 else st1) else (Inl e, st1))
    | Inr u \<Rightarrow> (Inr u, st1)"
  have "run_stmt l x s = (\<lambda>st. case import_from l x m ns st of (r, st1) \<Rightarrow> ?h r st1)" for l
    by (rule ext) (auto simp: TryFrom split: prod.split sum.split)
  moreover have "follows inst inst' (\<lambda>st. case import_from l x m ns st of (r, st1) \<Rightarrow> ?h r st1)
      (\<lambda>st. case import_from l' x m ns st of (r, st1) \<Rightarrow> ?h r st1)"
    by (rule follows_last [OF follows_from [OF assms]]) (auto split: sum.split)
  ultimately show ?thesis by simp
next
  case (Defs ns)
  then have "run_stmt l x s = (\<lambda>st. (Inr (), bind_names x (map (\<lambda>n. (n, True)) ns) st))" for l
    by (simp add: fun_eq_iff)
  then show ?thesis by (simp add: follows_pure)
qed

lemma follows_stmts:
  assumes "\<And>m. follows inst inst' (l m) (l' m)"
  shows "follows inst inst' (run_stmts l x ss) (run_stmts l' x ss)"
proof (induction ss)
  case (Cons s ss)
  have "run_stmts l x (s # ss) = (\<lambda>st. case run_stmt l x s st of (Inl e, st1) \<Rightarrow> (Inl e, st1)
      | (Inr _, st1) \<Rightarrow> run_stmts l x ss st1)" for l
    by (rule ext) simp
  with follows_then [OF follows_stmt [OF assms] Cons.IH] show ?case by simp
qed (simp add: follows_pure)

lemma follows_module: "follows inst inst' (import_module n inst m) (import_module n inst' m)"
proof (induction n arbitrary: m)
  case 0
  show ?case by (simp add: follows_def)
next
  case (Suc n)
  show ?case
  proof (cases "body_of m")
    case None
    then show ?thesis by (auto simp: follows_def agree_def Let_def split: if_splits)
  next
    case (Some body)
    let ?h = "\<lambda>r st1. case r of Inl e \<Rightarrow> (Inl e, st1\<lparr>loaded := filter (\<lambda>(k, d). k \<noteq> m) (loaded st1)\<rparr>)
      | Inr u \<Rightarrow> (Inr (), st1)"
    let ?run = "\<lambda>inst st. case run_stmts (import_module n inst) m body st of (r, st1) \<Rightarrow> ?h r st1"
    have eq: "import_module (Suc n) i m st = (if map_of (loaded st) m \<noteq> None then (Inr (), st)
        else ?run i (st\<lparr>loaded := (m, []) # loaded st\<rparr>))" for i st
      by (auto simp: Some split: prod.split sum.split)
    have "follows inst inst' (?run inst) (?run inst')"
      by (rule follows_last [OF follows_stmts [OF Suc.IH]]) (auto split: sum.split)
    note d = followsD [OF this]
    show ?thesis
      unfolding follows_def eq
    proof (intro allI impI)
      fix st st' :: import_state and r
      let ?st = "st\<lparr>loaded := (m, []) # loaded st\<rparr>"
      assume h: "(if map_of (loaded st) m \<noteq> None then (Inr (), st) else ?run inst ?st) = (r, st')"
      show "set (asked st) \<subseteq> set (asked st') \<and> (agree inst inst' st' \<longrightarrow>
        (if map_of (loaded st) m \<noteq> None then (Inr (), st) else ?run inst' ?st) = (r, st'))"
        using h d(1) [of ?st r st'] d(2) [of ?st r st'] by (cases "map_of (loaded st) m") simp_all
    qed
  qed
qed

lemma follows_package:
  assumes "import_package inst = (r, st)" and "\<forall>m \<in> set (asked st). inst m = inst' m"
  shows "import_package inst' = (r, st)"
proof -
  have "follows inst inst' (load_path (import_module import_depth inst) M_hivescope)
      (load_path (import_module import_depth inst') M_hivescope)"
    unfolding load_path_def by (rule follows_each [OF follows_module])
  from followsD(2) [OF this] assms show ?thesis by (simp add: import_package_def agree_def)
qed

section \<open>What importing hivescope needs and binds\<close>

definition libraries :: "modname list" where
  "libraries = [L_ovos_utils_fakebus, L_ovos_bus_client_message, L_ovos_bus_client_session, L_pyee_base,
     L_hivemind_bus_client_encryption, L_hivemind_bus_client_identity, L_hivemind_bus_client_message,
     L_hivemind_bus_client_serialization, L_hivemind_core_protocol, L_hivemind_plugin_manager_protocols,
     L_hivemind_plugin_manager_database, L_ovos_utils_log, L_poorman_handshake, L_websockets,
     L_websockets_asyncio_server]"

definition only :: "modname list \<Rightarrow> modname \<Rightarrow> bool" where
  "only ms m \<longleftrightarrow> m \<in> set ms"

definition stops_at_library :: "nat \<Rightarrow> bool" where
  "stops_at_library j = (case import_package (only (take j libraries)) of
     (r, st) \<Rightarrow> r = Inl import_error \<and> asked st = take (Suc j) libraries)"

lemma stops_at_some: "list_all stops_at_library [0,1,2]"
  by code_simp

lemma stops_at_node: "list_all stops_at_library [3,4,5]"
  by code_simp

lemma stops_at_hive: "list_all stops_at_library [6,7,8]"
  by code_simp

lemma stops_at_plug: "list_all stops_at_library [9,10,11]"
  by code_simp

lemma stops_at_ws: "list_all stops_at_library [12,13,14]"
  by code_simp

text \<open>With all of them, the import succeeds, and binds the names of the package's own import statements in
  their order, each to an object.\<close>

definition stmt_names :: "stmt \<Rightarrow> string list" where
  "stmt_names s = (case s of From _ ns \<Rightarrow> ns | Import _ n \<Rightarrow> [n] | TryFrom _ ns _ \<Rightarrow> ns | Defs ns \<Rightarrow> ns)"

definition package_names :: "string list" where
  "package_names = concat (map stmt_names package_body)"

definition full_run :: bool where
  "full_run = (case import_package (only libraries) of (r, st) \<Rightarrow>
     r = Inr () \<and> asked st = libraries \<and>
     map_of (loaded st) M_hivescope = Some (map (\<lambda>n. (n, True)) (rev package_names)))"

lemma full_run: full_run
  by code_simp

lemma succeeds_with_all: "\<exists>st. import_package (only libraries) = (Inr (), st) \<and> asked st = libraries
    \<and> map_of (loaded st) M_hivescope = Some (map (\<lambda>n. (n, True)) (rev package_names))"
  using full_run by (auto simp: full_run_def split: prod.splits)

lemmas stops_at_all = stops_at_some stops_at_node stops_at_hive stops_at_plug stops_at_ws

lemma distinct_libraries: "distinct libraries" and length_libraries: "length libraries = 15"
  by code_simp+

lemma stops_at: "j < 15 \<Longrightarrow> stops_at_library j"
proof -
  assume "j < 15"
  then have "j \<in> set ([0,1,2] @ [3,4,5] @ [6,7,8] @ [9,10,11] @ [12,13,14])" by (simp, presburger)
  then show ?thesis using stops_at_all by (auto simp only: list_all_iff set_append Un_iff)
qed

text \<open>With one library missing, the import ends in an ImportError once it gets to the first missing one.\<close>

lemma import_stops:
  assumes "j < length libraries" and "\<forall>i < j. inst (libraries ! i)" and "\<not> inst (libraries ! j)"
  shows "fst (import_package inst) = Inl import_error \<and> asked (snd (import_package inst)) = take (Suc j) libraries"
proof -
  obtain r st where run: "import_package (only (take j libraries)) = (r, st)" by fastforce
  with stops_at [of j] assms(1) have st: "r = Inl import_error" "asked st = take (Suc j) libraries"
    by (simp_all add: stops_at_library_def length_libraries)
  have "\<forall>m \<in> set (asked st). only (take j libraries) m = inst m"
  proof
    fix m assume "m \<in> set (asked st)"
    then obtain i where i: "i \<le> j" "m = libraries ! i"
      using assms(1) unfolding st(2) in_set_conv_nth by (auto simp: less_Suc_eq_le)
    show "only (take j libraries) m = inst m"
    proof (cases "i = j")
      case True
      have "libraries ! j \<notin> set (take j libraries)"
        using assms(1) distinct_libraries by (auto simp: in_set_conv_nth nth_eq_iff_index_eq)
      with True i assms(3) show ?thesis by (simp add: only_def)
    next
      case False
      with i have i': "i < j" by simp
      then have "take j libraries ! i \<in> set (take j libraries)" using assms(1) by (intro nth_mem) simp
      with i i' assms(2) show ?thesis by (simp add: only_def)
    qed
  qed
  from follows_package [OF run this] st show ?thesis by simp
qed

lemma import_runs:
  assumes "\<forall>m \<in> set libraries. inst m"
  shows "\<exists>st. import_package inst = (Inr (), st) \<and> asked st = libraries
    \<and> map_of (loaded st) M_hivescope = Some (map (\<lambda>n. (n, True)) (rev package_names))"
proof -
  obtain st where run: "import_package (only libraries) = (Inr (), st)" and st: "asked st = libraries"
    "map_of (loaded st) M_hivescope = Some (map (\<lambda>n. (n, True)) (rev package_names))"
    using succeeds_with_all by blast
  have "\<forall>m \<in> set (asked st). only libraries m = inst m" using assms st(1) by (simp add: only_def)
  from follows_package [OF run this] st show ?thesis by blast
qed

lemma first_missing: "\<not> (\<forall>m \<in> set ms. p m) \<Longrightarrow> length (takeWhile p ms) < length ms"
  by (induction ms) auto

lemma takeWhile_holds: "\<forall>i < length (takeWhile p ms). p (ms ! i)"
  by (metis nth_mem set_takeWhileD takeWhile_nth)

lemma takeWhile_and_next: "take (Suc (length (takeWhile p ms))) ms = takeWhile p ms @ take 1 (dropWhile p ms)"
  by (induction ms) auto

text \<open>C40: \<open>import hivescope\<close> succeeds exactly when all fifteen foreign modules can be imported, websockets among
  them, whatever else is installed; otherwise it raises ImportError at the first one missing, and looks for no
  further one.\<close>

theorem import_needs_all_libraries:
  "import_package inst = (r, st) \<Longrightarrow>
   r = (if \<forall>m \<in> set libraries. inst m then Inr () else Inl import_error) \<and>
   asked st = takeWhile inst libraries @ take 1 (dropWhile inst libraries)"
proof (cases "\<forall>m \<in> set libraries. inst m")
  case True
  assume "import_package inst = (r, st)"
  then have "r = Inr ()" "asked st = libraries" using import_runs [OF True] by auto
  moreover have "takeWhile inst libraries = libraries" "dropWhile inst libraries = []"
    using True by (simp_all add: takeWhile_eq_all_conv dropWhile_eq_Nil_conv)
  then have "takeWhile inst libraries @ take 1 (dropWhile inst libraries) = libraries" by (simp only: append_Nil2 take_Nil)
  ultimately show ?thesis by (simp only: if_P [OF True] simp_thms)
next
  case False
  let ?j = "length (takeWhile inst libraries)"
  assume run: "import_package inst = (r, st)"
  have j: "?j < length libraries" using False by (rule first_missing)
  from import_stops [OF j takeWhile_holds nth_length_takeWhile [OF j]] run
  have "r = Inl import_error" "asked st = take (Suc ?j) libraries" by auto
  moreover have "take (Suc ?j) libraries = takeWhile inst libraries @ take 1 (dropWhile inst libraries)"
    by (rule takeWhile_and_next)
  ultimately show ?thesis using False by simp
qed

theorem import_needs_all_libraries_witness:
  "fst (import_package (\<lambda>m. m \<noteq> L_websockets)) = Inl import_error \<and>
   last (asked (snd (import_package (\<lambda>m. m \<noteq> L_websockets)))) = L_websockets"
proof -
  obtain r st where run: "import_package (\<lambda>m. m \<noteq> L_websockets) = (r, st)" by fastforce
  from import_needs_all_libraries [OF this] run show ?thesis by (simp add: libraries_def)
qed

lemma exports_imported: "list_all (\<lambda>n. n \<in> set package_names) exports"
  by code_simp

lemma distinct_exports: "distinct exports"
  by code_simp

text \<open>After a successful import every name of \<open>__all__\<close> is an attribute of the package, bound to an object and
  never to the placeholder \<open>None\<close>, and each name is exported once.\<close>

theorem exported_names_are_objects:
  assumes "import_package inst = (Inr (), st)"
  shows "distinct exports \<and> (\<forall>n \<in> set exports. attribute M_hivescope st n = Some True)"
proof -
  have "\<forall>m \<in> set libraries. inst m"
  proof (rule ccontr)
    let ?j = "length (takeWhile inst libraries)"
    assume "\<not> (\<forall>m \<in> set libraries. inst m)"
    then have j: "?j < length libraries" by (rule first_missing)
    from import_stops [OF j takeWhile_holds nth_length_takeWhile [OF j]] assms show False by simp
  qed
  from import_runs [OF this] assms
  have "map_of (loaded st) M_hivescope = Some (map (\<lambda>n. (n, True)) (rev package_names))" by simp
  moreover have "map_of (map (\<lambda>n. (n, True)) ns) n = Some True" if "n \<in> set ns" for n :: string and ns
    using that by (induction ns) auto
  ultimately show ?thesis
    using exports_imported distinct_exports by (auto simp: attribute_def name_in_def list_all_iff)
qed

theorem exported_names_are_objects_witness:
  "\<exists>st. import_package (only libraries) = (Inr (), st) \<and>
    attribute M_hivescope st ''LoopbackNetworkProtocol'' = Some True"
proof -
  obtain st where run: "import_package (only libraries) = (Inr (), st)"
    using succeeds_with_all by blast
  moreover have "''LoopbackNetworkProtocol'' \<in> set exports" by code_simp
  ultimately show ?thesis using exported_names_are_objects [OF run] by blast
qed

lemma version_is: "version_string = ''0.8.8a1''"
  by code_simp

end
