(* ===== verification/Ovoscope_Agent.thy ===== *)
theory Ovoscope_Agent
  imports Agent_Protocol "HOL-Library.Sublist"
begin

text \<open>
  \<open>OvoscopeAgentProtocol\<close> of \<open>hivescope/plugins/ovoscope_agent.py\<close>: the agent protocol on the bus of
  a MiniCroft, with its assertions, its polling helpers and its capture sessions.

  A protocol and a MiniCroft are their numbers. The bus of a MiniCroft is an \<open>agent_bus\<close>, which also
  holds what each protocol recorded and installed on it. ovoscope is not part of the repository: whether
  it can be imported, the MiniCroft that \<open>get_minicroft\<close> starts, and what \<open>stop\<close> and \<open>finish\<close> do
  are arguments.
\<close>

section \<open>Life cycle\<close>

record ov_world =
  ov_bus :: "nat \<Rightarrow> agent_bus"
  ov_running :: "nat set"
  ov_mini :: "nat \<Rightarrow> nat option"
  ov_attached :: "nat \<Rightarrow> nat option"

text \<open>\<open>_require_ovoscope\<close> on what importing ovoscope gives; \<open>None\<close>: it is not installed.\<close>

definition require_ovoscope :: "'a option \<Rightarrow> 'a result" where
  "require_ovoscope lib = (case lib of None \<Rightarrow> Inl (OtherError ''ImportError'') | Some x \<Rightarrow> Inr x)"

text \<open>\<open>boot\<close> is what ovoscope's \<open>get_minicroft\<close> does when it is called.\<close>

definition ov_attach :: "nat \<Rightarrow> nat \<Rightarrow> ov_world \<Rightarrow> ov_world" where
  "ov_attach p n w = w\<lparr>ov_attached := (ov_attached w)(p := Some n),
     ov_bus := (ov_bus w)(n := post_init p (ov_bus w n))\<rparr>"

definition ov_post_init :: "nat result option \<Rightarrow> nat \<Rightarrow> ov_world \<Rightarrow> unit result \<times> ov_world" where
  "ov_post_init boot p w =
     (case require_ovoscope boot of
        Inl e \<Rightarrow> (Inl e, w)
      | Inr r \<Rightarrow>
          (case ov_mini w p of
             Some n \<Rightarrow> (Inr (), ov_attach p n w)
           | None \<Rightarrow>
               (case r of
                  Inl e \<Rightarrow> (Inl e, w)
                | Inr n \<Rightarrow> (Inr (), ov_attach p n (w\<lparr>ov_mini := (ov_mini w)(p := Some n),
                    ov_running := insert n (ov_running w)\<rparr>)))))"

text \<open>\<open>stops\<close> is what \<open>stop\<close> raises, if it does; the exception is logged.\<close>

definition ov_shutdown :: "py_exn option \<Rightarrow> nat \<Rightarrow> ov_world \<Rightarrow> ov_world" where
  "ov_shutdown stops p w =
     (let w1 = (case ov_attached w p of
            None \<Rightarrow> w
          | Some n \<Rightarrow> w\<lparr>ov_bus := (ov_bus w)(n := agent_shutdown p (ov_bus w n))\<rparr>) in
      case ov_mini w1 p of
        None \<Rightarrow> w1
      | Some n \<Rightarrow> w1\<lparr>ov_mini := (ov_mini w1)(p := None),
          ov_running := (if stops = None then ov_running w1 - {n} else ov_running w1)\<rparr>)"

section \<open>Assertions on the skill bus\<close>

definition assert_skill_emitted :: "nat \<Rightarrow> string \<Rightarrow> nat \<Rightarrow> agent_bus \<Rightarrow> unit result" where
  "assert_skill_emitted p mt n b = assert_injected p mt n b"

definition assert_skill_not_emitted :: "nat \<Rightarrow> string \<Rightarrow> agent_bus \<Rightarrow> unit result" where
  "assert_skill_not_emitted p mt b = assert_not_injected p mt b"

definition skill_messages :: "nat \<Rightarrow> string \<Rightarrow> agent_bus \<Rightarrow> pyval list" where
  "skill_messages p mt b = filter (of_type mt) (ag_injected b p)"

definition last_speak :: "nat \<Rightarrow> agent_bus \<Rightarrow> pyval option" where
  "last_speak p b = last_injected p ''speak'' b"

text \<open>\<open>m.data.get("utterance", "")\<close>.\<close>

definition utterance_of :: "pyval \<Rightarrow> pyval result" where
  "utterance_of m = (case msg_data m of
     PDict d \<Rightarrow> Inr (case dget d ''utterance'' of None \<Rightarrow> PStr [] | Some u \<Rightarrow> u)
   | _ \<Rightarrow> Inl AttributeError)"

definition spoken_utterances :: "nat \<Rightarrow> agent_bus \<Rightarrow> pyval list result" where
  "spoken_utterances p b = rmap utterance_of (filter (of_type ''speak'') (ag_injected b p))"

section \<open>Polling\<close>

text \<open>The polls are the readings of the clock with what \<open>injected\<close> held right before (a look at the
  list that fails is followed by the reading); \<open>None\<close>: the call has not returned yet.\<close>

definition emitted_at_least :: "string \<Rightarrow> nat \<Rightarrow> pyval list \<Rightarrow> bool" where
  "emitted_at_least mt n xs \<longleftrightarrow> n \<le> length (filter (of_type mt) xs)"

definition wait_for_skill_emission ::
    "string \<Rightarrow> nat \<Rightarrow> int \<Rightarrow> (int \<times> pyval list) list \<Rightarrow> unit result option" where
  "wait_for_skill_emission mt n deadline polls =
     map_option require (poll_until (emitted_at_least mt n) deadline polls)"

text \<open>Here the clock is read first; past the deadline the list is looked at once more.\<close>

fun wait_last_injected :: "string \<Rightarrow> int \<Rightarrow> (int \<times> pyval list) list \<Rightarrow> pyval option option" where
  "wait_last_injected mt deadline [] = None"
| "wait_last_injected mt deadline ((t, xs) # ps) =
     (let msg = last_opt (filter (of_type mt) xs) in
      if t < deadline then (if msg \<noteq> None then Some msg else wait_last_injected mt deadline ps)
      else Some msg)"

section \<open>Capture sessions\<close>

record capture =
  cap_minicroft :: "nat option"
  cap_eof :: "string list"
  cap_ignore :: "string list"
  cap_responses :: "pyval list"
  cap_timed_out :: bool

text \<open>\<open>x or default\<close> on an optional list: an empty list counts as absent.\<close>

definition list_or :: "string list option \<Rightarrow> string list \<Rightarrow> string list" where
  "list_or x d = (case x of None \<Rightarrow> d | Some ys \<Rightarrow> if ys = [] then d else ys)"

text \<open>\<open>lib\<close>: the default lists of ovoscope, if it is installed. After a shutdown the protocol has no MiniCroft
  any more, and the capture is opened on \<open>None\<close>.\<close>

definition new_capture ::
    "(string list \<times> string list) option \<Rightarrow> nat option \<Rightarrow> string list option \<Rightarrow> string list option \<Rightarrow> capture result" where
  "new_capture lib mini eof ignore =
     rbind (require_ovoscope lib) (\<lambda>(default_eof, default_ignored).
       Inr \<lparr>cap_minicroft = mini, cap_eof = list_or eof default_eof, cap_ignore = list_or ignore default_ignored,
         cap_responses = [], cap_timed_out = False\<rparr>)"

text \<open>\<open>wait\<close>: \<open>complete\<close> is what waiting on the library's \<open>done\<close> event returned.\<close>

definition cap_wait :: "(capture \<Rightarrow> pyval list) \<Rightarrow> bool \<Rightarrow> capture \<Rightarrow> pyval list \<times> capture" where
  "cap_wait finish complete c = (let c1 = c\<lparr>cap_timed_out := \<not> complete\<rparr> in (finish c1, c1))"

definition assert_complete :: "capture \<Rightarrow> unit result" where
  "assert_complete c = require (\<not> cap_timed_out c)"

definition cap_messages :: "capture \<Rightarrow> pyval list" where
  "cap_messages c = cap_responses c"

section \<open>Lemmas\<close>

lemma emitted_mono: "prefix xs ys \<Longrightarrow> emitted_at_least mt n xs \<Longrightarrow> emitted_at_least mt n ys"
  by (auto simp: emitted_at_least_def prefix_def)

lemma poll_skip:
  "\<forall>(u, x) \<in> set before. u < deadline \<Longrightarrow> \<forall>(u, x) \<in> set before. \<not> ok x \<Longrightarrow>
   poll_until ok deadline (before @ rest) = poll_until ok deadline rest"
  by (induction before) auto

lemma wait_last_skip:
  "\<forall>(u, x) \<in> set before. u < deadline \<and> filter (of_type mt) x = [] \<Longrightarrow>
   wait_last_injected mt deadline (before @ rest) = wait_last_injected mt deadline rest"
  by (induction before) (auto simp: last_opt_def)

lemma wait_last_hit:
  assumes "\<forall>(u, x) \<in> set before. u < deadline" and "\<exists>(u, x) \<in> set before. filter (of_type mt) x \<noteq> []"
  shows "\<exists>u x. (u, x) \<in> set before \<and> filter (of_type mt) x \<noteq> []
    \<and> wait_last_injected mt deadline (before @ rest) = Some (Some (last (filter (of_type mt) x)))"
  using assms
proof (induction before)
  case (Cons b before)
  obtain u x where b: "b = (u, x)" by (cases b)
  show ?case
  proof (cases "filter (of_type mt) x = []")
    case True
    with Cons.prems b have "\<exists>v y. (v, y) \<in> set before \<and> filter (of_type mt) y \<noteq> []
      \<and> wait_last_injected mt deadline (before @ rest) = Some (Some (last (filter (of_type mt) y)))"
      by (intro Cons.IH) auto
    moreover have "wait_last_injected mt deadline ((b # before) @ rest) = wait_last_injected mt deadline (before @ rest)"
      using True b Cons.prems(1) by (simp add: last_opt_def)
    ultimately show ?thesis by (metis list.set_intros(2))
  next
    case False
    with Cons.prems b show ?thesis by (auto simp: last_opt_def)
  qed
qed simp

lemma run_emit_links [simp]:
  "ag_orig (run_emit des e msg w) = ag_orig w" "ag_wrapper (run_emit des e msg w) = ag_wrapper w"
  by (induction des e msg w rule: run_emit.induct) (auto simp: Let_def split: pyval.split)

section \<open>Properties\<close>

text \<open>Shutting down undoes the wiring whatever MiniCroft does. For a protocol that came up on a
  bus without handlers of its own, after any emissions the shutdown leaves the bus with the \<open>emit\<close> and the
  handlers it had before, drops the reference to the MiniCroft even when its \<open>stop\<close> raises, stops it
  otherwise, and a second shutdown changes nothing.\<close>

theorem ovoscope_shutdown_releases:
  assumes "ov_post_init boot p w = (Inr (), w1)"
    and "ov_attached w1 p = Some n" and "handlers_of p \<inter> set (ab_handlers (ov_bus w n)) = {}"
    and "ov_attached w2 = ov_attached w1" and "ov_mini w2 = ov_mini w1" and "ov_running w2 = ov_running w1"
    and "ov_bus w2 n = fold (bus_emit des) msgs (ov_bus w1 n)"
    and "w3 = ov_shutdown stops p w2"
  shows "ab_emit (ov_bus w3 n) = ab_emit (ov_bus w n) \<and> ab_handlers (ov_bus w3 n) = ab_handlers (ov_bus w n)
    \<and> ov_mini w3 p = None \<and> (stops = None \<longrightarrow> n \<notin> ov_running w3)
    \<and> ab_emit (ov_bus (ov_shutdown stops' p w3) n) = ab_emit (ov_bus w3 n)
    \<and> ab_handlers (ov_bus (ov_shutdown stops' p w3) n) = ab_handlers (ov_bus w3 n)
    \<and> ov_running (ov_shutdown stops' p w3) = ov_running w3"
proof -
  have w1: "ov_mini w1 p = Some n" "ov_bus w1 n = post_init p (ov_bus w n)"
    using assms(1,2) by (auto simp: ov_post_init_def require_ovoscope_def ov_attach_def split: option.splits sum.splits)
  have bus: "ab_emit (fold (bus_emit des) msgs b) = ab_emit b \<and> ab_handlers (fold (bus_emit des) msgs b) = ab_handlers b
      \<and> ag_orig (fold (bus_emit des) msgs b) = ag_orig b \<and> ag_wrapper (fold (bus_emit des) msgs b) = ag_wrapper b" for b
    by (induction msgs arbitrary: b) (simp_all add: bus_emit_def)
  have w3: "ov_bus w3 n = agent_shutdown p (ov_bus w2 n)" "ov_mini w3 p = None" "ov_attached w3 p = Some n"
    "ov_running w3 = (if stops = None then ov_running w2 - {n} else ov_running w2)"
    using assms(2,4,5) w1 by (auto simp: assms(8) ov_shutdown_def Let_def)
  from w3 have again: "ov_bus (ov_shutdown stops' p w3) n = agent_shutdown p (ov_bus w3 n)"
    "ov_running (ov_shutdown stops' p w3) = ov_running w3"
    by (simp_all add: ov_shutdown_def Let_def)
  show ?thesis
    using assms(3,7) w1 w3 again bus [of "ov_bus w1 n"]
    by (auto simp: shutdown_emit handlers_of_def remove1_append remove1_idem)
qed

theorem ovoscope_shutdown_releases_witness:
  "\<exists>w3 :: ov_world. ab_emit (ov_bus w3 7) = Base_Emit \<and> ov_mini w3 0 = None"
proof -
  let ?w = "\<lparr>ov_bus = (\<lambda>n. bare_bus), ov_running = {}, ov_mini = (\<lambda>p. None), ov_attached = (\<lambda>p. None)\<rparr>"
  obtain w1 where w1: "ov_post_init (Some (Inr 7)) 0 ?w = (Inr (), w1)" "ov_attached w1 0 = Some 7"
    by (simp add: ov_post_init_def require_ovoscope_def ov_attach_def)
  have "ov_bus w1 7 = fold (bus_emit (\<lambda>s. Inl ValueError)) [] (ov_bus w1 7)"
    and "handlers_of 0 \<inter> set (ab_handlers (ov_bus ?w 7)) = {}"
    by (simp_all add: bare_bus_def)
  from ovoscope_shutdown_releases [OF w1 this(2) refl refl refl this(1) refl, of "Some ValueError"]
  have "ab_emit (ov_bus (ov_shutdown (Some ValueError) 0 w1) 7) = Base_Emit
    \<and> ov_mini (ov_shutdown (Some ValueError) 0 w1) 0 = None" by (simp add: bare_bus_def)
  then show ?thesis by blast
qed

text \<open>A MiniCroft that the caller brought along, and that was running before, is stopped too.\<close>

theorem shutdown_stops_borrowed_minicroft:
  assumes "ov_mini w p = Some n" and "n \<in> ov_running w"
    and "ov_post_init (Some r) p w = (Inr (), w1)"
  shows "n \<in> ov_running w1 \<and> n \<notin> ov_running (ov_shutdown None p w1)"
  using assms by (auto simp: ov_post_init_def require_ovoscope_def ov_attach_def ov_shutdown_def Let_def)

text \<open>Fast and slow calls are judged alike. The recorded list only grows while a call polls, so once a
  reading has reached the deadline \<open>wait_for_skill_emission\<close> has returned, and it passes exactly when
  the list of that reading holds at least the number of messages asked for, at whichever poll it
  noticed; \<open>wait_last_injected\<close> has returned as well, with \<open>None\<close> exactly when that list holds no
  such message and with a message of the type from the list otherwise.\<close>

theorem skill_waits_judge_alike:
  assumes "\<forall>(u, x) \<in> set before. u < deadline \<and> prefix x xs" and "deadline \<le> t"
  defines "polls \<equiv> before @ [(t, xs)]"
  shows "wait_for_skill_emission mt n deadline polls
       = Some (if emitted_at_least mt n xs then Inr () else Inl AssertionError)
    \<and> (\<exists>r. wait_last_injected mt deadline polls = Some r
         \<and> (r = None \<longleftrightarrow> filter (of_type mt) xs = [])
         \<and> (\<forall>m. r = Some m \<longrightarrow> of_type mt m \<and> m \<in> set xs))"
proof (intro conjI)
  have "poll_until (emitted_at_least mt n) deadline polls \<noteq> None"
    using assms(2) by (auto simp: polls_def poll_until_None)
  moreover have "poll_until (emitted_at_least mt n) deadline polls = Some True \<longleftrightarrow> emitted_at_least mt n xs"
  proof
    assume "poll_until (emitted_at_least mt n) deadline polls = Some True"
    then obtain u x where "(u, x) \<in> set polls" "emitted_at_least mt n x"
      unfolding poll_until_True by (metis in_set_conv_decomp)
    with assms(1) show "emitted_at_least mt n xs" by (auto simp: polls_def intro: emitted_mono)
  next
    assume xs: "emitted_at_least mt n xs"
    show "poll_until (emitted_at_least mt n) deadline polls = Some True"
      unfolding poll_until_True polls_def using assms(1) xs
      by (intro exI [of _ before] exI [of _ t] exI [of _ xs] exI [of _ "[]"]) auto
  qed
  ultimately show "wait_for_skill_emission mt n deadline polls
       = Some (if emitted_at_least mt n xs then Inr () else Inl AssertionError)"
    unfolding wait_for_skill_emission_def require_def
    by (cases "poll_until (emitted_at_least mt n) deadline polls") auto
next
  show "\<exists>r. wait_last_injected mt deadline polls = Some r
         \<and> (r = None \<longleftrightarrow> filter (of_type mt) xs = [])
         \<and> (\<forall>m. r = Some m \<longrightarrow> of_type mt m \<and> m \<in> set xs)"
  proof (cases "\<exists>(u, x) \<in> set before. filter (of_type mt) x \<noteq> []")
    case True
    have "\<forall>(u, x) \<in> set before. u < deadline" using assms(1) by auto
    from wait_last_hit [OF this True, of "[(t, xs)]"] obtain u x where
      x: "(u, x) \<in> set before" "filter (of_type mt) x \<noteq> []"
      and r: "wait_last_injected mt deadline polls = Some (Some (last (filter (of_type mt) x)))"
      unfolding polls_def by blast
    have "last (filter (of_type mt) x) \<in> set (filter (of_type mt) x)" using x(2) by (rule last_in_set)
    moreover have "set x \<subseteq> set xs" using assms(1) x(1) by (auto simp: prefix_def)
    ultimately show ?thesis using r by (auto simp: filter_empty_conv)
  next
    case False
    with assms(1) have "wait_last_injected mt deadline polls = wait_last_injected mt deadline [(t, xs)]"
      unfolding polls_def by (intro wait_last_skip) auto
    with assms(2) have "wait_last_injected mt deadline polls = Some (last_opt (filter (of_type mt) xs))"
      by simp
    then show ?thesis by (auto dest: last_opt_in)
  qed
qed

theorem skill_waits_judge_alike_witness:
  "wait_for_skill_emission ''speak'' 1 5 [(1, []), (6, [PMsg ''speak'' PNone PNone])] = Some (Inr ())"
  using skill_waits_judge_alike [of "[(1, [])]" 5 "[PMsg ''speak'' PNone PNone]" 6 "''speak''" 1]
  by (simp add: emitted_at_least_def of_type_def)

end
