(* ===== verification/Topology_Plot.thy ===== *)
theory Topology_Plot
  imports Topology_Builder Py_Text
begin

text \<open>
  What the drawings of \<open>hivescope/topology_plot.py\<close> show: the graph that \<open>plot_topology_builder\<close> builds
  from a builder, with relays merged into one node, and the one that \<open>plot_hive_mapper\<close> builds from
  the discovery state of hivemind-core.

  networkx and matplotlib are libraries: a drawing is what is handed to them, the nodes in order, the edges,
  colours, labels, legend, layout and title, with the absolute path of the file. Python iterates a set of
  names in an order of its own, so the node order is an argument. Which layout algorithms fail
  on the graph, and how a latency is printed, are arguments too.
\<close>

section \<open>Drawings\<close>

text \<open>\<open>nx.DiGraph\<close>: each node with its \<open>label\<close> attribute, if it has one.\<close>

record digraph =
  g_nodes :: "(string, string option) pydict"
  g_edges :: "(string \<times> string) list"

definition empty_graph :: digraph where
  "empty_graph = \<lparr>g_nodes = [], g_edges = []\<rparr>"

definition add_node :: "string \<Rightarrow> string option \<Rightarrow> digraph \<Rightarrow> digraph" where
  "add_node n label G = G\<lparr>g_nodes := dset n label (g_nodes G)\<rparr>"

definition touch_node :: "string \<Rightarrow> digraph \<Rightarrow> digraph" where
  "touch_node n G = (if dget (g_nodes G) n = None then add_node n None G else G)"

definition add_edge :: "string \<Rightarrow> string \<Rightarrow> digraph \<Rightarrow> digraph" where
  "add_edge u v G =
     (let G1 = touch_node v (touch_node u G) in
      if (u, v) \<in> set (g_edges G1) then G1 else G1\<lparr>g_edges := g_edges G1 @ [(u, v)]\<rparr>)"

text \<open>A layout algorithm; \<open>Spring True\<close> is the call with \<open>k=2.8\<close>.\<close>

datatype layout = Spring bool | Kamada_Kawai | Shell | Circular | Spectral

definition choose_layout :: "(layout \<Rightarrow> bool) \<Rightarrow> string \<Rightarrow> layout" where
  "choose_layout fails name =
     (if name = ''spring'' then Spring True
      else if name = ''kamada_kawai'' then (if fails Kamada_Kawai then Spring True else Kamada_Kawai)
      else if name = ''shell'' then Shell
      else if name = ''circular'' then Circular
      else if name = ''spectral'' then (if fails Spectral then Spring False else Spectral)
      else Spring True)"

record drawing =
  d_graph :: digraph
  d_colours :: "string list"
  d_labels :: "(string \<times> string) list"
  d_legend :: "(string \<times> string) list"
  d_title :: string
  d_layout :: "layout option"
  d_file :: string
  d_note :: "string option"

text \<open>\<open>_PALETTE\<close>, as far as nodes use it.\<close>

definition palette :: "string \<Rightarrow> string option" where
  "palette = map_of [(''master'', ''#4A90D9''), (''relay_sat'', ''#E67E22''), (''relay_mst'', ''#D35400''),
     (''satellite'', ''#27AE60''), (''root'', ''#C0392B''), (''edge'', ''#444444''), (''bg'', ''#F8F8F8'')]"

definition colour :: "string \<Rightarrow> string" where
  "colour role = (case palette role of Some c \<Rightarrow> c | None \<Rightarrow> ''#27AE60'')"

text \<open>What the environment contributes: the working directory and the failing layouts.\<close>

record plot_env =
  pe_cwd :: string
  pe_fails :: "layout \<Rightarrow> bool"

definition draw_graph ::
    "plot_env \<Rightarrow> digraph \<Rightarrow> string list \<Rightarrow> (string \<times> string) list \<Rightarrow> (string \<times> string) list \<Rightarrow>
     string \<Rightarrow> string \<Rightarrow> string \<Rightarrow> drawing" where
  "draw_graph env G colours labels legend title path layout_name =
     \<lparr>d_graph = G, d_colours = colours, d_labels = labels, d_legend = legend, d_title = title,
      d_layout = Some (choose_layout (pe_fails env) layout_name), d_file = abspath (pe_cwd env) path,
      d_note = None\<rparr>"

section \<open>The wiring of a builder\<close>

text \<open>The relays of the registry both of whose sides exist.\<close>

definition relay_bases :: "string set \<Rightarrow> string set \<Rightarrow> string list \<Rightarrow> string set" where
  "relay_bases ms ss registry = {b \<in> set registry. b @ ''_sat'' \<in> ss \<and> b @ ''_master'' \<in> ms}"

definition canonical :: "string set \<Rightarrow> string \<Rightarrow> string" where
  "canonical bases n =
     (if ends_with ''_sat'' n \<and> drop_last 4 n \<in> bases then drop_last 4 n
      else if ends_with ''_master'' n \<and> drop_last 7 n \<in> bases then drop_last 7 n
      else n)"

definition node_role :: "string set \<Rightarrow> string set \<Rightarrow> string \<Rightarrow> string" where
  "node_role bases ms c = (if c \<in> bases then ''relay_sat'' else if c \<in> ms then ''master'' else ''satellite'')"

definition node_label :: "string set \<Rightarrow> string \<Rightarrow> string" where
  "node_label bases c = (if c \<in> bases then c @ [CHR 0x0A] @ ''(relay)'' else c)"

text \<open>\<open>order\<close> is the order in which the set of all names is iterated.\<close>

definition wiring_nodes :: "string set \<Rightarrow> string list \<Rightarrow> digraph \<Rightarrow> digraph" where
  "wiring_nodes bases order G =
     fold (\<lambda>n G. let c = canonical bases n in
       if dget (g_nodes G) c = None then add_node c None G else G) order G"

definition wiring_edges :: "string set \<Rightarrow> link list \<Rightarrow> digraph \<Rightarrow> digraph" where
  "wiring_edges bases links G =
     fold (\<lambda>(sn, mn, kw) G. let u = canonical bases mn; v = canonical bases sn in
       if u \<noteq> v \<and> (u, v) \<notin> set (g_edges G) then add_edge u v G else G) links G"

definition wiring_graph :: "string set \<Rightarrow> string list \<Rightarrow> link list \<Rightarrow> digraph" where
  "wiring_graph bases order links = wiring_edges bases links (wiring_nodes bases order empty_graph)"

definition plot_wiring ::
    "plot_env \<Rightarrow> string set \<Rightarrow> string set \<Rightarrow> string list \<Rightarrow> string list \<Rightarrow> link list \<Rightarrow>
     string \<Rightarrow> string \<Rightarrow> string \<Rightarrow> drawing" where
  "plot_wiring env ms ss registry order links path title layout_name =
     (let bases = relay_bases ms ss registry; G = wiring_graph bases order links in
      draw_graph env G (map (\<lambda>n. colour (node_role bases ms n)) (dkeys (g_nodes G)))
        (map (\<lambda>n. (n, node_label bases n)) (dkeys (g_nodes G)))
        [(colour ''master'', ''Master''), (colour ''relay_sat'', ''Relay''), (colour ''satellite'', ''Satellite'')]
        title path layout_name)"

text \<open>\<open>plot_topology_builder\<close>: \<open>relays\<close> is the optional argument, \<open>own\<close> the builder's \<open>_relays\<close>
  attribute if it has one.\<close>

definition master_names :: "'t builder \<Rightarrow> string set" where
  "master_names b = (\<lambda>m. m_name (masters (b_hive b) m)) ` set (all_masters b)"

definition satellite_names :: "'t builder \<Rightarrow> string set" where
  "satellite_names b = (\<lambda>s. s_name (sats (b_hive b) s)) ` set (all_satellites b)"

definition plot_topology_builder ::
    "plot_env \<Rightarrow> 't builder \<Rightarrow> string list option \<Rightarrow> string list option \<Rightarrow> string list \<Rightarrow>
     string \<Rightarrow> string \<Rightarrow> string \<Rightarrow> drawing result" where
  "plot_topology_builder env b own relays order path title layout_name =
     (case (if relays \<noteq> None then relays else own) of
        None \<Rightarrow> Inl TypeError
      | Some registry \<Rightarrow> Inr (plot_wiring env (master_names b) (satellite_names b) registry order
          (b_connections b) path title layout_name))"

section \<open>The discovery graph\<close>

text \<open>\<open>NodeInfo\<close>: the printed latency if there is one, and the site, which may be empty.\<close>

record node_info =
  ni_latency :: "string option"
  ni_site :: "string option"

definition peer_label :: "string option \<Rightarrow> string \<Rightarrow> node_info \<Rightarrow> string" where
  "peer_label root p info =
     (let rtt = (case ni_latency info of None \<Rightarrow> [] | Some t \<Rightarrow> ''  '' @ t @ ''ms'');
          site = (case ni_site info of None \<Rightarrow> [] | Some s \<Rightarrow> if s = [] then [] else [CHR 0x0A] @ ''('' @ s @ '')'');
          label = p @ site @ rtt in
      if Some p = root then ''[self]'' @ [CHR 0x0A] @ label else label)"

definition mapper_nodes :: "string option \<Rightarrow> (string, node_info) pydict \<Rightarrow> digraph \<Rightarrow> digraph" where
  "mapper_nodes root nodes G = fold (\<lambda>(p, info). add_node p (Some (peer_label root p info))) nodes G"

definition mapper_edges :: "(string, string list) pydict \<Rightarrow> digraph \<Rightarrow> digraph" where
  "mapper_edges edges G =
     fold (\<lambda>(src, targets) G.
       fold (\<lambda>tgt G. add_edge src tgt (if dget (g_nodes G) tgt = None then add_node tgt (Some tgt) G else G))
         targets G) edges G"

definition plot_hive_mapper ::
    "plot_env \<Rightarrow> string option \<Rightarrow> (string, node_info) pydict \<Rightarrow> (string, string list) pydict \<Rightarrow>
     string \<Rightarrow> string \<Rightarrow> string \<Rightarrow> drawing" where
  "plot_hive_mapper env root nodes edges path title layout_name =
     (let G = mapper_edges edges (mapper_nodes root nodes empty_graph) in
      if g_nodes G = [] then
        \<lparr>d_graph = empty_graph, d_colours = [], d_labels = [], d_legend = [], d_title = [],
         d_layout = None, d_file = abspath (pe_cwd env) path, d_note = Some ''No nodes discovered''\<rparr>
      else
        draw_graph env G
          (map (\<lambda>n. if Some n = root then colour ''root'' else colour ''satellite'') (dkeys (g_nodes G)))
          (map (\<lambda>(n, l). (n, case l of None \<Rightarrow> n | Some t \<Rightarrow> t)) (g_nodes G))
          [(colour ''root'', ''Self (PING origin)''), (colour ''satellite'', ''Discovered node'')]
          title path layout_name)"

text \<open>Both drawings; the dash of the titles is written in ASCII here.\<close>

definition plot_topology_and_discovery ::
    "plot_env \<Rightarrow> 't builder \<Rightarrow> string list option \<Rightarrow> string list \<Rightarrow> string option \<Rightarrow>
     (string, node_info) pydict \<Rightarrow> (string, string list) pydict \<Rightarrow> string \<Rightarrow> string \<Rightarrow> string \<Rightarrow> string \<Rightarrow>
     (drawing \<times> drawing) result" where
  "plot_topology_and_discovery env b own order root nodes edges dir prefix layout_static layout_dynamic =
     rbind (plot_topology_builder env b own None order (path_join dir (prefix @ ''_static.png''))
              (prefix @ '' - static wiring'') layout_static)
       (\<lambda>d1. Inr (d1, plot_hive_mapper env root nodes edges (path_join dir (prefix @ ''_discovery.png''))
              (prefix @ '' - PING/PONG discovery'') layout_dynamic))"

section \<open>Lemmas\<close>

abbreviation nodes_of :: "digraph \<Rightarrow> string set" where
  "nodes_of G \<equiv> set (dkeys (g_nodes G))"

named_theorems graph_simps "nodes and edges of graphs built step by step"

lemma add_node_sel [graph_simps]:
  "g_edges (add_node n l G) = g_edges G" "nodes_of (add_node n l G) = insert n (nodes_of G)"
  "dict_ok (g_nodes G) \<Longrightarrow> dict_ok (g_nodes (add_node n l G))"
  "dget (g_nodes (add_node n l G)) x = (if x = n then Some l else dget (g_nodes G) x)"
  by (auto simp: add_node_def pd.keys_store pd.good_store pd.look_store)

lemma touch_node_sel [graph_simps]:
  "g_edges (touch_node n G) = g_edges G" "nodes_of (touch_node n G) = insert n (nodes_of G)"
  "dict_ok (g_nodes G) \<Longrightarrow> dict_ok (g_nodes (touch_node n G))"
  "dget (g_nodes G) x = Some l \<Longrightarrow> dget (g_nodes (touch_node n G)) x = Some l"
  by (auto simp: touch_node_def graph_simps pd.in_keys_iff)

lemma touch_known [graph_simps]: "n \<in> nodes_of G \<Longrightarrow> touch_node n G = G"
  by (auto simp: touch_node_def pd.in_keys_iff)

lemma add_edge_sel [graph_simps]:
  "set (g_edges (add_edge u v G)) = insert (u, v) (set (g_edges G))"
  "nodes_of (add_edge u v G) = insert u (insert v (nodes_of G))"
  "distinct (g_edges G) \<Longrightarrow> distinct (g_edges (add_edge u v G))"
  "dict_ok (g_nodes G) \<Longrightarrow> dict_ok (g_nodes (add_edge u v G))"
  "dget (g_nodes G) x = Some l \<Longrightarrow> dget (g_nodes (add_edge u v G)) x = Some l"
  by (auto simp: add_edge_def Let_def graph_simps)

lemma wiring_nodes_touch: "wiring_nodes bases order G = fold (\<lambda>n. touch_node (canonical bases n)) order G"
  by (simp add: wiring_nodes_def touch_node_def [abs_def] Let_def)

lemma wiring_nodes_sel:
  "nodes_of (wiring_nodes bases order G) = nodes_of G \<union> canonical bases ` set order
   \<and> g_edges (wiring_nodes bases order G) = g_edges G
   \<and> (dict_ok (g_nodes G) \<longrightarrow> dict_ok (g_nodes (wiring_nodes bases order G)))"
  unfolding wiring_nodes_touch by (induction order arbitrary: G) (auto simp: graph_simps)

definition wired :: "string set \<Rightarrow> link list \<Rightarrow> (string \<times> string) set" where
  "wired bases links = {(u, v) \<in> (\<lambda>(sn, mn, kw). (canonical bases mn, canonical bases sn)) ` set links. u \<noteq> v}"

lemma wired_iff: "(u, v) \<in> wired bases links \<longleftrightarrow> u \<noteq> v \<and> (\<exists>sn mn kw.
    (sn, mn, kw) \<in> set links \<and> u = canonical bases mn \<and> v = canonical bases sn)"
  by (force simp: wired_def)

lemma wiring_edges_sel:
  assumes "\<forall>(sn, mn, kw) \<in> set links. canonical bases sn \<in> nodes_of G \<and> canonical bases mn \<in> nodes_of G"
  shows "g_nodes (wiring_edges bases links G) = g_nodes G
    \<and> set (g_edges (wiring_edges bases links G)) = set (g_edges G) \<union> wired bases links
    \<and> (distinct (g_edges G) \<longrightarrow> distinct (g_edges (wiring_edges bases links G)))"
  using assms
proof (induction links arbitrary: G)
  case (Cons l links)
  obtain sn mn kw where l: "l = (sn, mn, kw)" by (cases l)
  let ?u = "canonical bases mn" and ?v = "canonical bases sn"
  define G1 where "G1 = (if ?u \<noteq> ?v \<and> (?u, ?v) \<notin> set (g_edges G) then add_edge ?u ?v G else G)"
  have G1: "g_nodes G1 = g_nodes G" "set (g_edges G1) = set (g_edges G) \<union> wired bases [l]"
    "distinct (g_edges G) \<Longrightarrow> distinct (g_edges G1)"
    using Cons.prems by (auto simp: G1_def l wired_def graph_simps) (auto simp: add_edge_def Let_def graph_simps)
  have "wiring_edges bases (l # links) G = wiring_edges bases links G1"
    by (simp add: wiring_edges_def G1_def l Let_def)
  moreover have "wired bases (l # links) = wired bases [l] \<union> wired bases links"
    unfolding wired_def list.set image_insert image_empty by blast
  moreover have "\<forall>(sn, mn, kw) \<in> set links. canonical bases sn \<in> nodes_of G1 \<and> canonical bases mn \<in> nodes_of G1"
    using Cons.prems by (simp add: G1)
  ultimately show ?case using Cons.IH [of G1] G1 by auto
qed (simp add: wiring_edges_def wired_def)

lemma linked_names:
  assumes "builder_inv b" and "(sn, mn, kw) \<in> set (b_connections b)"
  shows "sn \<in> satellite_names b \<and> mn \<in> master_names b"
proof -
  obtain s m where "dget (b_satellites b) sn = Some s" "dget (b_masters b) mn = Some m"
    using assms by (auto simp: builder_inv_def links_ok_def)
  moreover from this have "s_name (sats (b_hive b) s) = sn" "m_name (masters (b_hive b) m) = mn"
    using assms(1) by (auto simp: builder_inv_def sats_ok_def masters_ok_def)
  ultimately show ?thesis
    by (force simp: satellite_names_def master_names_def all_satellites_def all_masters_def
        dvals_def dget_def dest: map_of_SomeD)
qed

lemma wiring_graph_sel:
  assumes "\<forall>(sn, mn, kw) \<in> set links. sn \<in> set order \<and> mn \<in> set order"
  shows "dict_ok (g_nodes (wiring_graph bases order links))
    \<and> nodes_of (wiring_graph bases order links) = canonical bases ` set order
    \<and> set (g_edges (wiring_graph bases order links)) = wired bases links
    \<and> distinct (g_edges (wiring_graph bases order links))"
proof -
  let ?G = "wiring_nodes bases order empty_graph"
  have G: "nodes_of ?G = canonical bases ` set order" "g_edges ?G = []" "dict_ok (g_nodes ?G)"
    using wiring_nodes_sel [of bases order empty_graph] by (auto simp: empty_graph_def dkeys_def pd.good_empty)
  then have "\<forall>(sn, mn, kw) \<in> set links. canonical bases sn \<in> nodes_of ?G \<and> canonical bases mn \<in> nodes_of ?G"
    using assms by auto
  from wiring_edges_sel [OF this] G show ?thesis by (simp add: wiring_graph_def)
qed

text \<open>The two sides of a relay.\<close>

definition sides :: "string set \<Rightarrow> string set" where
  "sides bases = (\<lambda>x. x @ ''_sat'') ` bases \<union> (\<lambda>x. x @ ''_master'') ` bases"

lemma not_both: "x @ ''_sat'' \<noteq> y @ ''_master''"
proof
  assume "x @ ''_sat'' = y @ ''_master''"
  then have "last (x @ ''_sat'') = last (y @ ''_master'')" by simp
  then show False by simp
qed

lemma canonical_side:
  assumes "x \<in> bases"
  shows "canonical bases (x @ ''_sat'') = x" "canonical bases (x @ ''_master'') = x"
proof -
  have "\<not> ends_with ''_sat'' (x @ ''_master'')" unfolding ends_with_append by (metis not_both)
  with assms show "canonical bases (x @ ''_sat'') = x" "canonical bases (x @ ''_master'') = x"
    unfolding canonical_def by (simp_all add: ends_with_append)
qed

lemma canonical_other: "n \<notin> sides bases \<Longrightarrow> canonical bases n = n"
  by (auto simp: canonical_def ends_with_append sides_def)

lemma canonical_image:
  assumes "sides bases \<subseteq> names"
  shows "canonical bases ` names = bases \<union> (names - sides bases)"
proof -
  have "canonical bases ` sides bases = bases"
    unfolding sides_def image_Un image_image by (simp add: canonical_side cong: image_cong)
  moreover have "canonical bases ` (names - sides bases) = (\<lambda>n. n) ` (names - sides bases)"
    by (intro image_cong refl canonical_other) simp
  ultimately show ?thesis
    using assms by (metis Diff_partition image_Un image_ident)
qed

lemma card_sides:
  assumes "finite bases"
  shows "card (sides bases) = 2 * card bases"
proof -
  have "card ((\<lambda>x. x @ ''_sat'') ` bases) = card bases" "card ((\<lambda>x. x @ ''_master'') ` bases) = card bases"
    by (auto intro!: card_image simp: inj_on_def)
  moreover have "(\<lambda>x. x @ ''_sat'') ` bases \<inter> (\<lambda>x. x @ ''_master'') ` bases = {}"
    using not_both by blast
  ultimately show ?thesis using assms by (simp add: sides_def card_Un_disjoint)
qed

lemma card_canonical:
  assumes "finite names" and "sides bases \<subseteq> names" and "bases \<inter> names = {}" and "finite bases"
  shows "card (canonical bases ` names) + card bases = card names"
proof -
  have fin: "finite (sides bases)" using assms(1,2) by (rule rev_finite_subset)
  have "bases \<inter> (names - sides bases) = {}" using assms(3) by blast
  then have "card (canonical bases ` names) = card bases + (card names - card (sides bases))"
    using assms fin unfolding canonical_image [OF assms(2)]
    by (simp add: card_Un_disjoint card_Diff_subset)
  moreover have "2 * card bases \<le> card names"
    using card_mono [OF assms(1,2)] by (simp add: card_sides assms(4))
  ultimately show ?thesis by (simp add: card_sides assms(4))
qed

text \<open>Edges never lose a label, and give new nodes their own name as the text.\<close>

definition shown_label :: "digraph \<Rightarrow> string \<Rightarrow> string" where
  "shown_label G n = (case dget (g_nodes G) n of Some (Some t) \<Rightarrow> t | _ \<Rightarrow> n)"

lemma mapper_nodes_sel:
  assumes "dict_ok nodes"
  shows "nodes_of (mapper_nodes root nodes empty_graph) = set (dkeys nodes)
    \<and> g_edges (mapper_nodes root nodes empty_graph) = []
    \<and> dict_ok (g_nodes (mapper_nodes root nodes empty_graph))
    \<and> (\<forall>p. dget (g_nodes (mapper_nodes root nodes empty_graph)) p
           = map_option (\<lambda>i. Some (peer_label root p i)) (dget nodes p))"
  using assms
proof (induction nodes rule: rev_induct)
  case Nil
  then show ?case by (simp add: mapper_nodes_def empty_graph_def dkeys_def dict_simps pd.good_empty)
next
  case (snoc x nodes)
  obtain p i where x: "x = (p, i)" by (cases x)
  have ok: "dict_ok nodes" and new: "p \<notin> fst ` set nodes" using snoc.prems by (auto simp: dict_ok_def x)
  have step: "mapper_nodes root (nodes @ [x]) empty_graph
      = add_node p (Some (peer_label root p i)) (mapper_nodes root nodes empty_graph)"
    by (simp add: mapper_nodes_def x)
  have look: "dget (nodes @ [x]) q = (if q = p then Some i else dget nodes q)" for q
    using new by (simp add: dget_def x map_add_def split: option.split) (metis map_of_eq_None_iff option.distinct(1))
  have keys: "set (dkeys (nodes @ [x])) = insert p (set (dkeys nodes))" by (simp add: dkeys_def x)
  show ?case
    using snoc.IH [OF ok] unfolding step keys look by (simp add: graph_simps)
qed

lemma shown_touch [graph_simps]: "shown_label (touch_node n G) x = shown_label G x"
  by (auto simp: shown_label_def touch_node_def add_node_def dict_simps split: option.splits)

lemma shown_edge [graph_simps]: "shown_label (add_edge u v G) x = shown_label G x"
  by (simp add: shown_label_def add_edge_def Let_def) (metis shown_label_def shown_touch)

lemma shown_self [graph_simps]: "dget (g_nodes G) n = None \<Longrightarrow> shown_label (add_node n (Some n) G) x = shown_label G x"
  by (auto simp: shown_label_def graph_simps)

definition target_edge :: "string \<Rightarrow> string \<Rightarrow> digraph \<Rightarrow> digraph" where
  "target_edge src tgt G = add_edge src tgt (if dget (g_nodes G) tgt = None then add_node tgt (Some tgt) G else G)"

lemma mapper_edges_unfold:
  "mapper_edges edges G = fold (\<lambda>(s, t). target_edge s t) (concat (map (\<lambda>(s, ts). map (Pair s) ts) edges)) G"
proof -
  have inner: "fold (\<lambda>tgt. target_edge s tgt) ts G = fold (\<lambda>(s, t). target_edge s t) (map (Pair s) ts) G" for s ts G
    by (induction ts arbitrary: G) auto
  show ?thesis unfolding mapper_edges_def target_edge_def [symmetric]
    by (induction edges arbitrary: G) (auto simp: inner)
qed

lemma target_edges_sel:
  "nodes_of (fold (\<lambda>(s, t). target_edge s t) es G) = nodes_of G \<union> fst ` set es \<union> snd ` set es
   \<and> set (g_edges (fold (\<lambda>(s, t). target_edge s t) es G)) = set (g_edges G) \<union> set es
   \<and> (distinct (g_edges G) \<longrightarrow> distinct (g_edges (fold (\<lambda>(s, t). target_edge s t) es G)))
   \<and> (dict_ok (g_nodes G) \<longrightarrow> dict_ok (g_nodes (fold (\<lambda>(s, t). target_edge s t) es G)))
   \<and> (\<forall>x. shown_label (fold (\<lambda>(s, t). target_edge s t) es G) x = shown_label G x)"
proof (induction es arbitrary: G)
  case (Cons e es)
  obtain u v where e: "e = (u, v)" by (cases e)
  have "nodes_of (target_edge u v G) = insert u (insert v (nodes_of G))"
    "set (g_edges (target_edge u v G)) = insert (u, v) (set (g_edges G))"
    "distinct (g_edges G) \<Longrightarrow> distinct (g_edges (target_edge u v G))"
    "dict_ok (g_nodes G) \<Longrightarrow> dict_ok (g_nodes (target_edge u v G))"
    "shown_label (target_edge u v G) x = shown_label G x" for x
    by (auto simp: target_edge_def graph_simps)
  with Cons.IH [of "target_edge u v G"] show ?case by (auto simp: e)
qed simp

section \<open>Properties\<close>


definition example_env :: plot_env where
  "example_env = \<lparr>pe_cwd = ''/w'', pe_fails = (\<lambda>l. False)\<rparr>"

lemma example_names:
  "master_names example_chain = {''M'', ''R_master''}" "satellite_names example_chain = {''R_sat'', ''S''}"
  "dkeys (b_relays example_chain) = [''R'']"
  by (auto simp: master_names_def satellite_names_def all_masters_def all_satellites_def chain_eval
      dset_def dvals_def dkeys_def satellite_create_def make_identity_def)

lemma example_bases: "relay_bases {''M'', ''R_master''} {''R_sat'', ''S''} [''R''] = {''R''}"
  by (auto simp: relay_bases_def)


text \<open>The number of nodes drawn is the number of names less the number of relays, so each relay is one
  node and nothing else is merged, provided that no other node has the bare name of a relay.\<close>

theorem plot_node_count:
  assumes "reaches builder_step (new_builder w) b" and "set order = master_names b \<union> satellite_names b"
    and "plot_topology_builder env b (Some (dkeys (b_relays b))) None order path title lay = Inr d"
  defines "bases \<equiv> relay_bases (master_names b) (satellite_names b) (dkeys (b_relays b))"
  assumes "bases \<inter> (master_names b \<union> satellite_names b) = {}"
  shows "length (dkeys (g_nodes (d_graph d))) + card bases = card (master_names b \<union> satellite_names b)
    \<and> length (d_colours d) = length (dkeys (g_nodes (d_graph d)))
    \<and> length (g_edges (d_graph d)) \<le> length (b_connections b)"
proof -
  let ?G = "wiring_graph bases order (b_connections b)"
  have inv: "builder_inv b" using assms(1) by (blast intro: bi.inv_reachable)
  have d: "d_graph d = ?G" "length (d_colours d) = length (dkeys (g_nodes ?G))"
    using assms(3) by (auto simp: plot_topology_builder_def plot_wiring_def draw_graph_def bases_def Let_def)
  have "\<forall>(sn, mn, kw) \<in> set (b_connections b). sn \<in> set order \<and> mn \<in> set order"
    using linked_names [OF inv] assms(2) by auto
  from wiring_graph_sel [OF this, of bases]
  have G: "distinct (dkeys (g_nodes ?G))" "nodes_of ?G = canonical bases ` set order"
    "set (g_edges ?G) = wired bases (b_connections b)" "distinct (g_edges ?G)"
    using pd.distinct_keys by blast+
  have "sides bases \<subseteq> set order" "finite bases"
    using assms(2) by (auto simp: sides_def bases_def relay_bases_def)
  from card_canonical [OF finite_set this(1) _ this(2)] assms(5)
  have "card (nodes_of ?G) + card bases = card (master_names b \<union> satellite_names b)"
    unfolding G(2) assms(2) by blast
  moreover have "card (wired bases (b_connections b)) \<le> length (b_connections b)"
  proof -
    have "card (wired bases (b_connections b))
        \<le> card ((\<lambda>(sn, mn, kw). (canonical bases mn, canonical bases sn)) ` set (b_connections b))"
      unfolding wired_def by (intro card_mono) auto
    also have "\<dots> \<le> length (b_connections b)"
      using card_image_le card_length le_trans by blast
    finally show ?thesis .
  qed
  ultimately show ?thesis
    using distinct_card [OF G(1)] distinct_card [OF G(4)] unfolding d G(3) by simp
qed

theorem plot_node_count_witness:
  "\<exists>d. plot_topology_builder example_env example_chain (Some [''R'']) None [''M'', ''R_master'', ''R_sat'', ''S'']
       ''a.png'' ''t'' ''spring'' = Inr d \<and> length (dkeys (g_nodes (d_graph d))) = 3"
proof -
  obtain d where d: "plot_topology_builder example_env example_chain (Some (dkeys (b_relays example_chain))) None
      [''M'', ''R_master'', ''R_sat'', ''S''] ''a.png'' ''t'' ''spring'' = Inr d"
    by (simp add: plot_topology_builder_def)
  have "set [''M'', ''R_master'', ''R_sat'', ''S''] = master_names example_chain \<union> satellite_names example_chain"
    by (auto simp: example_names)
  then have "length (dkeys (g_nodes (d_graph d))) = 3"
    using plot_node_count [OF fresh_step_builder [OF example_chain_fresh] _ d]
    by (simp add: example_names example_bases)
  with d show ?thesis by (auto simp: example_names)
qed

text \<open>A master that has the bare name of a relay is merged with it.\<close>

theorem bare_relay_name_merges:
  "canonical (relay_bases {''R'', ''R_master''} {''R_sat''} [''R'']) ''R''
     = canonical (relay_bases {''R'', ''R_master''} {''R_sat''} [''R'']) ''R_sat''"
  using canonical_side(1) [of "''R''" "{''R''}"] by (simp add: relay_bases_def canonical_def ends_with_def)

text \<open>The discovery drawing shows the mapper's state. Its nodes are the discovered peers and the ends of
  the recorded hops, each once, its edges are the hops, each once; a discovered peer carries its own
  label with site and latency, any other node its bare name, and exactly the given root is red. Without
  peers and hops it is the placeholder.\<close>

theorem discovery_shows_mapper:
  assumes "dict_ok nodes" and d_def: "d = plot_hive_mapper env root nodes edges path title lay"
  defines "hops \<equiv> {(s, t). \<exists>ts. (s, ts) \<in> set edges \<and> t \<in> set ts}"
  shows "distinct (dkeys (g_nodes (d_graph d)))
    \<and> nodes_of (d_graph d) = set (dkeys nodes) \<union> fst ` hops \<union> snd ` hops
    \<and> set (g_edges (d_graph d)) = hops \<and> distinct (g_edges (d_graph d))
    \<and> (d_note d = None \<longleftrightarrow> nodes_of (d_graph d) \<noteq> {})
    \<and> (d_note d = None \<longrightarrow>
        d_labels d = map (\<lambda>n. (n, case dget nodes n of Some i \<Rightarrow> peer_label root n i | None \<Rightarrow> n))
          (dkeys (g_nodes (d_graph d)))
        \<and> d_colours d = map (\<lambda>n. if Some n = root then ''#C0392B'' else ''#27AE60'') (dkeys (g_nodes (d_graph d))))"
proof -
  let ?es = "concat (map (\<lambda>(s, ts). map (Pair s) ts) edges)" and ?N = "mapper_nodes root nodes empty_graph"
  let ?G = "mapper_edges edges ?N"
  have hops: "set ?es = hops" by (auto simp: hops_def)
  note N = mapper_nodes_sel [OF assms(1), of root]
  have G: "nodes_of ?G = set (dkeys nodes) \<union> fst ` hops \<union> snd ` hops" "set (g_edges ?G) = hops"
    "distinct (g_edges ?G)" "dict_ok (g_nodes ?G)" "\<And>x. shown_label ?G x = shown_label ?N x"
    using target_edges_sel [of ?es ?N] N unfolding mapper_edges_unfold hops by auto
  have label: "shown_label ?G n = (case dget nodes n of Some i \<Rightarrow> peer_label root n i | None \<Rightarrow> n)" for n
    unfolding G(5) using N by (auto simp: shown_label_def split: option.split)
  have "(case l of None \<Rightarrow> n | Some t \<Rightarrow> t) = shown_label ?G n" if "(n, l) \<in> set (g_nodes ?G)" for n l
    using that G(4) by (auto simp: shown_label_def dget_def dict_ok_def split: option.split)
  then have labels: "map (\<lambda>(n, l). (n, case l of None \<Rightarrow> n | Some t \<Rightarrow> t)) (g_nodes ?G)
      = map (\<lambda>n. (n, shown_label ?G n)) (dkeys (g_nodes ?G))"
    by (auto simp: dkeys_def)
  have empty: "g_nodes ?G = [] \<longleftrightarrow> nodes_of ?G = {}" by (simp add: dkeys_def)
  show ?thesis
  proof (cases "g_nodes ?G = []")
    case True
    then have "hops = {}" "dkeys nodes = []" using G(1) by (auto simp: dkeys_def)
    with True show ?thesis by (simp add: d_def plot_hive_mapper_def Let_def empty_graph_def dkeys_def)
  next
    case False
    then have d: "d_graph d = ?G" "d_note d = None"
      "d_labels d = map (\<lambda>n. (n, shown_label ?G n)) (dkeys (g_nodes ?G))"
      "d_colours d = map (\<lambda>n. if Some n = root then ''#C0392B'' else ''#27AE60'') (dkeys (g_nodes ?G))"
      by (simp_all add: d_def plot_hive_mapper_def draw_graph_def labels Let_def colour_def palette_def)
    from False empty show ?thesis
      unfolding d label using G(1-3) pd.distinct_keys [OF G(4)] by simp
  qed
qed

theorem discovery_shows_mapper_witness:
  "set (g_edges (d_graph (plot_hive_mapper example_env (Some ''r'') [(''p'', \<lparr>ni_latency = Some ''3'', ni_site = None\<rparr>)]
     [(''r'', [''p''])] ''a.png'' ''t'' ''shell''))) = {(''r'', ''p'')}"
  using discovery_shows_mapper [OF _ refl, of "[(''p'', \<lparr>ni_latency = Some ''3'', ni_site = None\<rparr>)]"
      example_env "Some ''r''" "[(''r'', [''p''])]" "''a.png''" "''t''" "''shell''"]
  by (auto simp: dict_ok_def)

text \<open>A root that is no discovered peer, only the source of a hop, is red but not labelled \<open>[self]\<close>.\<close>

theorem undiscovered_root_not_labelled:
  "d_labels (plot_hive_mapper example_env (Some ''r'') [(''p'', \<lparr>ni_latency = None, ni_site = None\<rparr>)]
     [(''r'', [''p''])] ''a.png'' ''t'' ''shell'') = [(''p'', ''p''), (''r'', ''r'')]"
  by (simp add: plot_hive_mapper_def draw_graph_def mapper_nodes_def mapper_edges_def add_node_def add_edge_def
      touch_node_def empty_graph_def dset_def dget_def peer_label_def Let_def)

text \<open>The two drawings of one call never overwrite each other: whatever the directory and the prefix, even one
  with slashes or dots in it, both file names are absolute, the first ends in \<open>_static.png\<close> and the
  second in \<open>_discovery.png\<close>.\<close>

theorem two_drawings_two_files:
  assumes "plot_topology_and_discovery env b own order root nodes edges dir prefix l1 l2 = Inr (d1, d2)"
    and "pe_cwd env \<noteq> []" and "hd (pe_cwd env) = CHR ''/''"
  shows "ends_with ''_static.png'' (d_file d1) \<and> ends_with ''_discovery.png'' (d_file d2)
    \<and> d_file d1 \<noteq> d_file d2 \<and> hd (d_file d1) = CHR ''/'' \<and> hd (d_file d2) = CHR ''/''"
proof -
  have files: "d_file d1 = abspath (pe_cwd env) (path_join dir (prefix @ ''_static.png''))"
    "d_file d2 = abspath (pe_cwd env) (path_join dir (prefix @ ''_discovery.png''))"
    using assms(1) by (auto simp: plot_topology_and_discovery_def plot_topology_builder_def plot_wiring_def
        draw_graph_def plot_hive_mapper_def Let_def split: option.splits if_splits)
  have join: "\<exists>p. path_join dir (prefix @ suf) = p @ suf" for suf unfolding path_join_def by auto
  obtain p q where pq: "path_join dir (prefix @ ''_static.png'') = p @ ''_static.png''"
    "path_join dir (prefix @ ''_discovery.png'') = q @ ''_discovery.png''" using join by metis
  have e1: "ends_with ''_static.png'' (d_file d1)"
    unfolding files pq by (rule abspath_suffix) simp_all
  have e2: "ends_with ''_discovery.png'' (d_file d2)"
    unfolding files pq by (rule abspath_suffix) simp_all
  have "d_file d1 \<noteq> d_file d2"
  proof
    assume "d_file d1 = d_file d2"
    with e1 e2 obtain x y where "x @ ''_static.png'' = y @ ''_discovery.png''" unfolding ends_with_append by metis
    then have "drop 4 (rev (x @ ''_static.png'')) = drop 4 (rev (y @ ''_discovery.png''))" by simp
    then show False by simp
  qed
  with e1 e2 show ?thesis
    using abspath_absolute [OF assms(2,3)] by (simp add: files)
qed

theorem two_drawings_two_files_witness:
  "\<exists>d1 d2. plot_topology_and_discovery example_env example_chain (Some []) [] None [] [] ''img'' ''a/..'' ''shell'' ''shell''
     = Inr (d1, d2) \<and> d_file d1 \<noteq> d_file d2"
proof -
  obtain d1 d2 where d: "plot_topology_and_discovery example_env example_chain (Some []) [] None [] [] ''img'' ''a/..''
      ''shell'' ''shell'' = Inr (d1, d2)"
    by (simp add: plot_topology_and_discovery_def plot_topology_builder_def)
  have "pe_cwd example_env \<noteq> []" "hd (pe_cwd example_env) = CHR ''/''" by (simp_all add: example_env_def)
  from two_drawings_two_files [OF d this] d show ?thesis by blast
qed

end
