(* ===== verification/Xdg_Isolation.thy ===== *)
theory Xdg_Isolation
  imports Py_Text
begin

text \<open>
  The pytest plugin \<open>hivescope/xdg_isolation.py\<close>: for the time of a test session the four XDG
  variables of the process environment point into a fresh temporary directory; afterwards the
  previous values, or their absence, come back and the directory is removed.

  The world is the process environment and the temporary roots that exist. \<open>config\<close> is the
  pytest configuration object, of which the plugin uses two attributes; an attribute that is missing
  reads as \<open>None\<close>. \<open>mkdtemp\<close> and \<open>makedirs\<close> can raise, so their outcomes are arguments.
\<close>

section \<open>The two hooks\<close>

definition xdg_vars :: "string list" where
  "xdg_vars = [''XDG_CONFIG_HOME'', ''XDG_DATA_HOME'', ''XDG_CACHE_HOME'', ''XDG_STATE_HOME'']"

record xdg_world =
  environ :: "string \<Rightarrow> string option"
  temp_roots :: "string set"

record xdg_config =
  xdg_saved :: "(string, string option) pydict option"
  xdg_root :: "string option"

definition opted_out :: "(string \<Rightarrow> string option) \<Rightarrow> bool" where
  "opted_out env \<longleftrightarrow>
     (let v = (case env ''HIVESCOPE_NO_XDG_ISOLATION'' of None \<Rightarrow> [] | Some s \<Rightarrow> s) in
      lower (strip v) \<in> {''1'', ''true'', ''yes''})"

text \<open>\<open>var.split("_")[1].lower()\<close>.\<close>

definition xdg_leaf :: "string \<Rightarrow> string" where
  "xdg_leaf v = lower (takeWhile (\<lambda>c. c \<noteq> CHR ''_'') (tl (dropWhile (\<lambda>c. c \<noteq> CHR ''_'') v)))"

text \<open>The loop over the variables; an exception of \<open>makedirs\<close> ends it half-way.\<close>

fun redirect :: "(string \<Rightarrow> py_exn option) \<Rightarrow> string \<Rightarrow> string list \<Rightarrow> xdg_world \<Rightarrow> unit result \<times> xdg_world" where
  "redirect makedirs root [] w = (Inr (), w)"
| "redirect makedirs root (v # vs) w =
     (let path = path_join root (xdg_leaf v) in
      case makedirs path of
        Some e \<Rightarrow> (Inl e, w)
      | None \<Rightarrow> redirect makedirs root vs (w\<lparr>environ := (environ w)(v := Some path)\<rparr>))"

definition pytest_configure ::
    "string result \<Rightarrow> (string \<Rightarrow> py_exn option) \<Rightarrow> xdg_config \<Rightarrow> xdg_world \<Rightarrow>
     unit result \<times> xdg_config \<times> xdg_world" where
  "pytest_configure mkdtemp makedirs cfg w =
     (if opted_out (environ w) then (Inr (), cfg, w)
      else case mkdtemp of
             Inl e \<Rightarrow> (Inl e, cfg, w)
           | Inr root \<Rightarrow>
               (let w1 = w\<lparr>temp_roots := insert root (temp_roots w)\<rparr>;
                    cfg1 = cfg\<lparr>xdg_saved := Some (map (\<lambda>v. (v, environ w v)) xdg_vars)\<rparr> in
                case redirect makedirs root xdg_vars w1 of
                  (Inl e, w2) \<Rightarrow> (Inl e, cfg1, w2)
                | (Inr _, w2) \<Rightarrow> (Inr (), cfg1\<lparr>xdg_root := Some root\<rparr>, w2)))"

text \<open>Putting the saved values back: a variable that was unset is removed.\<close>

definition restore_env :: "(string, string option) pydict \<Rightarrow> (string \<Rightarrow> string option) \<Rightarrow> string \<Rightarrow> string option" where
  "restore_env saved env = fold (\<lambda>(v, old) env. env(v := old)) saved env"

definition pytest_unconfigure :: "xdg_config \<Rightarrow> xdg_world \<Rightarrow> xdg_config \<times> xdg_world" where
  "pytest_unconfigure cfg w =
     (let (cfg1, w1) = (case xdg_saved cfg of
            None \<Rightarrow> (cfg, w)
          | Some saved \<Rightarrow> (cfg\<lparr>xdg_saved := None\<rparr>, w\<lparr>environ := restore_env saved (environ w)\<rparr>)) in
      case xdg_root cfg1 of
        None \<Rightarrow> (cfg1, w1)
      | Some root \<Rightarrow> (if root = [] then (cfg1, w1)
          else (cfg1\<lparr>xdg_root := None\<rparr>, w1\<lparr>temp_roots := temp_roots w1 - {root}\<rparr>)))"

definition fresh_config :: xdg_config where
  "fresh_config = \<lparr>xdg_saved = None, xdg_root = None\<rparr>"

section \<open>Lemmas\<close>

lemma xdg_leaf_simps [simp]:
  "xdg_leaf ''XDG_CONFIG_HOME'' = ''config''" "xdg_leaf ''XDG_DATA_HOME'' = ''data''"
  "xdg_leaf ''XDG_CACHE_HOME'' = ''cache''" "xdg_leaf ''XDG_STATE_HOME'' = ''state''"
  by code_simp+

lemma redirect_frame:
  "redirect mk root vs w = (r, w') \<Longrightarrow> temp_roots w' = temp_roots w
     \<and> (\<forall>x. x \<notin> set vs \<longrightarrow> environ w' x = environ w x)
     \<and> (r = Inr () \<longrightarrow> distinct vs \<longrightarrow>
          (\<forall>v \<in> set vs. environ w' v = Some (path_join root (xdg_leaf v)) \<and> mk (path_join root (xdg_leaf v)) = None))"
proof (induction vs arbitrary: w)
  case (Cons v vs)
  show ?case
  proof (cases "mk (path_join root (xdg_leaf v))")
    case None
    with Cons.prems have "redirect mk root vs (w\<lparr>environ := (environ w)(v := Some (path_join root (xdg_leaf v)))\<rparr>) = (r, w')"
      by (simp add: Let_def)
    from Cons.IH [OF this] None show ?thesis by auto
  next
    case (Some e)
    with Cons.prems show ?thesis by (auto simp: Let_def)
  qed
qed simp

lemma restore_env_saved:
  "restore_env (map (\<lambda>v. (v, old v)) vs) env = (\<lambda>x. if x \<in> set vs then old x else env x)"
  unfolding restore_env_def by (induction vs arbitrary: env) (auto simp: fun_eq_iff)

lemma configured:
  assumes "\<not> opted_out (environ w)"
    and "pytest_configure (Inr root) makedirs fresh_config w = (Inr (), cfg, w')"
  shows "(\<forall>v \<in> set xdg_vars. \<exists>p. environ w' v = Some p \<and> makedirs p = None \<and> p = path_join root (xdg_leaf v))
    \<and> inj_on (environ w') (set xdg_vars) \<and> (\<forall>x. x \<notin> set xdg_vars \<longrightarrow> environ w' x = environ w x)"
proof -
  have "redirect makedirs root xdg_vars (w\<lparr>temp_roots := insert root (temp_roots w)\<rparr>) = (Inr (), w')"
    using assms by (auto simp: pytest_configure_def Let_def split: prod.splits sum.splits)
  from redirect_frame [OF this]
  have all: "\<forall>v \<in> set xdg_vars. environ w' v = Some (path_join root (xdg_leaf v))
      \<and> makedirs (path_join root (xdg_leaf v)) = None"
    and out: "\<forall>x. x \<notin> set xdg_vars \<longrightarrow> environ w' x = environ w x"
    by (auto simp: xdg_vars_def)
  moreover have "inj_on (environ w') (set xdg_vars)"
    using all by (auto simp: inj_on_def xdg_vars_def path_join_def)
  ultimately show ?thesis by blast
qed

section \<open>Properties\<close>

text \<open>C37: The isolation is undone completely. Whatever the environment was, and whatever the tests
  did to the environment and to the temporary directories in between, after the end of the session
  the XDG variables have their old values again, or are unset if they were, and every other variable
  is as the tests left it; this also holds when setting up failed half-way. The temporary root
  is removed after a complete set-up; after a failed one it stays behind.\<close>

theorem xdg_round_trip:
  assumes "\<not> opted_out (environ w)"
    and "pytest_configure (Inr root) makedirs fresh_config w = (r, cfg, w1)" and "root \<noteq> []"
  shows "let (cfg', w') = pytest_unconfigure cfg later in
     cfg' = fresh_config
     \<and> environ w' = (\<lambda>x. if x \<in> set xdg_vars then environ w x else environ later x)
     \<and> temp_roots w' = (if r = Inr () then temp_roots later - {root} else temp_roots later)
     \<and> temp_roots w1 = insert root (temp_roots w)"
proof -
  let ?w = "w\<lparr>temp_roots := insert root (temp_roots w)\<rparr>"
  obtain r' w2 where red: "redirect makedirs root xdg_vars ?w = (r', w2)" by fastforce
  then have "temp_roots w2 = insert root (temp_roots w)" using redirect_frame by fastforce
  with assms red show ?thesis
    by (cases r') (auto simp: pytest_configure_def pytest_unconfigure_def fresh_config_def restore_env_saved Let_def)
qed

theorem xdg_round_trip_witness:
  "environ (snd (pytest_unconfigure (fst (snd (pytest_configure (Inr ''/tmp/x'') (\<lambda>p. None) fresh_config
      \<lparr>environ = (\<lambda>v. None), temp_roots = {}\<rparr>))) \<lparr>environ = (\<lambda>v. Some ''left''), temp_roots = {''/tmp/x''}\<rparr>))
     ''XDG_DATA_HOME'' = None"
proof -
  let ?w = "\<lparr>environ = (\<lambda>v. None), temp_roots = {}\<rparr> :: xdg_world"
  obtain r cfg w1 where c: "pytest_configure (Inr ''/tmp/x'') (\<lambda>p. None) fresh_config ?w = (r, cfg, w1)"
    by (cases "pytest_configure (Inr ''/tmp/x'') (\<lambda>p. None) fresh_config ?w") auto
  have "\<not> opted_out (environ ?w)" by (simp add: opted_out_def strip_def lower_def)
  from xdg_round_trip [OF this c, of "\<lparr>environ = (\<lambda>v. Some ''left''), temp_roots = {''/tmp/x''}\<rparr>"] c
  show ?thesis by (simp add: xdg_vars_def Let_def case_prod_beta)
qed

text \<open>While the session runs, every XDG variable names its own directory below the fresh root,
  each of which was created, and no two are the same; other variables are untouched. With the opt-out
  the whole plugin changes nothing, at either end.\<close>

theorem xdg_session_isolated:
  "(\<not> opted_out (environ w) \<longrightarrow> pytest_configure (Inr root) makedirs fresh_config w = (Inr (), cfg, w') \<longrightarrow>
       (\<forall>v \<in> set xdg_vars. \<exists>p. environ w' v = Some p \<and> makedirs p = None \<and> p = path_join root (xdg_leaf v))
       \<and> inj_on (environ w') (set xdg_vars)
       \<and> (\<forall>x. x \<notin> set xdg_vars \<longrightarrow> environ w' x = environ w x))
   \<and> (opted_out (environ w) \<longrightarrow> pytest_configure mkdtemp makedirs fresh_config w = (Inr (), fresh_config, w)
       \<and> pytest_unconfigure fresh_config later = (fresh_config, later))"
  using configured [of w root makedirs cfg w']
  by (auto simp: pytest_configure_def pytest_unconfigure_def fresh_config_def)

theorem xdg_session_isolated_witness:
  "environ (snd (snd (pytest_configure (Inr ''/tmp/x'') (\<lambda>p. None) fresh_config
      \<lparr>environ = (\<lambda>v. None), temp_roots = {}\<rparr>))) ''XDG_DATA_HOME'' = Some ''/tmp/x/data''"
proof -
  let ?w = "\<lparr>environ = (\<lambda>v. None), temp_roots = {}\<rparr> :: xdg_world"
  let ?c = "pytest_configure (Inr ''/tmp/x'') (\<lambda>p. None) fresh_config ?w"
  have "\<not> opted_out (environ ?w)" by (simp add: opted_out_def strip_def lower_def)
  moreover from this have "?c = (Inr (), fst (snd ?c), snd (snd ?c))"
    by (simp add: pytest_configure_def xdg_vars_def Let_def)
  ultimately show ?thesis
    using xdg_session_isolated [of ?w "''/tmp/x''" "\<lambda>p. None" "fst (snd ?c)" "snd (snd ?c)"]
    by (auto simp: xdg_vars_def path_join_def)
qed

end
