(* ===== verification/Spec2Isabelle.thy ===== *)
theory Spec2Isabelle
  imports Client_Database Message_Recorder Delivery_Pump Pump_Programs Node_Core Topology_Builder
    Scenario_Presets Agent_Protocol Delivery_Assertions Bridge_Assertions Node_Waits Pytest_Fixtures
    Loopback_Server Loopback_Thread Loopback_Credentials Loopback_Clients Loopback_Service
    Loopback_Hive Node_Types Node_Delivery Identity_Files Package_Imports Ovoscope_Agent Topology_Plot Xdg_Isolation
begin

text \<open>
  A verification library for hivescope, the in-process end-to-end test harness for HiveMind.

  \<^bold>\<open>The program.\<close> hivescope wires real hivemind-core masters and real client-side satellites together
  inside one process, without sockets. A test builds a hive with \<open>TopologyBuilder\<close>
  (\<open>topology.py\<close>, or a preset of \<open>scenarios.py\<close>), starts it, lets its nodes (\<open>node.py\<close>) exchange
  messages, and reads the verdicts of \<open>assertions.py\<close> off the recorders (\<open>recorder.py\<close>). A master
  admits satellites through a credential store (\<open>database.py\<close>); \<open>plugins/network.py\<close> replaces the
  network, \<open>plugins/agent.py\<close> and \<open>plugins/binary.py\<close> the agent and the binary handler. Since both
  ends of a connection live on one call stack, every delivery goes through a thread-local pump
  (\<open>_deliver\<close> of \<open>node.py\<close>): only the outermost call drains the queue, and a master's \<open>send\<close> is
  wrapped so that the drain starts outside the transport's lock. Clients outside the process connect to a
  master through a real WebSocket server (\<open>plugins/loopback.py\<close>); \<open>plugins/ovoscope_agent.py\<close> puts a
  real skill runtime behind a master; \<open>pytest_fixtures.py\<close> and \<open>xdg_isolation.py\<close> tie the harness to
  pytest, and \<open>topology_plot.py\<close> draws hives.

  \<^bold>\<open>Theories.\<close> Each one opens with what it models.

  \<^item> \<open>Hive_Prelude\<close>: exceptions as values, Python dictionaries (locale \<open>ordered_dict\<close>), runs and
    invariants (locale \<open>kept_invariant\<close>), slices, numerals. \<open>Py_Value\<close>: message payloads, \<open>==\<close>,
    truthiness, \<open>get\<close>, and the HiveMind message types. \<open>Py_Text\<close>: the string and path functions of
    Python that several components use.
  \<^item> \<open>Client_Database\<close> (\<open>database.py\<close>): \<open>client_db\<close> is \<open>_clients\<close> with \<open>_next_id\<close>; one function per
    method, the interface is the locale \<open>client_store\<close>. After any history ids resolve uniquely, the id of
    a deleted client is never reused, and registering a known key has the documented field semantics.
  \<^item> \<open>Message_Recorder\<close> (\<open>recorder.py\<close>): records, lookups, and \<open>wait_for\<close> as a program counter with one
    transition per locked region, interleaved with any number of recording and waiting threads. Its
    results match, it ends within six of its own steps after the deadline, an undirected wait
    never sleeps on a matching record; a directed one can lose a wake-up.
  \<^item> \<open>Delivery_Pump\<close>, \<open>Pump_Programs\<close> (\<open>_pump\<close>, \<open>_deliver\<close>, \<open>_pumped_send\<close> of \<open>node.py\<close>): callables are
    programs, one thread runs them on a stack of frames. Every rooted call completes, deliveries run
    first in first out and never under a send lock; an unrooted send can deadlock; a delivery that raises
    leaves its followers in the queue.
  \<^item> \<open>Node_Core\<close> (\<open>node.py\<close>, \<open>plugins/network.py\<close>): the world maps numbers to satellites, masters and
    connections; each method is a program of the pump, statement by statement. The lemmas say what
    connect, send, receive, disconnect and a close by the master leave behind, errors included.
  \<^item> \<open>Topology_Builder\<close> (\<open>topology.py\<close>, \<open>utils.py\<close>, the \<open>create\<close> methods): identities, the builder's
    dictionaries and its list of connections, \<open>start_all\<close>, \<open>stop_all\<close>. The invariant is that every
    recorded connection resolves; \<open>start_all\<close>, which runs every master's network first, refines an abstract
    function on who is linked to whom; \<open>stop_all\<close> returns whatever the masters' stop methods raise.
    \<open>Identity_Files\<close> (\<open>utils.py\<close>) has the configuration, the key file and the temporary directory behind an
    identity, and that removing it gives the disk back.
  \<^item> \<open>Loopback_Hive\<close>: the builder with masters made with \<open>use_loopback\<close>, on \<open>Loopback_Server\<close>. A hive comes up
    with its servers; a server that refuses stops \<open>start_all\<close> before anyone is connected; after \<open>stop_all\<close>
    the process has the servers it had before.
  \<^item> \<open>Node_Types\<close>: the types of the world (connections exist and call back their satellite, records carry the
    documented directions, recorders are in the order of time) hold at every step of any test, and
    a teardown works after it.
  \<^item> \<open>Node_Delivery\<close>: while connections stay, the pump is a channel from each satellite to its master that loses
    nothing, duplicates nothing and keeps the order.
  \<^item> \<open>Scenario_Presets\<close> (\<open>scenarios.py\<close>): the nine presets; what each builds, for every size, and that
    starting one connects every satellite.
  \<^item> \<open>Agent_Protocol\<close> (\<open>plugins/agent.py\<close>, \<open>plugins/binary.py\<close>): the recording wrapper on a bus and its
    removal, the reverse routing to the clients, the query seam, the recorded binary calls.
  \<^item> \<open>Delivery_Assertions\<close>, \<open>Bridge_Assertions\<close> (\<open>assertions.py\<close>): each helper as the verdict it reaches
    on snapshots of the recorders, \<open>Inr ()\<close> or the exception; helpers that poll also take the readings of the
    clock. The lemmas say what a passing verdict proves about the records.
  \<^item> \<open>Node_Waits\<close> (\<open>node.py\<close>): the shim's \<open>emit\<close> and attributes, \<open>wait_for\<close>, \<open>wait_for_bus\<close> on
    one-shot listeners, \<open>wait_for_handshake\<close>. \<open>Pytest_Fixtures\<close> (\<open>pytest_fixtures.py\<close>): each fixture as builder calls and
    a program of the pump; a satellite fixture yields a connected satellite with its handshake done.
  \<^item> \<open>Loopback_Server\<close> (\<open>plugins/loopback.py\<close>: \<open>run\<close>, \<open>stop\<close>, \<open>_LIVE_FLOORS\<close>): any number of
    instances that share one configured protocol floor. In every history the running ones agree on it; a run
    serves or changes nothing; a broken instance never runs again. \<open>Loopback_Thread\<close> has the server thread itself
    (\<open>_run_server\<close>, \<open>_start_server\<close>, \<open>_shutdown_loop\<close>), refines the steps of \<open>Loopback_Server\<close>, and closes what it
    opened whatever the library raises.
  \<^item> \<open>Loopback_Credentials\<close> (\<open>_handle_client\<close> up to the connection): Base64, UTF-8 and query parsing as the
    standard library does them, the lookup, the connection. Encoded credentials are read back, and admission
    follows the client store.
  \<^item> \<open>Loopback_Clients\<close> (\<open>_handle_client\<close> from there, \<open>_drain_clients\<close>, \<open>stop\<close>): the sender's queue, the
    loop over inbound frames, and the collections of live handlers. The collections agree, a frame that raises
    stops nothing, and a stop whose handlers end in time leaves no ghost peer.
  \<^item> \<open>Loopback_Service\<close>: one instance as a whole, the three theories above over one client store; a
    live client has the permissions that some earlier state of the store held under its key.
  \<^item> \<open>Ovoscope_Agent\<close> (\<open>plugins/ovoscope_agent.py\<close>): start, shutdown, polling waits and captures on top of
    \<open>Agent_Protocol\<close>.
  \<^item> \<open>Topology_Plot\<close> (\<open>topology_plot.py\<close>): a drawing is what is handed to networkx and matplotlib. The
    drawing of a builder shows its wiring, with the two sides of a relay as one node.
  \<^item> \<open>Xdg_Isolation\<close> (\<open>xdg_isolation.py\<close>): both pytest hooks; the environment is given back.
  \<^item> \<open>Package_Imports\<close> (\<open>__init__.py\<close>, \<open>version.py\<close> and the import statements of every module): what importing the
    package needs, and that every exported name is bound to an object.

  \<^bold>\<open>Interfaces.\<close> The laws of the store that \<open>client_store\<close> states carry \<open>register_satellite\<close> and
  \<open>connect_satellite\<close> and the admission of loopback clients; the recorder's lookups serve the
  assertion helpers; \<open>Topology_Builder\<close> and \<open>Pytest_Fixtures\<close> compose the programs of \<open>Node_Core\<close> and
  reason on them through \<open>leads_to\<close> and \<open>settle\<close> of \<open>Pump_Programs\<close>.
  Invariants of the store, the recorder, the pump, the builder, the loopback instances and their client
  handlers are all interpretations of \<open>kept_invariant\<close>.

  \<^bold>\<open>The libraries.\<close> hivemind-core, the client library and ovos-bus-client are not in the repository: they
  are the fields of the record \<open>core\<close>, or arguments such as the deserialiser. What the code relies on is
  named and assumed where it is used, and each assumption is met by \<open>quiet_core\<close>, a concrete
  library, in the witnesses:
  \<open>core_ok\<close> (handlers send through the nodes' \<open>send\<close> and never call out while they hold a
  transport lock), \<open>drop_ok\<close> and \<open>drop_removes\<close> (dropping a client is the master's own bookkeeping, and
  takes the peer out of \<open>clients\<close>), \<open>connects_ok\<close> (a handshake with an in-process master on an idle thread
  completes), \<open>stops_plain\<close> (stop methods deliver nothing and touch no satellite), \<open>core_sound\<close>
  (\<open>core_ok\<close>, \<open>stops_plain\<close>, and what a handler does itself, beyond calling the nodes' methods, leaves the types
  of the world alone), \<open>core_books\<close> (decoding and the handlers touch recorders and
  connections through the nodes only). How a loopback server starts and
  whether its thread can be joined are the fields \<open>core_server\<close> and \<open>core_joined\<close>. For loopback clients the listener
  protocol is the record \<open>listener\<close>, with \<open>keeps_peers\<close> (a new client adds at most itself to the
  peers, a client that is gone is not among them) and \<open>silent\<close> (dropping a client does not raise), met by
  \<open>set_listener\<close>. How a server start, the join of a thread, the creation of a directory or a layout algorithm
  ends are arguments.

  \<^bold>\<open>Bounds and fuel.\<close> Imports nest at most \<open>import_depth\<close> deep, which is more than there are modules. \<open>_on_disconnect\<close> and the core's \<open>handle_client_disconnected\<close> call each other; the
  model bounds the nesting by \<open>disconnect_nesting\<close>, and the theorems on disconnecting show that it is
  never reached: the second \<open>_on_disconnect\<close> finds both links cleared. Programs are well-founded
  trees, so no other fuel is needed; that a call completes is a theorem (\<open>rooted_call_completes\<close>,
  \<open>node_calls_complete\<close>). Python integers are unbounded and time is an integer count of ticks.

  \<^bold>\<open>Not modelled.\<close> Logging and diagnostic texts; floats; \<open>_location_signature\<close>, which is a library
  \<open>Session\<close> and a parameter; asyncio and the websockets library below the handlers of
  \<open>plugins/loopback.py\<close>, with their timeouts; the event emitter of the shim, which only the client library
  uses; the pixels of a drawing; the contents of key files; the order in which pytest runs fixtures.
\<close>

end
